(* ===== verification/Tunnel_Prelude.thy ===== *)
theory Tunnel_Prelude
  imports Main "HOL-Library.Word"
begin

text \<open>
  Shared ground of the development: the machine integers of the program, the exceptions it
  throws as values of a sum type, sequencing of fallible computations, and the lemmas on words,
  lists and sums the component theories use.

  The platform is the one the build files name (x86-64 and arm64): \<open>char\<close> is 8 bits,
  \<open>short\<close> 16, \<open>int\<close> 32, \<open>long\<close> and \<open>size_t\<close> 64 bits, little endian.
  A \<open>short\<close> that travels over the wire is a \<^typ>\<open>16 word\<close>; its C value is its
  signed reading \<^const>\<open>sint\<close>.
\<close>

unbundle bit_operations_syntax

section \<open>Machine integers\<close>

type_synonym byte = "8 word"
type_synonym short = "16 word"
type_synonym u32 = "32 word"
type_synonym u64 = "64 word"
type_synonym c_int = int
type_synonym bytes = "byte list"

named_theorems exn_simps \<open>sequencing of fallible computations\<close>
named_theorems codec_simps \<open>reading back what was written\<close>

section \<open>Errors\<close>

text \<open>The error numbers the source tests by name; every other one is \<open>E_OTHER\<close>.\<close>

datatype errno =
    EAGAIN | EINTR | EHOSTUNREACH | ECONNRESET | EADDRINUSE | ETIMEDOUT | EPROTOTYPE
  | EPROTONOSUPPORT | EAFNOSUPPORT | ECONNREFUSED | ENETDOWN | ENETUNREACH | EBADF | EIO
  | E_OTHER nat

text \<open>
  What C++ leaves undefined and the source does not exclude by a check of its own: these are
  outcomes of the model, so that a theorem about a result has to show they do not happen.
\<close>

datatype ub =
    EmptyDeque        \<comment> \<open>\<open>front\<close> or \<open>pop_front\<close> of an empty deque\<close>
  | BadIterator       \<comment> \<open>an iterator moved outside its container\<close>
  | DanglingPollfd    \<comment> \<open>a \<open>pollfd&\<close> whose entry has been erased\<close>
  | NullPointer       \<comment> \<open>a null smart pointer dereferenced\<close>
  | UseAfterFree      \<comment> \<open>a raw pointer to a destroyed object\<close>

datatype exn =
    MyException string       \<comment> \<open>\<open>throw MY_EXCEPTION(msg)\<close>\<close>
  | MyExceptionErrno errno   \<comment> \<open>\<open>throw MY_EXCEPTION_ERRNO\<close>\<close>
  | CStringExn string        \<comment> \<open>\<open>throw "..."\<close>, a C string\<close>
  | ExecProcess "string list" \<comment> \<open>the process image replaced by \<open>execvp\<close>\<close>
  | ExitProcess int          \<comment> \<open>\<open>exit(code)\<close>\<close>
  | Undefined ub
  | OutOfFuel                \<comment> \<open>no outcome of the code: a loop bound of the model was reached\<close>

type_synonym 'a res = "exn + 'a"

text \<open>Statement sequencing: an exception skips the rest.\<close>

definition bindE :: "'a res \<Rightarrow> ('a \<Rightarrow> 'b res) \<Rightarrow> 'b res" where
  "bindE r f = (case r of Inl e \<Rightarrow> Inl e | Inr x \<Rightarrow> f x)"

lemma bindE_Inl [simp, exn_simps]: "bindE (Inl e) f = Inl e"
  by (simp add: bindE_def)

lemma bindE_Inr [simp, exn_simps]: "bindE (Inr x) f = f x"
  by (simp add: bindE_def)

lemma bindE_eq_Inr [exn_simps]: "bindE r f = Inr y \<longleftrightarrow> (\<exists>x. r = Inr x \<and> f x = Inr y)"
  by (cases r) auto

lemma bindE_eq_Inl [exn_simps]:
  "bindE r f = Inl e \<longleftrightarrow> r = Inl e \<or> (\<exists>x. r = Inr x \<and> f x = Inl e)"
  by (cases r) auto

lemma bindE_assoc: "bindE (bindE r f) g = bindE r (\<lambda>x. bindE (f x) g)"
  by (cases r) auto

lemma bindE_InrE:
  assumes "bindE r f = Inr y"
  obtains x where "r = Inr x" and "f x = Inr y"
  using assms by (auto simp: bindE_eq_Inr)

text \<open>Run a fallible decoder \<open>n\<close> times, collecting the results (a counted \<open>for\<close> loop).\<close>

fun repeatE :: "nat \<Rightarrow> ('s \<Rightarrow> ('a \<times> 's) res) \<Rightarrow> 's \<Rightarrow> ('a list \<times> 's) res" where
  "repeatE 0 f s = Inr ([], s)"
| "repeatE (Suc n) f s =
     bindE (f s) (\<lambda>(x, s1). bindE (repeatE n f s1) (\<lambda>(xs, s2). Inr (x # xs, s2)))"

lemma repeatE_length: "repeatE n f s = Inr (xs, s') \<Longrightarrow> length xs = n"
  by (induction n arbitrary: s xs s') (auto simp: exn_simps split: prod.splits)

text \<open>Iterate a fallible state transformer (the same call made \<open>n\<close> times).\<close>

fun iterE :: "nat \<Rightarrow> ('s \<Rightarrow> 's res) \<Rightarrow> 's \<Rightarrow> 's res" where
  "iterE 0 f s = Inr s"
| "iterE (Suc n) f s = bindE (f s) (iterE n f)"

text \<open>An invariant of one call is an invariant of the iteration.\<close>

lemma iterE_invariant:
  assumes step: "\<And>s s'. P s \<Longrightarrow> f s = Inr s' \<Longrightarrow> P s'"
  shows "P s \<Longrightarrow> iterE n f s = Inr s' \<Longrightarrow> P s'"
  by (induction n arbitrary: s) (auto simp: exn_simps dest: step)

section \<open>Contracts of fallible computations\<close>

text \<open>
  \<open>res_ok E P r\<close>: the computation \<open>r\<close> ends in a result with \<open>P\<close> or in an exception with
  \<open>E\<close>. The rules follow the structure of the code.
\<close>

definition res_ok :: "(exn \<Rightarrow> bool) \<Rightarrow> ('a \<Rightarrow> bool) \<Rightarrow> 'a res \<Rightarrow> bool" where
  "res_ok E P r \<longleftrightarrow> (case r of Inl e \<Rightarrow> E e | Inr x \<Rightarrow> P x)"

named_theorems ok_rules \<open>contracts by the structure of the code\<close>

lemma res_ok_Inl [simp]: "res_ok E P (Inl e) \<longleftrightarrow> E e"
  by (simp add: res_ok_def)

lemma res_ok_Inr [simp]: "res_ok E P (Inr x) \<longleftrightarrow> P x"
  by (simp add: res_ok_def)

lemma res_ok_InrD: "res_ok E P r \<Longrightarrow> r = Inr x \<Longrightarrow> P x"
  by simp

lemma res_ok_InlD: "res_ok E P r \<Longrightarrow> r = Inl e \<Longrightarrow> E e"
  by simp

lemma res_ok_mono: "res_ok E Q r \<Longrightarrow> (\<And>x. Q x \<Longrightarrow> P x) \<Longrightarrow> (\<And>e. E e \<Longrightarrow> F e) \<Longrightarrow> res_ok F P r"
  by (cases r) simp_all

lemma res_ok_bind:
  "res_ok E Q r \<Longrightarrow> (\<And>x. Q x \<Longrightarrow> res_ok E P (k x)) \<Longrightarrow> res_ok E P (bindE r k)"
  by (cases r) simp_all

text \<open>A call whose result is only looked at.\<close>

lemma res_ok_bind_value:
  "(\<And>e. r = Inl e \<Longrightarrow> E e) \<Longrightarrow> (\<And>x. r = Inr x \<Longrightarrow> res_ok E P (k x)) \<Longrightarrow> res_ok E P (bindE r k)"
  by (cases r) simp_all

lemma res_ok_if [ok_rules]:
  "(b \<Longrightarrow> res_ok E P x) \<Longrightarrow> (\<not> b \<Longrightarrow> res_ok E P y) \<Longrightarrow> res_ok E P (if b then x else y)"
  by simp

lemma res_ok_prod [ok_rules]:
  "(\<And>a b. p = (a, b) \<Longrightarrow> res_ok E P (f a b)) \<Longrightarrow> res_ok E P (case p of (a, b) \<Rightarrow> f a b)"
  by (cases p) simp

lemma res_ok_option [ok_rules]:
  "(x = None \<Longrightarrow> res_ok E P u) \<Longrightarrow> (\<And>a. x = Some a \<Longrightarrow> res_ok E P (f a)) \<Longrightarrow>
     res_ok E P (case x of None \<Rightarrow> u | Some a \<Rightarrow> f a)"
  by (cases x) simp_all

lemma res_ok_sum [ok_rules]:
  "(\<And>a. x = Inl a \<Longrightarrow> res_ok E P (f a)) \<Longrightarrow> (\<And>b. x = Inr b \<Longrightarrow> res_ok E P (g b)) \<Longrightarrow>
     res_ok E P (case x of Inl a \<Rightarrow> f a | Inr b \<Rightarrow> g b)"
  by (cases x) simp_all

lemma res_ok_Let [ok_rules]: "(\<And>x. x = a \<Longrightarrow> res_ok E P (f x)) \<Longrightarrow> res_ok E P (let x = a in f x)"
  by simp

lemma res_ok_iterE:
  assumes "\<And>t. Q t \<Longrightarrow> res_ok E Q (f t)"
  shows "Q s \<Longrightarrow> res_ok E Q (iterE n f s)"
  by (induction n arbitrary: s) (auto intro!: res_ok_bind [where Q = Q] assms)

section \<open>Characters\<close>

definition byte_of_char :: "char \<Rightarrow> byte" where
  "byte_of_char c = of_char c"

definition char_of_byte :: "byte \<Rightarrow> char" where
  "char_of_byte b = char_of (unat b)"

lemma unat_byte_of_char [simp]: "unat (byte_of_char c) = of_char c"
proof -
  have "byte_of_char c = word_of_nat (of_char c)"
    by (simp add: byte_of_char_def of_nat_of_char)
  moreover have "of_char c < (2 ^ LENGTH(8) :: nat)"
    using mod_less_divisor [of 256 "of_char c :: nat"] by (simp only: of_char_mod_256) simp
  ultimately show ?thesis
    by (simp add: unsigned_of_nat take_bit_eq_mod)
qed

lemma char_of_byte_of_char [simp]: "char_of_byte (byte_of_char c) = c"
  by (simp add: char_of_byte_def)

lemma byte_of_char_of_byte [simp]: "byte_of_char (char_of_byte b) = b"
proof -
  have "unat (byte_of_char (char_of_byte b)) = unat b"
    using unsigned_less [of b, where 'a = nat] by (simp add: char_of_byte_def)
  then show ?thesis by (simp only: unsigned_word_eqI)
qed

lemma map_char_of_byte_of_char [simp]: "map (char_of_byte \<circ> byte_of_char) xs = xs"
  by (induction xs) auto

section \<open>Words as bytes\<close>

lemma short_255_mask: "(255 :: short) = mask 8"
  by (simp add: mask_eq_exp_minus_1)

lemma byte_bit_beyond: "8 \<le> n \<Longrightarrow> \<not> bit (x :: byte) n"
  using bit_imp_le_length [of x n] by auto

lemma byte_bit_bound: "bit (x :: byte) n \<Longrightarrow> n < 8"
  using bit_imp_le_length [of x n] by simp

lemma short_of_byte_pair [codec_simps]:
  fixes s :: short
  shows "push_bit 8 (ucast (ucast (signed_drop_bit 8 s) :: byte)) + ucast (ucast (s AND 255) :: byte) = s"
    (is "?a + ?b = s")
proof -
  have "?a + ?b = ?a OR ?b"
    by (rule disjunctive_add_eq_or) (rule bit_word_eqI, auto simp: bit_simps dest: byte_bit_bound)
  also have "\<dots> = s"
  proof (rule bit_word_eqI)
    fix n :: nat
    assume "n < LENGTH(16)"
    then show "bit (?a OR ?b) n = bit s n"
      unfolding short_255_mask by (cases "n < 8") (auto simp: bit_simps)
  qed
  finally show ?thesis .
qed

lemma byte_pair_of_short:
  fixes x y :: byte
  defines "s \<equiv> push_bit 8 (ucast x) + ucast y :: short"
  shows "ucast (signed_drop_bit 8 s) = x" and "ucast (s AND 255) = y"
proof -
  have s: "s = push_bit 8 (ucast x) OR ucast y"
    unfolding s_def
    by (rule disjunctive_add_eq_or) (rule bit_word_eqI, auto simp: bit_simps dest: byte_bit_bound)
  show "ucast (signed_drop_bit 8 s) = x"
    unfolding s by (rule bit_word_eqI) (auto simp: bit_simps dest: byte_bit_bound)
  show "ucast (s AND 255) = y"
    unfolding s short_255_mask by (rule bit_word_eqI) (auto simp: bit_simps)
qed

text \<open>
  The memory image of \<open>htonl(x)\<close> is the big-endian byte sequence of \<open>x\<close>, and \<open>ntohl\<close>
  of four bytes of memory is the number they spell big-endian; both by the definition of network
  byte order, whatever the byte order of the host.
\<close>

definition htonl_image :: "u32 \<Rightarrow> bytes" where
  "htonl_image w = [ucast (drop_bit 24 w), ucast (drop_bit 16 w), ucast (drop_bit 8 w), ucast w]"

definition ntohl_image :: "byte \<Rightarrow> byte \<Rightarrow> byte \<Rightarrow> byte \<Rightarrow> u32" where
  "ntohl_image a b c d =
     push_bit 24 (ucast a) OR push_bit 16 (ucast b) OR push_bit 8 (ucast c) OR ucast d"

lemma length_htonl_image [simp]: "length (htonl_image w) = 4"
  by (simp add: htonl_image_def)

lemma ntohl_htonl [codec_simps]:
  "ntohl_image (ucast (drop_bit 24 w)) (ucast (drop_bit 16 w)) (ucast (drop_bit 8 w)) (ucast w) = w"
  (is "?l = w")
proof (rule bit_word_eqI)
  fix n :: nat
  assume "n < LENGTH(32)"
  then consider "n < 8" | "8 \<le> n \<and> n < 16" | "16 \<le> n \<and> n < 24" | "24 \<le> n \<and> n < 32"
    by fastforce
  then show "bit ?l n = bit w n"
    by cases (auto simp: ntohl_image_def bit_simps)
qed

lemma htonl_ntohl [codec_simps]: "htonl_image (ntohl_image a b c d) = [a, b, c, d]"
  unfolding ntohl_image_def htonl_image_def
  by (auto intro!: bit_word_eqI simp: bit_simps byte_bit_beyond)

end
