(* ===== verification/Posix.thy ===== *)
theory Posix
  imports Tunnel_Prelude
begin

text \<open>
  The operating system as the program sees it. The system calls are a parameter of every
  operation that makes one: a record of functions over an unknown world state \<open>'w\<close>. What
  the theorems rely on is stated as named hypotheses on that record (\<open>posix_read\<close>,
  \<open>posix_write\<close>, \<open>posix_poll\<close>), each the documented behaviour of the call. The
  \<open>pollfd\<close> structure and its flag bits are those of \<open>net/PollConfig.h\<close>.
\<close>

section \<open>The pollfd structure\<close>

record pollfd =
  fd :: c_int
  events :: short
  revents :: short

definition POLLIN :: short where "POLLIN = 1"
definition POLLOUT :: short where "POLLOUT = 4"
definition POLLERR :: short where "POLLERR = 8"
definition POLLHUP :: short where "POLLHUP = 16"
definition POLLNVAL :: short where "POLLNVAL = 32"

lemmas poll_flags = POLLIN_def POLLOUT_def POLLERR_def POLLHUP_def POLLNVAL_def

text \<open>\<open>if (bits & mask)\<close>\<close>

definition flag :: "short \<Rightarrow> short \<Rightarrow> bool" where
  "flag m bits \<longleftrightarrow> bits AND m \<noteq> 0"

named_theorems poll_simps \<open>flag bits of the constants the program stores\<close>

lemma flag_zero [simp, poll_simps]: "\<not> flag m 0"
  by (simp add: flag_def)

lemma flag_consts [simp, poll_simps]:
  "flag POLLIN POLLIN" "\<not> flag POLLIN POLLOUT" "flag POLLOUT POLLOUT" "\<not> flag POLLOUT POLLIN"
  by (simp_all add: flag_def poll_flags)

lemma flag_or [simp, poll_simps]: "flag m (a OR b) \<longleftrightarrow> flag m a \<or> flag m b"
proof -
  have "(a OR b) AND m = (a AND m) OR (b AND m)"
    by (rule bit_word_eqI) (auto simp: bit_simps)
  then show ?thesis
    by (simp add: flag_def or_eq_0_iff)
qed

lemma flag_clear [simp, poll_simps]:
  "\<not> flag POLLOUT (a AND NOT POLLOUT)" "flag POLLIN (a AND NOT POLLOUT) \<longleftrightarrow> flag POLLIN a"
proof -
  have "(a AND NOT POLLOUT) AND POLLOUT = 0"
    by (rule bit_word_eqI) (auto simp: bit_simps)
  then show "\<not> flag POLLOUT (a AND NOT POLLOUT)"
    by (simp add: flag_def)
  have "NOT POLLOUT AND POLLIN = POLLIN"
    by (simp add: poll_flags)
  then have "(a AND NOT POLLOUT) AND POLLIN = a AND POLLIN"
    by (simp add: and.assoc)
  then show "flag POLLIN (a AND NOT POLLOUT) \<longleftrightarrow> flag POLLIN a"
    by (simp add: flag_def)
qed

section \<open>System calls\<close>

text \<open>
  \<open>sys_read f n\<close> is \<open>read(f, buf, n)\<close>: the bytes stored in \<open>buf\<close> (none at end of
  file), or the error. \<open>sys_write f bs\<close> is \<open>write(f, bs, |bs|)\<close>: the count accepted, or
  the error. \<open>sys_poll fds timeout\<close> is \<open>poll(2)\<close>: the count of descriptors with events
  and the array with \<open>revents\<close> filled in. \<open>sys_close\<close> is \<open>close(2)\<close>, whose result
  the program ignores.
\<close>

record 'w posix =
  sys_read :: "c_int \<Rightarrow> nat \<Rightarrow> 'w \<Rightarrow> (errno + bytes) \<times> 'w"
  sys_write :: "c_int \<Rightarrow> bytes \<Rightarrow> 'w \<Rightarrow> (errno + nat) \<times> 'w"
  sys_poll :: "pollfd list \<Rightarrow> c_int \<Rightarrow> 'w \<Rightarrow> (errno + nat \<times> pollfd list) \<times> 'w"
  sys_close :: "c_int \<Rightarrow> 'w \<Rightarrow> 'w"

text \<open>
  A descriptor \<open>f\<close> read as a byte stream: \<open>inp w\<close> is what is still to come on it. A read
  takes a prefix of it, of at most the requested length; a failed read takes nothing.
\<close>

definition posix_read :: "('w, 'o) posix_scheme \<Rightarrow> c_int \<Rightarrow> ('w \<Rightarrow> bytes) \<Rightarrow> bool" where
  "posix_read os f inp \<longleftrightarrow>
     (\<forall>n w. case sys_read os f n w of
        (Inl _, w') \<Rightarrow> inp w' = inp w
      | (Inr bs, w') \<Rightarrow> length bs \<le> n \<and> inp w = bs @ inp w')"

text \<open>Written as a byte stream: \<open>out w\<close> is what has been accepted on it so far.\<close>

definition posix_write :: "('w, 'o) posix_scheme \<Rightarrow> c_int \<Rightarrow> ('w \<Rightarrow> bytes) \<Rightarrow> bool" where
  "posix_write os f out \<longleftrightarrow>
     (\<forall>bs w. case sys_write os f bs w of
        (Inl _, w') \<Rightarrow> out w' = out w
      | (Inr k, w') \<Rightarrow> k \<le> length bs \<and> out w' = out w @ take k bs)"

text \<open>
  \<open>poll(2)\<close> changes \<open>revents\<close> only, and reports an event in \<open>POLLIN\<close> or
  \<open>POLLOUT\<close> only where it was asked for.
\<close>

definition posix_poll :: "('w, 'o) posix_scheme \<Rightarrow> bool" where
  "posix_poll os \<longleftrightarrow>
     (\<forall>fds t w. case sys_poll os fds t w of
        (Inl _, _) \<Rightarrow> True
      | (Inr (k, fds'), _) \<Rightarrow>
          length fds' = length fds \<and>
          (\<forall>i < length fds. fd (fds' ! i) = fd (fds ! i) \<and> events (fds' ! i) = events (fds ! i) \<and>
             (flag POLLIN (revents (fds' ! i)) \<longrightarrow> flag POLLIN (events (fds ! i))) \<and>
             (flag POLLOUT (revents (fds' ! i)) \<longrightarrow> flag POLLOUT (events (fds ! i)))))"

lemma posix_read_Inr:
  assumes "posix_read os f inp" "sys_read os f n w = (Inr bs, w')"
  shows "length bs \<le> n" "inp w = bs @ inp w'"
  using assms by (auto simp: posix_read_def dest: spec [where x = n] split: prod.splits sum.splits)

lemma posix_read_Inl:
  assumes "posix_read os f inp" "sys_read os f n w = (Inl e, w')"
  shows "inp w' = inp w"
  using assms by (fastforce simp: posix_read_def split: prod.splits sum.splits)

lemma posix_write_Inr:
  assumes "posix_write os f out" "sys_write os f bs w = (Inr k, w')"
  shows "k \<le> length bs" "out w' = out w @ take k bs"
  using assms by (fastforce simp: posix_write_def split: prod.splits sum.splits)+

lemma posix_poll_Inr:
  assumes "posix_poll os" "sys_poll os fds t w = (Inr (k, fds'), w')"
  shows "length fds' = length fds"
    and "i < length fds \<Longrightarrow> fd (fds' ! i) = fd (fds ! i) \<and> events (fds' ! i) = events (fds ! i) \<and>
      (flag POLLIN (revents (fds' ! i)) \<longrightarrow> flag POLLIN (events (fds ! i))) \<and>
      (flag POLLOUT (revents (fds' ! i)) \<longrightarrow> flag POLLOUT (events (fds ! i)))"
  using assms(1) [unfolded posix_poll_def, THEN spec, of fds, THEN spec, of t, THEN spec, of w]
  by (simp_all add: assms(2))

text \<open>A descriptor that takes at least one byte of every non-empty write.\<close>

definition write_ready :: "('w, 'o) posix_scheme \<Rightarrow> c_int \<Rightarrow> bool" where
  "write_ready os f \<longleftrightarrow>
     (\<forall>bs w. case sys_write os f bs w of
        (Inl _, _) \<Rightarrow> False
      | (Inr k, _) \<Rightarrow> bs \<noteq> [] \<longrightarrow> 0 < k)"

text \<open>A descriptor that delivers at least one byte while some are still to come.\<close>

definition read_ready :: "('w, 'o) posix_scheme \<Rightarrow> c_int \<Rightarrow> ('w \<Rightarrow> bytes) \<Rightarrow> bool" where
  "read_ready os f inp \<longleftrightarrow>
     (\<forall>n w. case sys_read os f n w of
        (Inl _, _) \<Rightarrow> False
      | (Inr bs, _) \<Rightarrow> 0 < n \<and> inp w \<noteq> [] \<longrightarrow> bs \<noteq> [])"

lemma write_readyE:
  assumes "write_ready os f"
  obtains k w' where "sys_write os f bs w = (Inr k, w')" "bs \<noteq> [] \<Longrightarrow> 0 < k"
proof -
  have "case sys_write os f bs w of (Inl _, _) \<Rightarrow> False | (Inr k, _) \<Rightarrow> bs \<noteq> [] \<longrightarrow> 0 < k"
    using assms by (simp add: write_ready_def)
  then show ?thesis
    using that by (cases "sys_write os f bs w"; cases "fst (sys_write os f bs w)") auto
qed

lemma read_readyE:
  assumes "read_ready os f inp"
  obtains bs w' where "sys_read os f n w = (Inr bs, w')" "0 < n \<Longrightarrow> inp w \<noteq> [] \<Longrightarrow> bs \<noteq> []"
proof -
  have "case sys_read os f n w of (Inl _, _) \<Rightarrow> False
      | (Inr bs, _) \<Rightarrow> 0 < n \<and> inp w \<noteq> [] \<longrightarrow> bs \<noteq> []"
    using assms by (simp add: read_ready_def)
  then show ?thesis
    using that by (cases "sys_read os f n w"; cases "fst (sys_read os f n w)") auto
qed

section \<open>The interface of an output buffer\<close>

text \<open>
  What the program needs of a buffer it empties into a descriptor one non-blocking write at a
  time: a call moves a prefix of the content to the descriptor, and gets on where the descriptor
  takes bytes. \<open>WriteStream\<close> and \<open>SockBuffer\<close> both provide it.
\<close>

locale out_buffer =
  fixes content :: "'b \<Rightarrow> bytes"
    and inv :: "'b \<Rightarrow> bool"
    and drain :: "('w, 'o) posix_scheme \<Rightarrow> c_int \<Rightarrow> 'b \<times> 'w \<Rightarrow> ('b \<times> 'w) res"
  assumes drain_moves: "posix_write os f out \<Longrightarrow> inv b \<Longrightarrow> drain os f (b, w) = Inr (b', w') \<Longrightarrow>
      out w' @ content b' = out w @ content b \<and> inv b'"
    and drain_progress: "posix_write os f out \<Longrightarrow> write_ready os f \<Longrightarrow> inv b \<Longrightarrow>
      \<exists>b' w'. drain os f (b, w) = Inr (b', w') \<and>
        length (content b') \<le> length (content b) - 1"
begin

lemma drains_move:
  assumes "posix_write os f out" "inv b" "iterE n (drain os f) (b, w) = Inr (b', w')"
  shows "out w' @ content b' = out w @ content b"
proof -
  let ?P = "\<lambda>(c, v). inv c \<and> out v @ content c = out w @ content b"
  have "?P (b', w')"
  proof (rule iterE_invariant [where P = ?P, OF _ _ assms(3)])
    show "?P s \<Longrightarrow> drain os f s = Inr s' \<Longrightarrow> ?P s'" for s s'
      using drain_moves [OF assms(1)] by (cases s; cases s') fastforce
    show "?P (b, w)"
      using assms(2) by simp
  qed
  then show ?thesis by simp
qed

lemma drains_succeed:
  assumes "posix_write os f out" "write_ready os f"
  shows "inv b \<Longrightarrow> length (content b) \<le> n \<Longrightarrow>
    \<exists>b' w'. iterE n (drain os f) (b, w) = Inr (b', w') \<and> content b' = []"
proof (induction n arbitrary: b w)
  case 0
  then show ?case by simp
next
  case (Suc n)
  obtain c v where d: "drain os f (b, w) = Inr (c, v)"
    and less: "length (content c) \<le> length (content b) - 1"
    using drain_progress [OF assms Suc.prems(1)] by blast
  have "inv c"
    using drain_moves [OF assms(1) Suc.prems(1) d] by simp
  moreover have "length (content c) \<le> n"
    using less Suc.prems(2) by simp
  ultimately show ?case
    using Suc.IH d by simp
qed

lemma drains_deliver_all:
  assumes "posix_write os f out" "write_ready os f" "inv b"
  shows "\<exists>b' w'. iterE (length (content b)) (drain os f) (b, w) = Inr (b', w') \<and>
    content b' = [] \<and> out w' = out w @ content b"
  using drains_succeed [OF assms order_refl, of w] drains_move [OF assms(1,3)]
  by (metis append_Nil2)

end

section \<open>A small concrete system\<close>

text \<open>
  One input stream and one output stream, each call moving at most \<open>quantum\<close> bytes, every
  polled descriptor ready for what it asked for. It shows that the hypotheses above can hold
  together and lets the operations be run on concrete data.
\<close>

record pipe_world =
  pw_in :: bytes
  pw_out :: bytes
  pw_closed :: "c_int list"

definition pipe_os :: "nat \<Rightarrow> pipe_world posix" where
  "pipe_os quantum =
     \<lparr>sys_read = (\<lambda>f n w. let k = min n quantum in
        (Inr (take k (pw_in w)), w\<lparr>pw_in := drop k (pw_in w)\<rparr>)),
      sys_write = (\<lambda>f bs w. let k = min (length bs) quantum in
        (Inr k, w\<lparr>pw_out := pw_out w @ take k bs\<rparr>)),
      sys_poll = (\<lambda>fds t w. (Inr (length fds, map (\<lambda>p. p\<lparr>revents := events p\<rparr>) fds), w)),
      sys_close = (\<lambda>f w. w\<lparr>pw_closed := f # pw_closed w\<rparr>)\<rparr>"

lemma pipe_os_read: "posix_read (pipe_os q) f pw_in"
  by (auto simp: posix_read_def pipe_os_def Let_def)

lemma pipe_os_write: "posix_write (pipe_os q) f pw_out"
  by (auto simp: posix_write_def pipe_os_def Let_def)

lemma pipe_os_write_ready: "0 < q \<Longrightarrow> write_ready (pipe_os q) f"
  by (auto simp: write_ready_def pipe_os_def Let_def)

lemma pipe_os_read_ready: "0 < q \<Longrightarrow> read_ready (pipe_os q) f pw_in"
  by (auto simp: read_ready_def pipe_os_def Let_def)

lemma pipe_os_poll: "posix_poll (pipe_os q)"
  by (auto simp: posix_poll_def pipe_os_def)

end
