(* ===== verification/Sub_Poll.thy ===== *)
theory Sub_Poll
  imports Posix
begin

text \<open>
  The replacement for \<open>poll(2)\<close> in \<open>net/Poller.cpp\<close>, for systems that have \<open>select(2)\<close>
  only. \<open>select\<close> is a parameter: it takes the number of descriptors to look at, the three sets
  and the time limit in seconds and microseconds, and gives the count and the sets that are
  left. Descriptors are below \<open>FD_SETSIZE\<close>.
\<close>

type_synonym 'w select =
  "c_int \<Rightarrow> c_int set \<Rightarrow> c_int set \<Rightarrow> c_int set \<Rightarrow> (c_int \<times> c_int) option \<Rightarrow> 'w \<Rightarrow>
     (errno + nat \<times> c_int set \<times> c_int set \<times> c_int set) \<times> 'w"

record fd_sets =
  max_fd :: c_int
  readfds :: "c_int set"
  writefds :: "c_int set"
  exceptfds :: "c_int set"

text \<open>The first loop: the sets asked for.\<close>

fun subpoll_collect :: "pollfd list \<Rightarrow> fd_sets \<Rightarrow> fd_sets" where
  "subpoll_collect [] t = t"
| "subpoll_collect (p # ps) t =
     (let t = (if max_fd t < fd p then t\<lparr>max_fd := fd p\<rparr> else t);
          t = t\<lparr>exceptfds := insert (fd p) (exceptfds t)\<rparr>;
          t = (if flag POLLIN (events p) then t\<lparr>readfds := insert (fd p) (readfds t)\<rparr> else t);
          t = (if flag POLLOUT (events p) then t\<lparr>writefds := insert (fd p) (writefds t)\<rparr> else t)
      in subpoll_collect ps t)"

text \<open>The second loop, for one entry: the events found.\<close>

definition subpoll_revents :: "c_int set \<Rightarrow> c_int set \<Rightarrow> c_int set \<Rightarrow> pollfd \<Rightarrow> short" where
  "subpoll_revents r wr ex p =
     (let v = 0;
          v = (if fd p \<in> ex then v OR POLLHUP else v);
          v = (if fd p \<in> r then v OR POLLIN else v)
      in if fd p \<in> wr then v OR POLLOUT else v)"

definition subpoll :: "'w select \<Rightarrow> pollfd list \<Rightarrow> c_int \<Rightarrow> 'w \<Rightarrow> (errno + nat \<times> pollfd list) \<times> 'w" where
  "subpoll sel fds timeout w =
     (let t = subpoll_collect fds \<lparr>max_fd = -1, readfds = {}, writefds = {}, exceptfds = {}\<rparr>;
          fds = map (\<lambda>p. p\<lparr>revents := 0\<rparr>) fds;
          limit = (if timeout < 0 then None else Some (timeout div 1000, timeout mod 1000 * 1000))
      in case sel (max_fd t + 1) (readfds t) (writefds t) (exceptfds t) limit w of
           (Inl e, w) \<Rightarrow> (Inl e, w)
         | (Inr (result, r, wr, ex), w) \<Rightarrow>
             if 0 < result
             then let fds = map (\<lambda>p. p\<lparr>revents := subpoll_revents r wr ex p\<rparr>) fds
                  in (Inr (length (filter (\<lambda>p. revents p \<noteq> 0) fds), fds), w)
             else (Inr (result, fds), w))"

section \<open>Properties\<close>

lemma collect_sets:
  "readfds (subpoll_collect ps t) = readfds t \<union> {fd p | p. p \<in> set ps \<and> flag POLLIN (events p)}"
  "writefds (subpoll_collect ps t) = writefds t \<union> {fd p | p. p \<in> set ps \<and> flag POLLOUT (events p)}"
  "exceptfds (subpoll_collect ps t) = exceptfds t \<union> fd ` set ps"
  by (induction ps arbitrary: t) (auto simp: Let_def)

lemma collect_max: "p \<in> set ps \<Longrightarrow> fd p \<le> max_fd (subpoll_collect ps t)"
  and collect_max_ge: "max_fd t \<le> max_fd (subpoll_collect ps t)"
proof (induction ps arbitrary: t)
  case (Cons q ps)
  {
    case 1
    show ?case
    proof (cases "p = q")
      case True
      let ?t = "if max_fd t < fd q then t\<lparr>max_fd := fd q\<rparr> else t"
      have "fd q \<le> max_fd ?t" by simp
      then show ?thesis
        using True by (auto simp: Let_def intro!: order_trans [OF _ Cons.IH(2)])
    next
      case False
      then show ?thesis
        using 1 Cons.IH(1) by (simp add: Let_def)
    qed
  next
    case 2
    show ?case
      by (auto simp: Let_def intro!: order_trans [OF _ Cons.IH(2)])
  }
qed simp_all

text \<open>\<open>select\<close> leaves subsets of the sets it was given.\<close>

definition select_shrinks :: "'w select \<Rightarrow> bool" where
  "select_shrinks sel \<longleftrightarrow>
     (\<forall>n r wr ex t w. case sel n r wr ex t w of
        (Inl _, _) \<Rightarrow> True
      | (Inr (_, r', wr', ex'), _) \<Rightarrow> r' \<subseteq> r \<and> wr' \<subseteq> wr \<and> ex' \<subseteq> ex)"

lemma select_shrinksD:
  assumes "select_shrinks sel" "sel n r wr ex t w = (Inr (k, r', wr', ex'), w')"
  shows "r' \<subseteq> r" "wr' \<subseteq> wr" "ex' \<subseteq> ex"
proof -
  have "case sel n r wr ex t w of (Inl _, _) \<Rightarrow> True
      | (Inr (_, r', wr', ex'), _) \<Rightarrow> r' \<subseteq> r \<and> wr' \<subseteq> wr \<and> ex' \<subseteq> ex"
    by (rule assms(1) [unfolded select_shrinks_def, rule_format])
  then show "r' \<subseteq> r" "wr' \<subseteq> wr" "ex' \<subseteq> ex"
    by (simp_all add: assms(2))
qed

lemma revents_flags:
  "flag POLLIN (subpoll_revents r wr ex p) \<longleftrightarrow> fd p \<in> r"
  "flag POLLOUT (subpoll_revents r wr ex p) \<longleftrightarrow> fd p \<in> wr"
proof -
  have "\<not> flag POLLIN POLLHUP" "\<not> flag POLLOUT POLLHUP"
    by (simp_all add: flag_def poll_flags)
  then show "flag POLLIN (subpoll_revents r wr ex p) \<longleftrightarrow> fd p \<in> r"
    "flag POLLOUT (subpoll_revents r wr ex p) \<longleftrightarrow> fd p \<in> wr"
    by (auto simp: subpoll_revents_def Let_def)
qed

lemma same_fd_same_entry:
  assumes "distinct (map fd fds)" "i < length fds" "q \<in> set fds" "fd q = fd (fds ! i)"
  shows "q = fds ! i"
  using assms by (metis distinct_map inj_onD nth_mem)

text \<open>C26: The replacement for \<open>poll\<close> keeps the contract the event loop relies on, when no descriptor
  is listed twice: the entries keep their descriptors and requests, \<open>POLLIN\<close> and
  \<open>POLLOUT\<close> are reported only where they were asked for, and the count returned is the
  number of entries with events.\<close>

theorem subpoll_contract:
  assumes "select_shrinks sel" "distinct (map fd fds)" "subpoll sel fds timeout w = (Inr (k, fds'), w')"
  shows "length fds' = length fds \<and> k = length (filter (\<lambda>p. revents p \<noteq> 0) fds') \<and>
    (\<forall>i < length fds. fd (fds' ! i) = fd (fds ! i) \<and> events (fds' ! i) = events (fds ! i) \<and>
      (flag POLLIN (revents (fds' ! i)) \<longrightarrow> flag POLLIN (events (fds ! i))) \<and>
      (flag POLLOUT (revents (fds' ! i)) \<longrightarrow> flag POLLOUT (events (fds ! i))))"
proof -
  let ?t = "subpoll_collect fds \<lparr>max_fd = -1, readfds = {}, writefds = {}, exceptfds = {}\<rparr>"
  obtain result r wr ex where sel: "sel (max_fd ?t + 1) (readfds ?t) (writefds ?t) (exceptfds ?t)
      (if timeout < 0 then None else Some (timeout div 1000, timeout mod 1000 * 1000)) w =
      (Inr (result, r, wr, ex), w')"
    using assms(3) by (auto simp: subpoll_def Let_def split: prod.splits sum.splits if_splits)
  show ?thesis
  proof (cases "0 < result")
    case True
    then have fds': "fds' = map (\<lambda>p. p\<lparr>revents := subpoll_revents r wr ex (p\<lparr>revents := 0\<rparr>)\<rparr>) fds"
      and k: "k = length (filter (\<lambda>p. revents p \<noteq> 0) fds')"
      using assms(3) by (auto simp: subpoll_def Let_def sel comp_def)
    have sub: "r \<subseteq> {fd p | p. p \<in> set fds \<and> flag POLLIN (events p)}"
      "wr \<subseteq> {fd p | p. p \<in> set fds \<and> flag POLLOUT (events p)}"
      using select_shrinksD(1,2) [where sel = sel, OF assms(1) sel] by (simp_all add: collect_sets)
    have "fd (fds ! i) \<in> r \<longrightarrow> flag POLLIN (events (fds ! i))"
      "fd (fds ! i) \<in> wr \<longrightarrow> flag POLLOUT (events (fds ! i))" if "i < length fds" for i
      using sub same_fd_same_entry [OF assms(2) that] by fastforce+
    then show ?thesis
      by (auto simp: fds' revents_flags k)
  next
    case False
    then have "fds' = map (\<lambda>p. p\<lparr>revents := 0\<rparr>) fds" "k = 0"
      using assms(3) by (simp_all add: subpoll_def Let_def sel)
    then show ?thesis by simp
  qed
qed

definition demo_select :: "unit select" where
  "demo_select n r wr ex t w = (Inr (1, r, {}, {}), w)"

theorem subpoll_contract_witness:
  "\<exists>fds'. subpoll demo_select
      [\<lparr>fd = 0, events = POLLIN, revents = 0\<rparr>, \<lparr>fd = 1, events = POLLOUT, revents = 9\<rparr>] 20 () =
      (Inr (1, fds'), ()) \<and> length fds' = 2 \<and> events (fds' ! 1) = POLLOUT"
proof -
  let ?fds = "[\<lparr>fd = 0, events = POLLIN, revents = 0\<rparr>, \<lparr>fd = 1, events = POLLOUT, revents = 9\<rparr>]"
  have "select_shrinks demo_select"
    by (simp add: select_shrinks_def demo_select_def)
  moreover have "distinct (map fd ?fds)"
    by simp
  moreover define fds' where "fds' = snd (projr (fst (subpoll demo_select ?fds 20 ())))"
  moreover have "subpoll demo_select ?fds 20 () = (Inr (1, fds'), ())"
    by (simp add: fds'_def subpoll_def demo_select_def Let_def subpoll_revents_def poll_flags flag_def)
  ultimately have *: "length fds' = length ?fds \<and> 1 = length (filter (\<lambda>p. revents p \<noteq> 0) fds') \<and>
    (\<forall>i < length ?fds. fd (fds' ! i) = fd (?fds ! i) \<and> events (fds' ! i) = events (?fds ! i) \<and>
      (flag POLLIN (revents (fds' ! i)) \<longrightarrow> flag POLLIN (events (?fds ! i))) \<and>
      (flag POLLOUT (revents (fds' ! i)) \<longrightarrow> flag POLLOUT (events (?fds ! i))))"
    by (intro subpoll_contract)
  have "length fds' = 2"
    using * by simp
  moreover have "events (fds' ! 1) = events (?fds ! 1)"
    using *[THEN conjunct2, THEN conjunct2, THEN spec, of 1] by simp
  ultimately show ?thesis
    using \<open>subpoll demo_select ?fds 20 () = (Inr (1, fds'), ())\<close> by auto
qed

end
