(* ===== verification/Write_Stream.thy ===== *)
theory Write_Stream
  imports Posix
begin

text \<open>
  \<open>net/WriteStream.h\<close> and \<open>net/WriteStream.cpp\<close>: the outgoing half of the tunnel's own
  connection. Values are appended to a byte queue; \<open>send\<close> turns the queue into a packet, a
  block with a four byte length in front, and \<open>empty\<close> writes the packets out as far as the
  descriptor accepts them.
\<close>

section \<open>State\<close>

record write_packet =
  m_buf :: bytes
  m_size :: nat
  m_written :: nat

record write_stream =
  ws_queue :: bytes
  m_packet_queue :: "write_packet list"

definition WriteStream_new :: write_stream where
  "WriteStream_new = \<lparr>ws_queue = [], m_packet_queue = []\<rparr>"

section \<open>Packets\<close>

text \<open>
  A store of \<open>bs\<close> at offset \<open>i\<close> of a block. A store that runs past the end of the block
  changes memory outside it; what the block itself holds afterwards is its first
  \<open>length buf\<close> bytes, and \<open>store_fits\<close> says whether the store stays inside.
\<close>

definition store_at :: "nat \<Rightarrow> bytes \<Rightarrow> bytes \<Rightarrow> bytes" where
  "store_at i bs buf = take (length buf) (take i buf @ bs @ drop (i + length bs) buf)"

definition store_fits :: "nat \<Rightarrow> bytes \<Rightarrow> bytes \<Rightarrow> bool" where
  "store_fits i bs buf \<longleftrightarrow> i + length bs \<le> length buf"

text \<open>
  \<open>*reinterpret_cast<size_t*>(m_buf) = htonl(m_size - 4)\<close>: the 32 bit network order number,
  widened to an 8 byte \<open>size_t\<close>, little endian.
\<close>

definition header_image :: "nat \<Rightarrow> bytes" where
  "header_image n = htonl_image (word_of_nat n) @ [0, 0, 0, 0]"

text \<open>The constructor; it also clears the queue it is given.\<close>

definition WritePacket_new :: "bytes \<Rightarrow> write_packet \<times> bytes" where
  "WritePacket_new queue =
     (let size = length queue + 4;
          buf = replicate size 0;
          buf = store_at 0 (header_image (size - 4)) buf;
          buf = store_at 4 queue buf
      in (\<lparr>m_buf = buf, m_size = size, m_written = 0\<rparr>, []))"

definition WritePacket_sendPacket ::
  "('w, 'o) posix_scheme \<Rightarrow> c_int \<Rightarrow> write_packet \<Rightarrow> 'w \<Rightarrow> (bool \<times> write_packet \<times> 'w) res" where
  "WritePacket_sendPacket os sock p w =
     (case sys_write os sock (take (m_size p - m_written p) (drop (m_written p) (m_buf p))) w of
        (Inl e, _) \<Rightarrow> Inl (MyExceptionErrno e)
      | (Inr write_length, w') \<Rightarrow>
          let p' = p\<lparr>m_written := m_written p + write_length\<rparr>
          in Inr (m_written p' = m_size p', p', w'))"

section \<open>The stream\<close>

definition WriteStream_pendingWrite :: "write_stream \<Rightarrow> bool" where
  "WriteStream_pendingWrite s \<longleftrightarrow> 0 < length (m_packet_queue s)"

definition WriteStream_writeBytes :: "bytes \<Rightarrow> write_stream \<Rightarrow> write_stream" where
  "WriteStream_writeBytes buffer s = s\<lparr>ws_queue := ws_queue s @ buffer\<rparr>"

definition WriteStream_writeShort :: "short \<Rightarrow> write_stream \<Rightarrow> write_stream" where
  "WriteStream_writeShort x s =
     s\<lparr>ws_queue := ws_queue s @ [ucast (signed_drop_bit 8 x), ucast (x AND 255)]\<rparr>"

text \<open>
  The argument is a 64 bit \<open>long\<close>, which \<open>htonl\<close> cuts to 32 bits; the first four bytes
  of the result in memory are queued.
\<close>

definition WriteStream_writeLong :: "u64 \<Rightarrow> write_stream \<Rightarrow> write_stream" where
  "WriteStream_writeLong x s = s\<lparr>ws_queue := ws_queue s @ htonl_image (ucast x)\<rparr>"

definition WriteStream_writeString :: "string \<Rightarrow> write_stream \<Rightarrow> write_stream" where
  "WriteStream_writeString message s =
     (let s = WriteStream_writeLong (word_of_nat (length message)) s
      in s\<lparr>ws_queue := ws_queue s @ map byte_of_char message\<rparr>)"

definition WriteStream_send :: "write_stream \<Rightarrow> write_stream" where
  "WriteStream_send s =
     (if 0 < length (ws_queue s)
      then let (p, q) = WritePacket_new (ws_queue s)
           in s\<lparr>m_packet_queue := m_packet_queue s @ [p], ws_queue := q\<rparr>
      else s)"

text \<open>\<open>empty\<close> takes the poll structure by reference and may clear its \<open>POLLOUT\<close> request.\<close>

definition WriteStream_empty ::
  "('w, 'o) posix_scheme \<Rightarrow> pollfd \<Rightarrow> write_stream \<Rightarrow> 'w \<Rightarrow> (pollfd \<times> write_stream \<times> 'w) res" where
  "WriteStream_empty os ps s w =
     (if flag POLLOUT (revents ps) \<and> WriteStream_pendingWrite s
      then bindE (WritePacket_sendPacket os (fd ps) (hd (m_packet_queue s)) w)
        (\<lambda>(sent, front, w').
          let s' = (if sent then s\<lparr>m_packet_queue := tl (m_packet_queue s)\<rparr>
                    else s\<lparr>m_packet_queue := front # tl (m_packet_queue s)\<rparr>);
              ps' = (if \<not> WriteStream_pendingWrite s'
                     then ps\<lparr>events := events ps AND NOT POLLOUT\<rparr> else ps)
          in Inr (ps', s', w'))
      else Inr (ps, s, w))"

section \<open>What goes on the wire\<close>

text \<open>The specification of a packet: the payload's length, big endian, then the payload.\<close>

definition frame :: "bytes \<Rightarrow> bytes" where
  "frame p = htonl_image (word_of_nat (length p)) @ p"

definition packet_rest :: "write_packet \<Rightarrow> bytes" where
  "packet_rest p = drop (m_written p) (m_buf p)"

text \<open>What is still to be written, in order.\<close>

definition ws_pending :: "write_stream \<Rightarrow> bytes" where
  "ws_pending s = concat (map packet_rest (m_packet_queue s))"

definition packet_ok :: "write_packet \<Rightarrow> bool" where
  "packet_ok p \<longleftrightarrow> length (m_buf p) = m_size p \<and> m_written p < m_size p"

definition ws_inv :: "write_stream \<Rightarrow> bool" where
  "ws_inv s \<longleftrightarrow> list_all packet_ok (m_packet_queue s)"

lemma length_store_at [simp]: "length (store_at i bs buf) = length buf"
  by (simp add: store_at_def)

lemma header_then_queue:
  "store_at 4 queue (store_at 0 (h @ t) (replicate (length queue + 4) 0)) = h @ queue"
  if "length h = 4" "length t = 4"
proof -
  define blk where "blk = store_at 0 (h @ t) (replicate (length queue + 4) 0)"
  have len: "length blk = length queue + 4"
    by (simp add: blk_def)
  have "take 4 blk = h"
    using that by (simp add: blk_def store_at_def min_def)
  with len have "store_at 4 queue blk = h @ queue"
    by (simp add: store_at_def that)
  then show ?thesis
    by (simp only: blk_def)
qed

lemma WritePacket_new_eq:
  "WritePacket_new q = (\<lparr>m_buf = frame q, m_size = length q + 4, m_written = 0\<rparr>, [])"
  by (simp add: WritePacket_new_def Let_def header_image_def header_then_queue frame_def)

lemma length_frame [simp]: "length (frame q) = length q + 4"
  by (simp add: frame_def)

lemma ws_pending_send:
  "ws_pending (WriteStream_send s) =
     ws_pending s @ (if ws_queue s = [] then [] else frame (ws_queue s))"
  by (simp add: WriteStream_send_def WritePacket_new_eq ws_pending_def packet_rest_def)

lemma ws_queue_send [simp]: "ws_queue (WriteStream_send s) = []"
  by (simp add: WriteStream_send_def WritePacket_new_eq)

lemma ws_inv_send: "ws_inv s \<Longrightarrow> ws_inv (WriteStream_send s)"
  by (simp add: ws_inv_def WriteStream_send_def WritePacket_new_eq packet_ok_def)

lemma ws_inv_new: "ws_inv WriteStream_new"
  by (simp add: ws_inv_def WriteStream_new_def)

lemma pendingWrite_iff: "ws_inv s \<Longrightarrow> WriteStream_pendingWrite s \<longleftrightarrow> ws_pending s \<noteq> []"
  by (cases "m_packet_queue s")
    (auto simp: ws_inv_def WriteStream_pendingWrite_def ws_pending_def packet_rest_def packet_ok_def)

lemma write_ops_frame [simp]:
  "m_packet_queue (WriteStream_writeBytes b s) = m_packet_queue s"
  "m_packet_queue (WriteStream_writeShort x s) = m_packet_queue s"
  "m_packet_queue (WriteStream_writeLong l s) = m_packet_queue s"
  "m_packet_queue (WriteStream_writeString m s) = m_packet_queue s"
  by (simp_all add: WriteStream_writeBytes_def WriteStream_writeShort_def WriteStream_writeLong_def
      WriteStream_writeString_def)

text \<open>
  One call of \<open>sendPacket\<close> moves a prefix of the packet's rest to the descriptor.
\<close>

lemma sendPacket_moves:
  assumes "posix_write os f out" "packet_ok p"
    and "WritePacket_sendPacket os f p w = Inr (sent, p', w')"
  shows "out w' @ packet_rest p' = out w @ packet_rest p"
    and "sent \<longleftrightarrow> packet_rest p' = []"
    and "\<not> sent \<Longrightarrow> packet_ok p'"
proof -
  from assms(3) obtain k where k: "sys_write os f (packet_rest p) w = (Inr k, w')"
    and p': "p' = p\<lparr>m_written := m_written p + k\<rparr>" and sent: "sent \<longleftrightarrow> m_written p + k = m_size p"
    using assms(2)
    by (auto simp: WritePacket_sendPacket_def packet_rest_def packet_ok_def Let_def
        split: prod.splits sum.splits)
  note w = posix_write_Inr [OF assms(1) k]
  have rest: "packet_rest p' = drop k (packet_rest p)"
    by (simp add: packet_rest_def p' add.commute)
  show "out w' @ packet_rest p' = out w @ packet_rest p"
    by (simp add: w(2) rest)
  show "sent \<longleftrightarrow> packet_rest p' = []" "\<not> sent \<Longrightarrow> packet_ok p'"
    using w(1) assms(2) by (auto simp: sent rest packet_rest_def packet_ok_def p')
qed

lemma WriteStream_empty_moves:
  assumes "posix_write os (fd ps) out" "ws_inv s"
    and "WriteStream_empty os ps s w = Inr (ps', s', w')"
  shows "out w' @ ws_pending s' = out w @ ws_pending s \<and> ws_inv s' \<and> ws_queue s' = ws_queue s"
proof (cases "flag POLLOUT (revents ps) \<and> WriteStream_pendingWrite s")
  case True
  then obtain p ps2 where q: "m_packet_queue s = p # ps2"
    by (cases "m_packet_queue s") (auto simp: WriteStream_pendingWrite_def)
  with assms(2) have ok: "packet_ok p" "list_all packet_ok ps2"
    by (auto simp: ws_inv_def)
  from True q assms(3) obtain sent front
    where send: "WritePacket_sendPacket os (fd ps) p w = Inr (sent, front, w')"
      and s': "s' = (if sent then s\<lparr>m_packet_queue := ps2\<rparr> else s\<lparr>m_packet_queue := front # ps2\<rparr>)"
    by (auto simp: WriteStream_empty_def exn_simps Let_def split: if_splits)
  note m = sendPacket_moves [OF assms(1) ok(1) send]
  show ?thesis
    using m ok(2) by (auto simp: s' ws_pending_def q ws_inv_def)
next
  case False
  with assms show ?thesis
    by (auto simp: WriteStream_empty_def)
qed

lemma WriteStream_empty_pollfd:
  assumes "WriteStream_empty os ps s w = Inr (ps', s', w')"
  shows "fd ps' = fd ps" "revents ps' = revents ps"
    and "WriteStream_pendingWrite s' \<Longrightarrow> events ps' = events ps"
    and "flag POLLIN (events ps') = flag POLLIN (events ps)"
  using assms by (auto simp: WriteStream_empty_def exn_simps Let_def split: if_splits)

section \<open>WriteStream as an output buffer\<close>

text \<open>A call of \<open>empty\<close> for a descriptor that polled writable.\<close>

definition WriteStream_drain ::
  "('w, 'o) posix_scheme \<Rightarrow> c_int \<Rightarrow> write_stream \<times> 'w \<Rightarrow> (write_stream \<times> 'w) res" where
  "WriteStream_drain os f = (\<lambda>(s, w).
     bindE (WriteStream_empty os \<lparr>fd = f, events = POLLOUT, revents = POLLOUT\<rparr> s w)
       (\<lambda>(_, s', w'). Inr (s', w')))"

lemma sendPacket_ready:
  assumes "posix_write os f out" "write_ready os f" "packet_ok p"
  shows "\<exists>sent p' w'. WritePacket_sendPacket os f p w = Inr (sent, p', w') \<and>
    length (packet_rest p') < length (packet_rest p)"
proof -
  obtain k w' where wr: "sys_write os f (packet_rest p) w = (Inr k, w')"
    and k: "packet_rest p \<noteq> [] \<Longrightarrow> 0 < k"
    using write_readyE [OF assms(2)] by metis
  have ne: "packet_rest p \<noteq> []"
    using assms(3) by (simp add: packet_rest_def packet_ok_def)
  have "WritePacket_sendPacket os f p w =
      Inr (m_written p + k = m_size p, p\<lparr>m_written := m_written p + k\<rparr>, w')"
    using wr assms(3) by (simp add: WritePacket_sendPacket_def packet_rest_def packet_ok_def)
  with k ne show ?thesis
    by (auto simp: packet_rest_def)
qed

interpretation wsb: out_buffer ws_pending ws_inv WriteStream_drain
proof (unfold_locales, goal_cases)
  case (1 os f out b w b' w')
  then obtain ps' where
    e: "WriteStream_empty os \<lparr>fd = f, events = POLLOUT, revents = POLLOUT\<rparr> b w = Inr (ps', b', w')"
    by (auto simp: WriteStream_drain_def exn_simps)
  show ?case
    using WriteStream_empty_moves [OF _ 1(2) e, of out] 1(1) by simp
next
  case (2 os f out b w)
  show ?case
  proof (cases "m_packet_queue b")
    case Nil
    then show ?thesis
      by (simp add: WriteStream_drain_def WriteStream_empty_def WriteStream_pendingWrite_def
          ws_pending_def)
  next
    case (Cons p ps)
    with 2 have ok: "packet_ok p"
      by (simp add: ws_inv_def)
    obtain sent p' w' where send: "WritePacket_sendPacket os f p w = Inr (sent, p', w')"
      and less: "length (packet_rest p') < length (packet_rest p)"
      using sendPacket_ready [OF 2(1,2) ok] by blast
    with Cons show ?thesis
      by (auto simp: WriteStream_drain_def WriteStream_empty_def WriteStream_pendingWrite_def
          ws_pending_def Let_def)
  qed
qed

section \<open>Properties\<close>

text \<open>C35: The eight byte store of the packet header in the constructor of \<open>WritePacket\<close>
  stays inside the packet's block exactly when the payload has at least four bytes; a shorter
  payload (the two byte messages of \<open>CMD_CREATE\<close> acknowledgement and \<open>CMD_SHUTDOWN\<close>) makes
  it write past the end of the block.\<close>

theorem packet_header_store_in_bounds:
  "store_fits 0 (header_image (length queue)) (m_buf (fst (WritePacket_new queue))) \<longleftrightarrow> 4 \<le> length queue"
  by (simp add: store_fits_def header_image_def WritePacket_new_eq)

text \<open>C28: Repeated calls of \<open>empty\<close> on a descriptor that accepts at least one byte per write
  empty the stream in as many calls as bytes are pending, whatever each write accepts, and
  what the descriptor has then accepted is the pending packets in order, byte for byte.\<close>

theorem WriteStream_flushes:
  assumes "posix_write os f out" "write_ready os f" "ws_inv s"
  shows "\<exists>s' w'. iterE (length (ws_pending s)) (WriteStream_drain os f) (s, w) = Inr (s', w') \<and>
    \<not> WriteStream_pendingWrite s' \<and> out w' = out w @ ws_pending s"
proof -
  obtain s' w' where d: "iterE (length (ws_pending s)) (WriteStream_drain os f) (s, w) = Inr (s', w')"
    "ws_pending s' = []" "out w' = out w @ ws_pending s"
    using wsb.drains_deliver_all [OF assms] by blast
  have "(\<lambda>(c, _). ws_inv c) (s', w')"
    by (rule iterE_invariant [where P = "\<lambda>(c, _). ws_inv c", OF _ _ d(1)])
      (use assms(3) wsb.drain_moves [OF assms(1)] in auto)
  with d show ?thesis
    by (auto simp: pendingWrite_iff)
qed

theorem WriteStream_flushes_witness:
  "\<exists>s' w'. iterE (length (ws_pending (WriteStream_send (WriteStream_writeShort 404 WriteStream_new))))
      (WriteStream_drain (pipe_os 3) 1)
      (WriteStream_send (WriteStream_writeShort 404 WriteStream_new), \<lparr>pw_in = [], pw_out = [], pw_closed = []\<rparr>)
      = Inr (s', w') \<and> \<not> WriteStream_pendingWrite s' \<and> pw_out w' = [0, 0, 0, 2, 1, 148]"
proof -
  let ?s = "WriteStream_send (WriteStream_writeShort 404 WriteStream_new)"
  have "ws_inv ?s"
    by (intro ws_inv_send) (simp add: ws_inv_def WriteStream_new_def)
  moreover have "ws_pending ?s = [0, 0, 0, 2, 1, 148]"
    by code_simp
  ultimately show ?thesis
    using WriteStream_flushes [where os = "pipe_os 3" and f = 1 and out = pw_out and s = ?s
        and w = "\<lparr>pw_in = [], pw_out = [], pw_closed = []\<rparr>"]
    by (simp add: pipe_os_write pipe_os_write_ready del: iterE.simps)
qed

end
