(* ===== verification/Read_Stream.thy ===== *)
theory Read_Stream
  imports Write_Stream
begin

text \<open>
  \<open>net/ReadStream.h\<close> and \<open>net/ReadStream.cpp\<close>: the incoming half. \<open>fill\<close> collects
  the bytes of one packet over as many calls as it takes and then appends its payload to the
  queue, from which the message readers take values.

  \<open>m_read_buf\<close> is kept up to its last byte stored; what lies beyond \<open>m_read_count\<close> is
  never read by the code. A read of \<open>front\<close> from an empty queue, and an iterator moved past
  the end, are undefined in C++ and are the outcome \<open>Undefined\<close> here.
\<close>

section \<open>State\<close>

definition ReadStream_BUFFER_SIZE :: nat where
  "ReadStream_BUFFER_SIZE = 4096"

record read_stream =
  rs_queue :: bytes
  m_read_buf :: bytes
  m_read_size :: nat
  m_read_count :: nat

definition ReadStream_new :: read_stream where
  "ReadStream_new =
     \<lparr>rs_queue = [], m_read_buf = [], m_read_size = ReadStream_BUFFER_SIZE, m_read_count = 0\<rparr>"

section \<open>Reading values from the queue\<close>

definition ReadStream_available :: "read_stream \<Rightarrow> bool" where
  "ReadStream_available s \<longleftrightarrow> length (rs_queue s) \<noteq> 0"

definition ReadStream_readShort :: "read_stream \<Rightarrow> (short \<times> read_stream) res" where
  "ReadStream_readShort s =
     (case rs_queue s of
        x # y # q \<Rightarrow> Inr (push_bit 8 (ucast x) + ucast y, s\<lparr>rs_queue := q\<rparr>)
      | _ \<Rightarrow> Inl (Undefined EmptyDeque))"

text \<open>The result is the unsigned 32 bit number, as a 64 bit \<open>long\<close>.\<close>

definition ReadStream_readLong :: "read_stream \<Rightarrow> (u64 \<times> read_stream) res" where
  "ReadStream_readLong s =
     (case rs_queue s of
        a # b # c # d # q \<Rightarrow> Inr (ucast (ntohl_image a b c d), s\<lparr>rs_queue := q\<rparr>)
      | _ \<Rightarrow> Inl (Undefined EmptyDeque))"

definition ReadStream_readString :: "read_stream \<Rightarrow> (string \<times> read_stream) res" where
  "ReadStream_readString s =
     bindE (ReadStream_readLong s) (\<lambda>(len, s).
       if unat len \<le> length (rs_queue s)
       then Inr (map char_of_byte (take (unat len) (rs_queue s)),
                 s\<lparr>rs_queue := drop (unat len) (rs_queue s)\<rparr>)
       else Inl (Undefined BadIterator))"

text \<open>The length is an \<open>int\<close>; a negative one moves the iterator before the beginning.\<close>

definition ReadStream_readBytes :: "c_int \<Rightarrow> read_stream \<Rightarrow> (bytes \<times> read_stream) res" where
  "ReadStream_readBytes len s =
     (if 0 \<le> len \<and> len \<le> int (length (rs_queue s))
      then Inr (take (nat len) (rs_queue s), s\<lparr>rs_queue := drop (nat len) (rs_queue s)\<rparr>)
      else Inl (Undefined BadIterator))"

section \<open>Collecting a packet\<close>

text \<open>\<open>ntohl(*reinterpret_cast<long*>(m_read_buf))\<close>, which looks at the first four bytes.\<close>

definition ReadStream_header :: "bytes \<Rightarrow> nat" where
  "ReadStream_header buf =
     (case buf of a # b # c # d # _ \<Rightarrow> unat (ntohl_image a b c d) | _ \<Rightarrow> 0)"

text \<open>\<open>read\<close> into \<open>m_read_buf + m_read_count\<close>, and the count moved on.\<close>

definition ReadStream_store :: "bytes \<Rightarrow> read_stream \<Rightarrow> read_stream" where
  "ReadStream_store bs s =
     s\<lparr>m_read_buf := take (m_read_count s) (m_read_buf s) @ bs,
       m_read_count := m_read_count s + length bs\<rparr>"

text \<open>The first part: the four bytes of the length.\<close>

definition ReadStream_fill_header ::
  "('w, 'o) posix_scheme \<Rightarrow> c_int \<Rightarrow> read_stream \<Rightarrow> 'w \<Rightarrow> (read_stream \<times> 'w) res" where
  "ReadStream_fill_header os f s w =
     (if m_read_count s < 4
      then (case sys_read os f (4 - m_read_count s) w of
              (Inl e, _) \<Rightarrow> Inl (MyExceptionErrno e)
            | (Inr bs, w') \<Rightarrow>
                if length bs = 0 then Inl (MyException ''End of file in ReadStream::fill'')
                else Inr (ReadStream_store bs s, w'))
      else Inr (s, w))"

text \<open>The buffer grown to hold the packet, its first \<open>m_read_count\<close> bytes moved over.\<close>

definition ReadStream_grow :: "nat \<Rightarrow> read_stream \<Rightarrow> read_stream" where
  "ReadStream_grow len s =
     (if len + 4 > m_read_size s
      then s\<lparr>m_read_size := len + 4, m_read_buf := take (m_read_count s) (m_read_buf s)\<rparr>
      else s)"

text \<open>The end of the function: a complete packet goes to the queue.\<close>

definition ReadStream_finish :: "nat \<Rightarrow> read_stream \<Rightarrow> read_stream" where
  "ReadStream_finish len s =
     (if m_read_count s = len + 4
      then s\<lparr>rs_queue := rs_queue s @ drop 4 (take (m_read_count s) (m_read_buf s)),
             m_read_count := 0\<rparr>
      else s)"

text \<open>The second part: the rest of the packet.\<close>

definition ReadStream_fill_body ::
  "('w, 'o) posix_scheme \<Rightarrow> c_int \<Rightarrow> read_stream \<Rightarrow> 'w \<Rightarrow> (read_stream \<times> 'w) res" where
  "ReadStream_fill_body os f s w =
     (let len = ReadStream_header (m_read_buf s) in
      if len > 50000000 then Inl (MyException ''Bad read length'')
      else
        let s = ReadStream_grow len s in
        (case sys_read os f (len + 4 - m_read_count s) w of
           (Inl e, w') \<Rightarrow>
             if e \<noteq> EAGAIN then Inl (MyExceptionErrno e) else Inr (ReadStream_finish len s, w')
         | (Inr bs, w') \<Rightarrow> Inr (ReadStream_finish len (ReadStream_store bs s), w')))"

definition ReadStream_fill ::
  "('w, 'o) posix_scheme \<Rightarrow> pollfd \<Rightarrow> read_stream \<Rightarrow> 'w \<Rightarrow> (read_stream \<times> 'w) res" where
  "ReadStream_fill os ps s w =
     (if flag POLLIN (revents ps)
      then bindE (ReadStream_fill_header os (fd ps) s w) (\<lambda>(s, w).
             if m_read_count s < 4 then Inr (s, w) else ReadStream_fill_body os (fd ps) s w)
      else Inr (s, w))"

section \<open>Invariant\<close>

text \<open>
  The count stays within the block, and once the length is known the packet fits the block and
  is not complete.
\<close>

definition rs_inv :: "read_stream \<Rightarrow> bool" where
  "rs_inv s \<longleftrightarrow>
     m_read_count s \<le> length (m_read_buf s) \<and> ReadStream_BUFFER_SIZE \<le> m_read_size s \<and>
     m_read_size s \<le> 50000004 \<and> m_read_count s \<le> m_read_size s \<and>
     (4 \<le> m_read_count s \<longrightarrow>
        ReadStream_header (m_read_buf s) \<le> 50000000 \<and>
        m_read_count s < ReadStream_header (m_read_buf s) + 4 \<and>
        ReadStream_header (m_read_buf s) + 4 \<le> m_read_size s)"

text \<open>The bytes of the packet being collected.\<close>

definition rs_partial :: "read_stream \<Rightarrow> bytes" where
  "rs_partial s = take (m_read_count s) (m_read_buf s)"

lemma rs_inv_new: "rs_inv ReadStream_new"
  by (simp add: rs_inv_def ReadStream_new_def ReadStream_BUFFER_SIZE_def)

lemma header_take: "4 \<le> n \<Longrightarrow> ReadStream_header (take n buf) = ReadStream_header buf"
  by (cases n; cases "n - 1"; cases "n - 2"; cases "n - 3")
    (auto simp: ReadStream_header_def split: list.splits)

lemma header_append: "4 \<le> length xs \<Longrightarrow> ReadStream_header (xs @ ys) = ReadStream_header xs"
  using header_take [of "length xs" "xs @ ys"] by simp

lemma header_frame:
  assumes "length p < 2 ^ 32"
  shows "ReadStream_header (frame p @ rest) = length p"
proof -
  have "unat (word_of_nat (length p) :: u32) = length p"
    using assms by (simp add: unsigned_of_nat take_bit_eq_mod)
  then show ?thesis
    by (simp add: ReadStream_header_def frame_def htonl_image_def ntohl_htonl)
qed

text \<open>Four bytes of length and as many bytes of payload are a frame.\<close>

lemma frame_of_parts:
  assumes "4 \<le> length xs" "length xs = ReadStream_header xs + 4"
  shows "xs = frame (drop 4 xs)"
proof -
  obtain a b c d p where xs: "xs = a # b # c # d # p"
    using assms(1) by (auto simp: numeral_eq_Suc Suc_le_length_iff)
  with assms(2) have "length p = unat (ntohl_image a b c d)"
    by (simp add: ReadStream_header_def)
  then have "word_of_nat (length p) = ntohl_image a b c d"
    by simp
  then show ?thesis
    by (simp add: xs frame_def htonl_ntohl)
qed

section \<open>One call of fill\<close>

lemma rs_partial_store [simp]:
  "m_read_count s \<le> length (m_read_buf s) \<Longrightarrow>
     rs_partial (ReadStream_store bs s) = rs_partial s @ bs"
  by (simp add: rs_partial_def ReadStream_store_def)

lemma store_fields [simp]:
  "rs_queue (ReadStream_store bs s) = rs_queue s"
  "m_read_size (ReadStream_store bs s) = m_read_size s"
  "m_read_count (ReadStream_store bs s) = m_read_count s + length bs"
  by (simp_all add: ReadStream_store_def)

lemma grow_fields [simp]:
  "rs_queue (ReadStream_grow len s) = rs_queue s"
  "m_read_count (ReadStream_grow len s) = m_read_count s"
  "rs_partial (ReadStream_grow len s) = rs_partial s"
  "m_read_size (ReadStream_grow len s) = max (m_read_size s) (len + 4)"
  by (simp_all add: ReadStream_grow_def rs_partial_def)

lemma grow_buf:
  "m_read_count s \<le> length (m_read_buf s) \<Longrightarrow>
     m_read_count s \<le> length (m_read_buf (ReadStream_grow len s))"
  by (simp add: ReadStream_grow_def)

lemma rs_header_partial: "4 \<le> m_read_count s \<Longrightarrow>
  ReadStream_header (m_read_buf s) = ReadStream_header (rs_partial s)"
  by (simp add: rs_partial_def header_take)

lemma store_buf_length:
  "m_read_count s \<le> length (m_read_buf s) \<Longrightarrow>
     length (m_read_buf (ReadStream_store bs s)) = m_read_count s + length bs"
  by (simp add: ReadStream_store_def)

text \<open>Between the two parts the count may be exactly four.\<close>

definition rs_mid :: "read_stream \<Rightarrow> bool" where
  "rs_mid s \<longleftrightarrow>
     m_read_count s \<le> length (m_read_buf s) \<and> ReadStream_BUFFER_SIZE \<le> m_read_size s \<and>
     m_read_size s \<le> 50000004 \<and> (m_read_count s \<le> 4 \<or> rs_inv s)"

lemma rs_mid_small: "rs_mid s \<Longrightarrow> m_read_count s < 4 \<Longrightarrow> rs_inv s"
  by (auto simp: rs_mid_def rs_inv_def ReadStream_BUFFER_SIZE_def)

lemma fill_header_step:
  assumes "posix_read os f inp" "rs_inv s" "ReadStream_fill_header os f s w = Inr (s', w')"
  shows "rs_partial s' @ inp w' = rs_partial s @ inp w \<and> rs_queue s' = rs_queue s \<and> rs_mid s'"
proof (cases "m_read_count s < 4")
  case True
  with assms(3) obtain bs where rd: "sys_read os f (4 - m_read_count s) w = (Inr bs, w')"
    and s': "s' = ReadStream_store bs s"
    by (auto simp: ReadStream_fill_header_def split: prod.splits sum.splits if_splits)
  note r = posix_read_Inr [OF assms(1) rd]
  from assms(2) have "m_read_count s \<le> length (m_read_buf s)"
    by (simp add: rs_inv_def)
  with r True assms(2) show ?thesis
    by (auto simp: s' rs_mid_def rs_inv_def store_buf_length)
next
  case False
  with assms show ?thesis
    by (auto simp: ReadStream_fill_header_def rs_mid_def rs_inv_def)
qed

lemma finish_step:
  assumes "m_read_count s \<le> length (m_read_buf s)" "4 \<le> m_read_count s"
    and "ReadStream_header (rs_partial s) = len" "len \<le> 50000000"
    and "m_read_count s \<le> len + 4" "len + 4 \<le> m_read_size s"
    and "ReadStream_BUFFER_SIZE \<le> m_read_size s" "m_read_size s \<le> 50000004"
  shows "\<exists>ps. length ps \<le> 1 \<and> list_all (\<lambda>p. length p \<le> 50000000) ps \<and>
    rs_partial s = concat (map frame ps) @ rs_partial (ReadStream_finish len s) \<and>
    rs_queue (ReadStream_finish len s) = rs_queue s @ concat ps \<and>
    rs_inv (ReadStream_finish len s)"
proof (cases "m_read_count s = len + 4")
  case True
  have len: "length (rs_partial s) = len + 4"
    using assms(1) True by (simp add: rs_partial_def)
  then have "rs_partial s = frame (drop 4 (rs_partial s))"
    using assms(3) by (intro frame_of_parts) auto
  with True len assms show ?thesis
    by (intro exI [of _ "[drop 4 (rs_partial s)]"])
      (auto simp: ReadStream_finish_def rs_partial_def rs_inv_def)
next
  case False
  with assms show ?thesis
    by (intro exI [of _ "[]"]) (auto simp: ReadStream_finish_def rs_inv_def rs_header_partial)
qed

lemma fill_body_step:
  assumes "posix_read os f inp" "rs_mid s" "4 \<le> m_read_count s"
    and "ReadStream_fill_body os f s w = Inr (s', w')"
  shows "\<exists>ps. length ps \<le> 1 \<and> list_all (\<lambda>p. length p \<le> 50000000) ps \<and>
    rs_partial s @ inp w = concat (map frame ps) @ rs_partial s' @ inp w' \<and>
    rs_queue s' = rs_queue s @ concat ps \<and> rs_inv s'"
proof -
  define len where "len = ReadStream_header (m_read_buf s)"
  define t where "t = ReadStream_grow len s"
  from assms(4) have len: "len \<le> 50000000"
    by (auto simp: ReadStream_fill_body_def Let_def len_def split: if_splits)
  have cnt: "m_read_count s \<le> len + 4"
    using assms(2,3) by (auto simp: rs_mid_def rs_inv_def len_def)
  have t: "m_read_count t \<le> length (m_read_buf t)" "len + 4 \<le> m_read_size t"
      "ReadStream_BUFFER_SIZE \<le> m_read_size t" "m_read_size t \<le> 50000004"
      "rs_partial t = rs_partial s" "m_read_count t = m_read_count s" "rs_queue t = rs_queue s"
    using assms(2) len by (auto simp: t_def rs_mid_def intro: grow_buf)
  have hd: "ReadStream_header (rs_partial s) = len"
    using assms(3) by (simp add: len_def rs_header_partial)
  have plen: "length (rs_partial s) = m_read_count s"
    using assms(2) by (simp add: rs_partial_def rs_mid_def)
  from assms(4) len consider
      (again) e where "sys_read os f (len + 4 - m_read_count t) w = (Inl e, w')"
        "s' = ReadStream_finish len t"
    | (some) bs where "sys_read os f (len + 4 - m_read_count t) w = (Inr bs, w')"
        "s' = ReadStream_finish len (ReadStream_store bs t)"
    by (auto simp: ReadStream_fill_body_def Let_def t_def simp flip: len_def
        split: prod.splits sum.splits if_splits)
  then show ?thesis
  proof cases
    case again
    from again(1) have "inp w' = inp w"
      by (rule posix_read_Inl [OF assms(1)])
    with finish_step [of t len] t hd len cnt assms(3) again show ?thesis
      by auto
  next
    case some
    note r = posix_read_Inr [OF assms(1) some(1)]
    have "ReadStream_header (rs_partial (ReadStream_store bs t)) = len"
      using t(1,5) hd plen assms(3) by (simp add: header_append)
    with finish_step [of "ReadStream_store bs t" len] t len cnt assms(3) some(2) r show ?thesis
      by (auto simp: store_buf_length)
  qed
qed

text \<open>
  The central fact: a call either adds to the packet being collected or completes one, and no
  byte is lost, repeated or reordered.
\<close>

lemma fill_step:
  assumes "posix_read os (fd ps) inp" "rs_inv s" "ReadStream_fill os ps s w = Inr (s', w')"
  shows "\<exists>qs. length qs \<le> 1 \<and> list_all (\<lambda>p. length p \<le> 50000000) qs \<and>
    rs_partial s @ inp w = concat (map frame qs) @ rs_partial s' @ inp w' \<and>
    rs_queue s' = rs_queue s @ concat qs \<and> rs_inv s'"
proof (cases "flag POLLIN (revents ps)")
  case False
  with assms show ?thesis
    by (intro exI [of _ "[]"]) (auto simp: ReadStream_fill_def)
next
  case True
  with assms(3) obtain t w1 where hdr: "ReadStream_fill_header os (fd ps) s w = Inr (t, w1)"
    and rest: "(if m_read_count t < 4 then Inr (t, w1) else ReadStream_fill_body os (fd ps) t w1)
       = Inr (s', w')"
    by (auto simp: ReadStream_fill_def exn_simps)
  note h = fill_header_step [OF assms(1,2) hdr]
  show ?thesis
  proof (cases "m_read_count t < 4")
    case True
    with h rest show ?thesis
      by (intro exI [of _ "[]"]) (auto intro: rs_mid_small)
  next
    case False
    with fill_body_step [OF assms(1), of t w1 s' w'] h rest show ?thesis
      by auto
  qed
qed

section \<open>Properties\<close>

text \<open>\<open>fill\<close> keeps the stream's invariant for every behaviour of \<open>read\<close>: the count of
  collected bytes never exceeds the allocated block, the block never exceeds the largest packet
  accepted, and a packet with its length known is still incomplete when \<open>fill\<close> returns.\<close>

theorem fill_preserves_rs_inv:
  assumes "posix_read os (fd ps) inp" "rs_inv s" "ReadStream_fill os ps s w = Inr (s', w')"
  shows "rs_inv s'"
  using fill_step [OF assms] by blast

definition demo_world :: "bytes \<Rightarrow> pipe_world" where
  "demo_world bs = \<lparr>pw_in = bs, pw_out = [], pw_closed = []\<rparr>"

definition demo_in :: pollfd where
  "demo_in = \<lparr>fd = 0, events = POLLIN, revents = POLLIN\<rparr>"

theorem fill_preserves_rs_inv_witness:
  "\<exists>s' w'. ReadStream_fill (pipe_os 7) demo_in ReadStream_new (demo_world [0, 0, 0, 9, 1, 2]) = Inr (s', w') \<and>
     rs_inv s'"
proof -
  obtain s' w' where
    f: "ReadStream_fill (pipe_os 7) demo_in ReadStream_new (demo_world [0, 0, 0, 9, 1, 2]) = Inr (s', w')"
    by (simp add: ReadStream_fill_def ReadStream_fill_header_def ReadStream_fill_body_def pipe_os_def
        demo_in_def demo_world_def ReadStream_new_def ReadStream_store_def ReadStream_header_def
        ReadStream_grow_def ReadStream_BUFFER_SIZE_def ntohl_image_def Let_def)
  then show ?thesis
    using fill_preserves_rs_inv [OF pipe_os_read rs_inv_new f] by blast
qed

text \<open>C17: A call of \<open>fill\<close> loses, repeats and reorders nothing, however the bytes arrive: the bytes
  held and to come before the call are at most one whole packet followed by the bytes held and to
  come after it, and exactly the payload of that packet has been appended to the queue.\<close>

theorem fill_takes_whole_packets:
  assumes "posix_read os (fd ps) inp" "rs_inv s" "ReadStream_fill os ps s w = Inr (s', w')"
  shows "\<exists>qs. length qs \<le> 1 \<and> rs_partial s @ inp w = concat (map frame qs) @ rs_partial s' @ inp w' \<and>
    rs_queue s' = rs_queue s @ concat qs"
  using fill_step [OF assms] by blast

theorem fill_takes_whole_packets_witness:
  "\<exists>qs s' w'. ReadStream_fill (pipe_os 7) demo_in ReadStream_new (demo_world [0, 0, 0, 2, 1, 148]) = Inr (s', w') \<and>
     [0, 0, 0, 2, 1, 148] = concat (map frame qs) @ rs_partial s' @ pw_in w' \<and>
     rs_queue s' = concat qs \<and> rs_queue s' = [1, 148]"
proof -
  obtain s' w' where
    f: "ReadStream_fill (pipe_os 7) demo_in ReadStream_new (demo_world [0, 0, 0, 2, 1, 148]) = Inr (s', w')"
    and q: "rs_queue s' = [1, 148]"
    by (simp add: ReadStream_fill_def ReadStream_fill_header_def ReadStream_fill_body_def pipe_os_def
        demo_in_def demo_world_def ReadStream_new_def ReadStream_store_def ReadStream_header_def
        ReadStream_grow_def ReadStream_finish_def ReadStream_BUFFER_SIZE_def ntohl_image_def Let_def)
  then show ?thesis
    using fill_takes_whole_packets [OF pipe_os_read rs_inv_new f]
    by (auto simp: ReadStream_new_def rs_partial_def demo_world_def)
qed

text \<open>C34: An end of file inside a packet is not noticed: with the length known, a \<open>read\<close> that
  returns nothing leaves the stream exactly as it was and raises no error, so that a poll loop
  which keeps reporting the descriptor readable calls \<open>fill\<close> again without end. (At the start
  of a packet the same end of file is an exception.)\<close>

theorem fill_eof_inside_packet:
  assumes "flag POLLIN (revents ps)" "rs_inv s"
    and "sys_read os (fd ps) (if m_read_count s < 4 then 4 - m_read_count s
           else ReadStream_header (m_read_buf s) + 4 - m_read_count s) w = (Inr [], w')"
  shows "ReadStream_fill os ps s w =
    (if m_read_count s < 4 then Inl (MyException ''End of file in ReadStream::fill'')
     else Inr (s\<lparr>m_read_buf := rs_partial s\<rparr>, w'))"
  using assms
  by (auto simp: ReadStream_fill_def ReadStream_fill_header_def ReadStream_fill_body_def Let_def
      ReadStream_grow_def ReadStream_store_def ReadStream_finish_def rs_inv_def rs_partial_def)

theorem fill_eof_inside_packet_witness:
  "ReadStream_fill (pipe_os 7) demo_in
     \<lparr>rs_queue = [], m_read_buf = [0, 0, 0, 9, 1], m_read_size = 4096, m_read_count = 5\<rparr> (demo_world []) =
     Inr (\<lparr>rs_queue = [], m_read_buf = [0, 0, 0, 9, 1], m_read_size = 4096, m_read_count = 5\<rparr>, demo_world [])"
proof -
  let ?s = "\<lparr>rs_queue = [], m_read_buf = [0, 0, 0, 9, 1], m_read_size = 4096, m_read_count = 5\<rparr>"
  have "flag POLLIN (revents demo_in)"
    by (simp add: demo_in_def)
  moreover have "rs_inv ?s"
    by (simp add: rs_inv_def ReadStream_header_def ntohl_image_def ReadStream_BUFFER_SIZE_def)
  moreover have "sys_read (pipe_os 7) (fd demo_in) n (demo_world []) = (Inr [], demo_world [])" for n
    by (simp add: pipe_os_def demo_world_def Let_def)
  ultimately show ?thesis
    using fill_eof_inside_packet [of demo_in ?s "pipe_os 7" "demo_world []" "demo_world []"]
    by (simp add: rs_partial_def)
qed

end
