(* ===== verification/Wire_Format.thy ===== *)
theory Wire_Format
  imports Read_Stream
begin

text \<open>
  The two stream halves together. First, values: a writer that appends the encoding of a value
  and a reader that takes it off again form a wire format; the formats of \<open>short\<close>,
  \<open>long\<close>, strings and byte blocks are interpretations. Second, packets: what \<open>fill\<close>
  delivers on one side is what \<open>send\<close> packed on the other, for every way the bytes are split
  over the reads.
\<close>

section \<open>Values\<close>

locale wire_format =
  fixes wr :: "'a \<Rightarrow> write_stream \<Rightarrow> write_stream"
    and rd :: "read_stream \<Rightarrow> ('a \<times> read_stream) res"
    and enc :: "'a \<Rightarrow> bytes"
    and ok :: "'a \<Rightarrow> bool"
  assumes wr_enc: "wr x s = s\<lparr>ws_queue := ws_queue s @ enc x\<rparr>"
    and rd_enc: "ok x \<Longrightarrow> rs_queue r = enc x @ rest \<Longrightarrow> rd r = Inr (x, r\<lparr>rs_queue := rest\<rparr>)"
begin

lemma wr_list: "fold wr xs s = s\<lparr>ws_queue := ws_queue s @ concat (map enc xs)\<rparr>"
  by (induction xs arbitrary: s) (simp_all add: wr_enc)

lemma rd_list:
  "list_all ok xs \<Longrightarrow> rs_queue r = concat (map enc xs) @ rest \<Longrightarrow>
     repeatE (length xs) rd r = Inr (xs, r\<lparr>rs_queue := rest\<rparr>)"
proof (induction xs arbitrary: r)
  case Nil
  then show ?case by simp
next
  case (Cons x xs)
  then have "rd r = Inr (x, r\<lparr>rs_queue := concat (map enc xs) @ rest\<rparr>)"
    by (intro rd_enc) auto
  moreover have "repeatE (length xs) rd (r\<lparr>rs_queue := concat (map enc xs) @ rest\<rparr>) =
      Inr (xs, r\<lparr>rs_queue := rest\<rparr>)"
    using Cons.IH [of "r\<lparr>rs_queue := concat (map enc xs) @ rest\<rparr>"] Cons.prems(1) by simp
  ultimately show ?case by simp
qed

text \<open>What one side writes in a row the other reads in the same order.\<close>

lemma list_roundtrip:
  assumes "list_all ok xs"
  shows "repeatE (length xs) rd (r\<lparr>rs_queue := ws_queue (fold wr xs (s\<lparr>ws_queue := []\<rparr>)) @ rest\<rparr>)
    = Inr (xs, r\<lparr>rs_queue := rest\<rparr>)"
  using rd_list [OF assms, of "r\<lparr>rs_queue := concat (map enc xs) @ rest\<rparr>" rest] by (simp add: wr_list)

lemma enc_inj:
  assumes "ok x" "ok y" "enc x @ r = enc y @ r'"
  shows "x = y \<and> r = r'"
proof -
  define s where "s = ReadStream_new\<lparr>rs_queue := enc x @ r\<rparr>"
  have "rd s = Inr (x, s\<lparr>rs_queue := r\<rparr>)"
    by (rule rd_enc) (simp_all add: s_def assms(1))
  moreover have "rd s = Inr (y, s\<lparr>rs_queue := r'\<rparr>)"
    by (rule rd_enc) (simp_all add: s_def assms(2,3))
  ultimately have "x = y" "s\<lparr>rs_queue := r\<rparr> = s\<lparr>rs_queue := r'\<rparr>"
    by auto
  then show ?thesis
    by (metis read_stream.select_convs(1) read_stream.surjective read_stream.update_convs(1))
qed

end

definition enc_short :: "short \<Rightarrow> bytes" where
  "enc_short x = [ucast (signed_drop_bit 8 x), ucast (x AND 255)]"

definition enc_long :: "u64 \<Rightarrow> bytes" where
  "enc_long x = htonl_image (ucast x)"

definition enc_string :: "string \<Rightarrow> bytes" where
  "enc_string m = enc_long (word_of_nat (length m)) @ map byte_of_char m"

lemma length_enc [simp]: "length (enc_short x) = 2" "length (enc_long y) = 4"
  by (simp_all add: enc_short_def enc_long_def)

lemma ucast_up_down:
  assumes "unat (x :: u64) < 2 ^ 32"
  shows "ucast (ucast x :: u32) = x"
proof -
  have "unat (ucast (ucast x :: u32) :: u64) = unat x"
    using assms by (simp add: unsigned_ucast_eq take_bit_eq_mod unat_mod)
  then show ?thesis by (simp only: unsigned_word_eqI)
qed

lemma unat_word_of_nat_u64: "n < 2 ^ 32 \<Longrightarrow> unat (word_of_nat n :: u64) = n"
  by (simp add: unsigned_of_nat take_bit_eq_mod)

lemma writeShort_enc: "WriteStream_writeShort x s = s\<lparr>ws_queue := ws_queue s @ enc_short x\<rparr>"
  by (simp add: WriteStream_writeShort_def enc_short_def)

lemma writeLong_enc: "WriteStream_writeLong x s = s\<lparr>ws_queue := ws_queue s @ enc_long x\<rparr>"
  by (simp add: WriteStream_writeLong_def enc_long_def)

lemma writeString_enc: "WriteStream_writeString m s = s\<lparr>ws_queue := ws_queue s @ enc_string m\<rparr>"
  by (simp add: WriteStream_writeString_def writeLong_enc enc_string_def Let_def)

lemma writeBytes_enc: "WriteStream_writeBytes b s = s\<lparr>ws_queue := ws_queue s @ b\<rparr>"
  by (simp add: WriteStream_writeBytes_def)

lemmas write_enc = writeShort_enc writeLong_enc writeString_enc writeBytes_enc

lemma readShort_enc [codec_simps]:
  "rs_queue r = enc_short x @ rest \<Longrightarrow> ReadStream_readShort r = Inr (x, r\<lparr>rs_queue := rest\<rparr>)"
  by (simp add: ReadStream_readShort_def enc_short_def short_of_byte_pair)

lemma readLong_enc [codec_simps]:
  "unat x < 2 ^ 32 \<Longrightarrow> rs_queue r = enc_long x @ rest \<Longrightarrow>
     ReadStream_readLong r = Inr (x, r\<lparr>rs_queue := rest\<rparr>)"
  by (simp add: ReadStream_readLong_def enc_long_def htonl_image_def ntohl_htonl ucast_up_down)

lemma readString_enc [codec_simps]:
  assumes "length m < 2 ^ 32" "rs_queue r = enc_string m @ rest"
  shows "ReadStream_readString r = Inr (m, r\<lparr>rs_queue := rest\<rparr>)"
proof -
  have "ReadStream_readLong r =
      Inr (word_of_nat (length m), r\<lparr>rs_queue := map byte_of_char m @ rest\<rparr>)"
    using assms by (intro readLong_enc) (simp_all add: enc_string_def unat_word_of_nat_u64)
  then show ?thesis
    using assms(1) by (simp add: ReadStream_readString_def unat_word_of_nat_u64)
qed

lemma readBytes_enc [codec_simps]:
  "rs_queue r = b @ rest \<Longrightarrow> ReadStream_readBytes (int (length b)) r = Inr (b, r\<lparr>rs_queue := rest\<rparr>)"
  by (simp add: ReadStream_readBytes_def)

interpretation short_wf:
  wire_format WriteStream_writeShort ReadStream_readShort enc_short "\<lambda>_. True"
  by unfold_locales (simp_all add: writeShort_enc readShort_enc)

interpretation long_wf:
  wire_format WriteStream_writeLong ReadStream_readLong enc_long "\<lambda>x. unat x < 2 ^ 32"
  by unfold_locales (simp_all add: writeLong_enc readLong_enc)

interpretation string_wf:
  wire_format WriteStream_writeString ReadStream_readString enc_string "\<lambda>m. length m < 2 ^ 32"
  by unfold_locales (simp_all add: writeString_enc readString_enc)

section \<open>Packets\<close>

lemma frame_inj:
  assumes "length p < 2 ^ 32" "length q < 2 ^ 32" "frame p @ x = frame q @ y"
  shows "p = q \<and> x = y"
proof -
  have "length p = length q"
    using header_frame [OF assms(1), of x] header_frame [OF assms(2), of y] assms(3) by simp
  then have "frame p = frame q" "x = y"
    using assms(3) by (simp_all add: append_eq_append_conv)
  then show ?thesis
    by (simp add: frame_def)
qed

text \<open>
  A packet stream parses in one way: packets taken off it are the first of those put on it.
\<close>

lemma frames_prefix:
  assumes "list_all (\<lambda>p. length p < 2 ^ 32) qs" "list_all (\<lambda>p. length p < 2 ^ 32) ps"
    and "concat (map frame qs) = concat (map frame ps) @ rest"
  shows "\<exists>rs. qs = ps @ rs \<and> rest = concat (map frame rs)"
  using assms
proof (induction ps arbitrary: qs)
  case Nil
  then show ?case by simp
next
  case (Cons p ps)
  from Cons.prems(3) obtain q qs' where qs: "qs = q # qs'"
    by (cases qs) (auto simp: frame_def htonl_image_def)
  with Cons.prems have "p = q" "concat (map frame qs') = concat (map frame ps) @ rest"
    using frame_inj [of q p "concat (map frame qs')" "concat (map frame ps) @ rest"] by auto
  with Cons.IH [of qs'] Cons.prems qs show ?case by auto
qed

text \<open>An unfinished packet is shorter than any packet that starts like it.\<close>

lemma partial_proper:
  assumes "rs_inv s" "rs_partial s = frame q @ rest" "length q < 2 ^ 32"
  shows False
proof -
  have cnt: "length (rs_partial s) = m_read_count s"
    using assms(1) by (simp add: rs_partial_def rs_inv_def)
  then have "4 \<le> m_read_count s"
    by (simp add: assms(2))
  then have "ReadStream_header (rs_partial s) = length q"
      "m_read_count s < ReadStream_header (rs_partial s) + 4"
    using assms header_frame [OF assms(3), of rest] by (auto simp: rs_inv_def rs_header_partial)
  with cnt show False
    by (simp add: assms(2))
qed

definition fill_call ::
  "('w, 'o) posix_scheme \<Rightarrow> pollfd \<Rightarrow> read_stream \<times> 'w \<Rightarrow> (read_stream \<times> 'w) res" where
  "fill_call os ps = (\<lambda>(s, w). ReadStream_fill os ps s w)"

text \<open>Any number of calls: whole packets came off the input, in order, into the queue.\<close>

lemma fills_step:
  assumes "posix_read os (fd ps) inp" "rs_inv s"
    and "iterE n (fill_call os ps) (s, w) = Inr (s', w')"
  shows "\<exists>qs. list_all (\<lambda>p. length p \<le> 50000000) qs \<and>
    rs_partial s @ inp w = concat (map frame qs) @ rs_partial s' @ inp w' \<and>
    rs_queue s' = rs_queue s @ concat qs \<and> rs_inv s'"
  using assms(2,3)
proof (induction n arbitrary: s w)
  case 0
  then show ?case by (intro exI [of _ "[]"]) simp
next
  case (Suc n)
  from Suc.prems(2) obtain t v where f: "ReadStream_fill os ps s w = Inr (t, v)"
    and r: "iterE n (fill_call os ps) (t, v) = Inr (s', w')"
    by (auto simp: exn_simps fill_call_def)
  obtain qs where q: "list_all (\<lambda>p. length p \<le> 50000000) qs"
      "rs_partial s @ inp w = concat (map frame qs) @ rs_partial t @ inp v"
      "rs_queue t = rs_queue s @ concat qs" "rs_inv t"
    using fill_step [OF assms(1) Suc.prems(1) f] by blast
  obtain qs' where "list_all (\<lambda>p. length p \<le> 50000000) qs'"
      "rs_partial t @ inp v = concat (map frame qs') @ rs_partial s' @ inp w'"
      "rs_queue s' = rs_queue t @ concat qs'" "rs_inv s'"
    using Suc.IH [OF q(4) r] by blast
  with q show ?case
    by (intro exI [of _ "qs @ qs'"]) auto
qed

lemma all_le_less: "list_all (\<lambda>p. length p \<le> 50000000) ps \<Longrightarrow> list_all (\<lambda>p. length p < 2 ^ 32) ps"
  by (auto simp: list_all_iff)

section \<open>Progress and delivery\<close>

lemma header_of_frames:
  assumes "list_all (\<lambda>p. length p \<le> 50000000) qs" "xs @ ys = concat (map frame qs)"
    and "4 \<le> length xs"
  shows "ReadStream_header xs \<le> 50000000"
proof -
  obtain q qs' where qs: "qs = q # qs'"
    using assms(2,3) by (cases qs) auto
  have "ReadStream_header xs = ReadStream_header (frame q @ concat (map frame qs'))"
    using header_append [OF assms(3), of ys] assms(2) by (simp add: qs)
  then show ?thesis
    using header_frame [of q "concat (map frame qs')"] assms(1) by (simp add: qs)
qed

lemma fill_header_ready:
  assumes "posix_read os f inp" "read_ready os f inp" "inp w \<noteq> []"
  shows "\<exists>s' w'. ReadStream_fill_header os f s w = Inr (s', w') \<and>
    (if m_read_count s < 4 then length (inp w') < length (inp w) else s' = s \<and> w' = w)"
proof (cases "m_read_count s < 4")
  case True
  obtain bs w' where rd: "sys_read os f (4 - m_read_count s) w = (Inr bs, w')"
    and ne: "0 < 4 - m_read_count s \<Longrightarrow> inp w \<noteq> [] \<Longrightarrow> bs \<noteq> []"
    using read_readyE [OF assms(2)] by metis
  have "inp w = bs @ inp w'"
    using posix_read_Inr [OF assms(1) rd] by simp
  with True rd ne assms(3) show ?thesis
    by (auto simp: ReadStream_fill_header_def)
next
  case False
  then show ?thesis
    by (simp add: ReadStream_fill_header_def)
qed

lemma fill_body_ready:
  assumes "posix_read os f inp" "read_ready os f inp"
    and "ReadStream_header (m_read_buf s) \<le> 50000000"
  shows "\<exists>s' w'. ReadStream_fill_body os f s w = Inr (s', w') \<and> length (inp w') \<le> length (inp w) \<and>
    (m_read_count s < ReadStream_header (m_read_buf s) + 4 \<and> inp w \<noteq> [] \<longrightarrow>
       length (inp w') < length (inp w))"
proof -
  define len where "len = ReadStream_header (m_read_buf s)"
  obtain bs w' where rd: "sys_read os f (len + 4 - m_read_count s) w = (Inr bs, w')"
    and ne: "0 < len + 4 - m_read_count s \<Longrightarrow> inp w \<noteq> [] \<Longrightarrow> bs \<noteq> []"
    using read_readyE [OF assms(2)] by metis
  have "inp w = bs @ inp w'"
    using posix_read_Inr [OF assms(1) rd] by simp
  with rd ne assms(3) show ?thesis
    by (auto simp: ReadStream_fill_body_def Let_def simp flip: len_def)
qed

lemma fill_progress:
  assumes "posix_read os (fd ps) inp" "read_ready os (fd ps) inp" "flag POLLIN (revents ps)"
    and "rs_inv s" "inp w \<noteq> []"
    and "rs_partial s @ inp w = concat (map frame qs)" "list_all (\<lambda>p. length p \<le> 50000000) qs"
  shows "\<exists>s' w'. ReadStream_fill os ps s w = Inr (s', w') \<and> length (inp w') < length (inp w)"
proof -
  obtain t v where h: "ReadStream_fill_header os (fd ps) s w = Inr (t, v)"
    and less: "if m_read_count s < 4 then length (inp v) < length (inp w) else t = s \<and> v = w"
    using fill_header_ready [OF assms(1,2,5)] by blast
  note t = fill_header_step [OF assms(1,4) h]
  show ?thesis
  proof (cases "m_read_count t < 4")
    case True
    with h less assms(3) show ?thesis
      by (auto simp: ReadStream_fill_def split: if_splits)
  next
    case False
    have "length (rs_partial t) = m_read_count t"
      using t by (simp add: rs_partial_def rs_mid_def)
    then have "ReadStream_header (m_read_buf t) \<le> 50000000"
      using header_of_frames [OF assms(7), of "rs_partial t" "inp v"] t assms(6) False
      by (simp add: rs_header_partial)
    from fill_body_ready [OF assms(1,2) this, of v]
    obtain s' w' where b: "ReadStream_fill_body os (fd ps) t v = Inr (s', w')"
      "length (inp w') \<le> length (inp v)"
      "m_read_count t < ReadStream_header (m_read_buf t) + 4 \<and> inp v \<noteq> [] \<longrightarrow>
         length (inp w') < length (inp v)"
      by blast
    have "length (inp w') < length (inp w)"
      using b(2,3) less assms(4,5) False by (auto simp: rs_inv_def split: if_splits)
    with h b(1) False assms(3) show ?thesis
      by (auto simp: ReadStream_fill_def)
  qed
qed

text \<open>With all input taken, every packet has been delivered.\<close>

lemma fills_complete:
  assumes "rs_inv s" "rs_partial s = concat (map frame qs)" "list_all (\<lambda>p. length p < 2 ^ 32) qs"
  shows "qs = []"
proof (cases qs)
  case (Cons q qs')
  with assms partial_proper [of s q "concat (map frame qs')"] show ?thesis
    by simp
qed simp

lemma fills_deliver:
  assumes "posix_read os (fd ps) inp" "read_ready os (fd ps) inp" "flag POLLIN (revents ps)"
    and "list_all (\<lambda>p. length p \<le> 50000000) qs"
  shows "rs_inv s \<Longrightarrow> rs_partial s @ inp w = concat (map frame qs) \<Longrightarrow>
    \<exists>n s' w'. n \<le> length (inp w) \<and> iterE n (fill_call os ps) (s, w) = Inr (s', w') \<and>
      inp w' = [] \<and> rs_queue s' = rs_queue s @ concat qs"
  using assms(4)
proof (induction "length (inp w)" arbitrary: s w qs rule: less_induct)
  case less
  show ?case
  proof (cases "inp w = []")
    case True
    with less.prems fills_complete [of s qs] show ?thesis
      by (intro exI [of _ 0]) (auto dest: all_le_less)
  next
    case False
    obtain t v where f: "ReadStream_fill os ps s w = Inr (t, v)"
      and sm: "length (inp v) < length (inp w)"
      using fill_progress [OF assms(1-3) less.prems(1) False less.prems(2,3)] by blast
    obtain qs1 where q: "list_all (\<lambda>p. length p \<le> 50000000) qs1"
        "concat (map frame qs) = concat (map frame qs1) @ rs_partial t @ inp v"
        "rs_queue t = rs_queue s @ concat qs1" "rs_inv t"
      using fill_step [OF assms(1) less.prems(1) f] less.prems(2) by auto
    obtain rs where rs: "qs = qs1 @ rs" "rs_partial t @ inp v = concat (map frame rs)"
      using frames_prefix [OF all_le_less [OF less.prems(3)] all_le_less [OF q(1)] q(2)] by blast
    obtain n s' w' where "n \<le> length (inp v)" "iterE n (fill_call os ps) (t, v) = Inr (s', w')"
        "inp w' = []" "rs_queue s' = rs_queue t @ concat rs"
      using less.hyps [OF sm q(4) rs(2)] less.prems(3) rs(1) by auto
    with f sm q(3) rs(1) show ?thesis
      by (intro exI [of _ "Suc n"]) (auto simp: fill_call_def)
  qed
qed

section \<open>Properties\<close>

definition send_all :: "bytes list \<Rightarrow> write_stream \<Rightarrow> write_stream" where
  "send_all = fold (\<lambda>q s. WriteStream_send (WriteStream_writeBytes q s))"

lemma send_all_pending:
  "ws_queue s = [] \<Longrightarrow> list_all (\<lambda>q. q \<noteq> []) qs \<Longrightarrow>
     ws_pending (send_all qs s) = ws_pending s @ concat (map frame qs)"
  unfolding send_all_def
  by (induction qs arbitrary: s)
    (auto simp: ws_pending_send writeBytes_enc, simp_all add: ws_pending_def)

lemma ws_inv_send_all: "ws_inv s \<Longrightarrow> ws_inv (send_all qs s)"
  unfolding send_all_def
proof (induction qs arbitrary: s)
  case (Cons q qs)
  have "ws_inv (WriteStream_writeBytes q s)"
    using Cons.prems by (simp add: ws_inv_def)
  then have "ws_inv (WriteStream_send (WriteStream_writeBytes q s))"
    by (rule ws_inv_send)
  from Cons.IH [OF this] show ?case by simp
qed simp

text \<open>C1: Messages put through the tunnel's own connection arrive, whole, in order and once: the
  sending stream's packets are written out by repeated \<open>empty\<close> calls, and for every way the
  receiving system splits those bytes over its reads, repeated \<open>fill\<close> calls put exactly the
  messages on the receiving queue, in at most as many calls as there are bytes.\<close>

theorem stream_delivers_messages:
  assumes "posix_write os f out" "write_ready os f" "out w = []"
    and "posix_read os' (fd ps) inp" "read_ready os' (fd ps) inp" "flag POLLIN (revents ps)"
    and "list_all (\<lambda>q. q \<noteq> [] \<and> length q \<le> 50000000) qs"
  shows "\<exists>n s' w'. iterE n (WriteStream_drain os f) (send_all qs WriteStream_new, w) = Inr (s', w') \<and>
    \<not> WriteStream_pendingWrite s' \<and>
    (\<forall>v. inp v = out w' \<longrightarrow> (\<exists>m r v'. m \<le> length (out w') \<and>
       iterE m (fill_call os' ps) (ReadStream_new, v) = Inr (r, v') \<and>
       inp v' = [] \<and> rs_queue r = concat qs))"
proof -
  let ?s = "send_all qs WriteStream_new"
  have qs: "list_all (\<lambda>q. q \<noteq> []) qs" "list_all (\<lambda>p. length p \<le> 50000000) qs"
    using assms(7) by (auto simp: list_all_iff)
  have inv: "ws_inv ?s"
    by (rule ws_inv_send_all) (rule ws_inv_new)
  obtain s' w' where d: "iterE (length (ws_pending ?s)) (WriteStream_drain os f) (?s, w) = Inr (s', w')"
    "ws_pending s' = []" "out w' = out w @ ws_pending ?s"
    using wsb.drains_deliver_all [OF assms(1,2) inv] by blast
  have "(\<lambda>(c, _). ws_inv c) (s', w')"
    by (rule iterE_invariant [where P = "\<lambda>(c, _). ws_inv c", OF _ _ d(1)])
      (use inv wsb.drain_moves [OF assms(1)] in auto)
  then have "\<not> WriteStream_pendingWrite s'"
    using d(2) by (simp add: pendingWrite_iff)
  moreover have "out w' = concat (map frame qs)"
    using d(3) assms(3) send_all_pending [OF _ qs(1), of WriteStream_new]
    by (simp add: WriteStream_new_def ws_pending_def)
  moreover have "rs_partial ReadStream_new = []" "rs_queue ReadStream_new = []"
    by (simp_all add: ReadStream_new_def rs_partial_def)
  ultimately show ?thesis
    using d(1) fills_deliver [OF assms(4-6) qs(2) rs_inv_new] by (metis append_Nil)
qed

theorem stream_delivers_messages_witness:
  "\<exists>n s' w'. iterE n (WriteStream_drain (pipe_os 3) 1) (send_all [[1, 146], [1, 148, 7]] WriteStream_new, demo_world [])
      = Inr (s', w') \<and> \<not> WriteStream_pendingWrite s' \<and>
    (\<exists>m r v'. m \<le> length (pw_out w') \<and>
       iterE m (fill_call (pipe_os 5) demo_in) (ReadStream_new, demo_world (pw_out w')) = Inr (r, v') \<and>
       pw_in v' = [] \<and> rs_queue r = [1, 146, 1, 148, 7])"
proof -
  have "\<exists>n s' w'. iterE n (WriteStream_drain (pipe_os 3) 1) (send_all [[1, 146], [1, 148, 7]] WriteStream_new, demo_world [])
      = Inr (s', w') \<and> \<not> WriteStream_pendingWrite s' \<and>
    (\<forall>v. pw_in v = pw_out w' \<longrightarrow> (\<exists>m r v'. m \<le> length (pw_out w') \<and>
       iterE m (fill_call (pipe_os 5) demo_in) (ReadStream_new, v) = Inr (r, v') \<and>
       pw_in v' = [] \<and> rs_queue r = concat [[1, 146], [1, 148, 7]]))"
    by (rule stream_delivers_messages)
      (simp_all add: pipe_os_write pipe_os_write_ready pipe_os_read pipe_os_read_ready demo_world_def demo_in_def)
  moreover have "pw_in (demo_world x) = x" for x
    by (simp add: demo_world_def)
  ultimately show ?thesis
    by fastforce
qed

text \<open>C32: Strings written in a row on a \<open>WriteStream\<close> are read back in the same order, each intact,
  and the reader stops exactly where they end.\<close>

theorem strings_roundtrip:
  assumes "list_all (\<lambda>m. length m < 2 ^ 32) ms"
  shows "repeatE (length ms) ReadStream_readString
      (r\<lparr>rs_queue := ws_queue (fold WriteStream_writeString ms (s\<lparr>ws_queue := []\<rparr>)) @ rest\<rparr>)
    = Inr (ms, r\<lparr>rs_queue := rest\<rparr>)"
  using assms by (rule string_wf.list_roundtrip)

theorem strings_roundtrip_witness:
  "repeatE 2 ReadStream_readString
      (ReadStream_new\<lparr>rs_queue := ws_queue (fold WriteStream_writeString [''ab'', []] (WriteStream_new\<lparr>ws_queue := []\<rparr>)) @ [9]\<rparr>)
    = Inr ([''ab'', []], ReadStream_new\<lparr>rs_queue := [9]\<rparr>)"
proof -
  have "list_all (\<lambda>m. length m < 2 ^ 32) [''ab'', []]"
    by simp
  from strings_roundtrip [OF this, where r = ReadStream_new and s = WriteStream_new and rest = "[9]"]
  show ?thesis
    by (simp add: numeral_2_eq_2 del: repeatE.simps)
qed

end
