(* ===== verification/Net_Posix.thy ===== *)
theory Net_Posix
  imports Posix
begin

text \<open>
  The socket calls of the operating system, as an extension of the record of system calls.
  Addresses are IPv4 numbers and port numbers 16 bit words, both in host byte order; a call that
  fails gives the error number.
\<close>

definition INADDR_ANY :: u32 where "INADDR_ANY = 0"
definition INADDR_LOOPBACK :: u32 where "INADDR_LOOPBACK = 2130706433"

text \<open>
  \<open>sys_nonblock f\<close> is \<open>fcntl(f, F_SETFL, O_NONBLOCK)\<close>. \<open>sys_gethostbyname\<close> gives the
  first address of the host, or nothing. \<open>sys_signaled\<close> reads the flag the signal handler
  sets; it belongs to the world because signals arrive at any time.
\<close>

record 'w net_posix = "'w posix" +
  sys_socket :: "'w \<Rightarrow> (errno + c_int) \<times> 'w"
  sys_bind :: "c_int \<Rightarrow> u32 \<Rightarrow> short \<Rightarrow> 'w \<Rightarrow> (errno + unit) \<times> 'w"
  sys_listen :: "c_int \<Rightarrow> nat \<Rightarrow> 'w \<Rightarrow> (errno + unit) \<times> 'w"
  sys_accept :: "c_int \<Rightarrow> 'w \<Rightarrow> (errno + c_int) \<times> 'w"
  sys_connect :: "c_int \<Rightarrow> u32 \<Rightarrow> short \<Rightarrow> 'w \<Rightarrow> (errno + unit) \<times> 'w"
  sys_nonblock :: "c_int \<Rightarrow> 'w \<Rightarrow> (errno + unit) \<times> 'w"
  sys_gethostbyname :: "string \<Rightarrow> 'w \<Rightarrow> u32 option \<times> 'w"
  sys_signaled :: "'w \<Rightarrow> bool"

text \<open>
  The concrete system of \<open>Posix\<close> with sockets: every call succeeds, a new socket is
  descriptor 10, an accepted connection descriptor 20, and every host is the loopback.
\<close>

definition pipe_net :: "nat \<Rightarrow> pipe_world net_posix" where
  "pipe_net quantum = posix.extend (pipe_os quantum)
     \<lparr>sys_socket = (\<lambda>w. (Inr 10, w)),
      sys_bind = (\<lambda>f a p w. (Inr (), w)),
      sys_listen = (\<lambda>f n w. (Inr (), w)),
      sys_accept = (\<lambda>f w. (Inr 20, w)),
      sys_connect = (\<lambda>f a p w. (Inr (), w)),
      sys_nonblock = (\<lambda>f w. (Inr (), w)),
      sys_gethostbyname = (\<lambda>h w. (Some INADDR_LOOPBACK, w)),
      sys_signaled = (\<lambda>w. False)\<rparr>"

end
