(* ===== verification/Connection_Spec.thy ===== *)
theory Connection_Spec
  imports Wire_Format Net_Posix
begin

text \<open>
  \<open>ConnectionSpec\<close> of \<open>stdio_tunnel/StdioTunnel.h\<close> and \<open>.cpp\<close>: what is to be forwarded,
  how it is read from a command line argument, and how it travels to the remote side.
\<close>

section \<open>State\<close>

text \<open>\<open>enum Direction { LISTEN, CONNECT }\<close> and the flag bits, by their values.\<close>

definition LISTEN :: c_int where "LISTEN = 0"
definition CONNECT :: c_int where "CONNECT = 1"
definition ACK_PACKETS :: c_int where "ACK_PACKETS = 1"
definition PROMISCUOUS :: c_int where "PROMISCUOUS = 2"

record connection_spec =
  m_connection_type :: c_int
  m_connect_host :: string
  m_connect_port :: c_int
  m_listen_port :: c_int
  m_flags :: c_int

definition ConnectionSpec_isSocks5 :: "connection_spec \<Rightarrow> bool" where
  "ConnectionSpec_isSocks5 sp \<longleftrightarrow> length (m_connect_host sp) = 0 \<and> m_connect_port sp = 0"

text \<open>\<open>m_flags & bit\<close>\<close>

definition has_flag :: "c_int \<Rightarrow> connection_spec \<Rightarrow> bool" where
  "has_flag b sp \<longleftrightarrow> m_flags sp AND b \<noteq> 0"

section \<open>On the wire\<close>

text \<open>An \<open>int\<close> passed as \<open>short\<close> keeps its low 16 bits; a \<open>short\<close> read into an \<open>int\<close> keeps its sign.\<close>

definition to_short :: "c_int \<Rightarrow> short" where
  "to_short x = word_of_int x"

definition of_short :: "short \<Rightarrow> c_int" where
  "of_short x = sint x"

definition ConnectionSpec_serialize :: "connection_spec \<Rightarrow> write_stream \<Rightarrow> write_stream" where
  "ConnectionSpec_serialize sp s =
     (let s = WriteStream_writeShort (to_short (m_connection_type sp)) s;
          s = WriteStream_writeString (m_connect_host sp) s;
          s = WriteStream_writeShort (to_short (m_connect_port sp)) s;
          s = WriteStream_writeShort (to_short (m_listen_port sp)) s
      in WriteStream_writeShort (to_short (m_flags sp)) s)"

definition ConnectionSpec_deserialize :: "read_stream \<Rightarrow> (connection_spec \<times> read_stream) res" where
  "ConnectionSpec_deserialize r =
     bindE (ReadStream_readShort r) (\<lambda>(connection_type, r).
     bindE (ReadStream_readString r) (\<lambda>(connect_host, r).
     bindE (ReadStream_readShort r) (\<lambda>(connect_port, r).
     bindE (ReadStream_readShort r) (\<lambda>(listen_port, r).
     bindE (ReadStream_readShort r) (\<lambda>(flags, r).
       Inr (\<lparr>m_connection_type = of_short connection_type, m_connect_host = connect_host,
             m_connect_port = of_short connect_port, m_listen_port = of_short listen_port,
             m_flags = of_short flags\<rparr>, r))))))"

section \<open>From the command line\<close>

text \<open>
  \<open>for (string t; getline(input, t, ':'); ...)\<close>: the fields between colons; nothing follows
  a colon at the very end, and an empty argument has no field.
\<close>

function getline_split :: "char \<Rightarrow> string \<Rightarrow> string list" where
  "getline_split d s =
     (if s = [] then []
      else takeWhile (\<lambda>c. c \<noteq> d) s #
        (case dropWhile (\<lambda>c. c \<noteq> d) s of [] \<Rightarrow> [] | _ # rest \<Rightarrow> getline_split d rest))"
  by pat_completeness auto
termination
proof (relation "measure (\<lambda>(d, s). length s)", goal_cases)
  case (2 d s x rest)
  have "length (dropWhile (\<lambda>c. c \<noteq> d) s) \<le> length s"
    by (rule length_dropWhile_le)
  with 2 show ?case by simp
qed simp

declare getline_split.simps [simp del]

text \<open>
  \<open>atoi\<close>: leading white space, one optional sign, decimal digits. A number that does not fit
  is clamped to a \<open>long\<close> and cut to 32 bits, as the C library's \<open>(int) strtol(...)\<close> does.
\<close>

definition is_space :: "char \<Rightarrow> bool" where
  "is_space c \<longleftrightarrow> c = CHR '' '' \<or> (9 \<le> (of_char c :: nat) \<and> (of_char c :: nat) \<le> 13)"

definition is_digit :: "char \<Rightarrow> bool" where
  "is_digit c \<longleftrightarrow> 48 \<le> (of_char c :: nat) \<and> (of_char c :: nat) \<le> 57"

definition digits_value :: "string \<Rightarrow> int" where
  "digits_value s = foldl (\<lambda>v c. 10 * v + (of_char c - 48)) 0 (takeWhile is_digit s)"

definition strtol_int :: "int \<Rightarrow> c_int" where
  "strtol_int v = signed_take_bit 31 (max (- (2 ^ 63)) (min (2 ^ 63 - 1) v))"

definition atoi :: "string \<Rightarrow> c_int" where
  "atoi s =
     (case dropWhile is_space s of
        [] \<Rightarrow> 0
      | c # cs \<Rightarrow>
          if c = CHR ''-'' then strtol_int (- digits_value cs)
          else if c = CHR ''+'' then strtol_int (digits_value cs)
          else strtol_int (digits_value (c # cs)))"

definition parseConnection :: "c_int \<Rightarrow> string \<Rightarrow> connection_spec res" where
  "parseConnection direction arg =
     (let connect_params = getline_split (CHR '':'') arg in
      if length connect_params \<noteq> 3 \<and> length connect_params \<noteq> 4
      then Inl (MyException (''Bad connection argument: '' @ arg))
      else
        let listen_port = atoi (connect_params ! 0) in
        if listen_port \<le> 0
        then Inl (MyException (''Bad listen port: '' @ connect_params ! 0))
        else
          let connect_port = atoi (connect_params ! 2) in
          if connect_port < 0
          then Inl (MyException (''Bad connect port: '' @ connect_params ! 2))
          else if (length (connect_params ! 1) = 0 \<and> connect_port \<noteq> 0) \<and>
                  (length (connect_params ! 1) > 0 \<and> connect_port = 0)
          then Inl (MyException (''Bad connect host or port: '' @ connect_params ! 2))
          else
            let result = \<lparr>m_connection_type = direction, m_connect_host = connect_params ! 1,
                  m_connect_port = connect_port, m_listen_port = listen_port, m_flags = 0\<rparr> in
            if ConnectionSpec_isSocks5 result \<and> direction \<noteq> CONNECT
            then Inl (MyException ''socks 5 can only on the remote side'')
            else if length connect_params = 4
            then let fl = connect_params ! 3;
                     result = (if CHR ''a'' \<in> set fl
                       then result\<lparr>m_flags := m_flags result OR ACK_PACKETS\<rparr> else result);
                     result = (if CHR ''p'' \<in> set fl
                       then result\<lparr>m_flags := m_flags result OR PROMISCUOUS\<rparr> else result)
                 in Inr result
            else Inr result)"

section \<open>Trying the port\<close>

text \<open>The address and port a listener binds to.\<close>

definition listen_addr :: "connection_spec \<Rightarrow> u32" where
  "listen_addr sp = (if has_flag PROMISCUOUS sp then INADDR_ANY else INADDR_LOOPBACK)"

text \<open>\<open>bindStatus\<close> also leaves \<open>errno\<close> as its \<open>socket\<close> or \<open>bind\<close> call set it.\<close>

definition ConnectionSpec_bindStatus ::
  "('w, 'o) net_posix_scheme \<Rightarrow> connection_spec \<Rightarrow> 'w \<Rightarrow> c_int \<times> errno option \<times> 'w" where
  "ConnectionSpec_bindStatus os sp w =
     (case sys_socket os w of
        (Inl e, w) \<Rightarrow> (-1, Some e, w)
      | (Inr sock, w) \<Rightarrow>
          (case sys_bind os sock (listen_addr sp) (to_short (m_listen_port sp)) w of
             (Inr _, w) \<Rightarrow> (0, None, sys_close os sock w)
           | (Inl e, w) \<Rightarrow>
               (if e = EADDRINUSE then 1 else -1, Some e, sys_close os sock w)))"

section \<open>The wire format\<close>

definition enc_spec :: "connection_spec \<Rightarrow> bytes" where
  "enc_spec sp = enc_short (to_short (m_connection_type sp)) @ enc_string (m_connect_host sp) @
     enc_short (to_short (m_connect_port sp)) @ enc_short (to_short (m_listen_port sp)) @
     enc_short (to_short (m_flags sp))"

text \<open>What arrives: every number cut to a signed 16 bit one.\<close>

definition wire_spec :: "connection_spec \<Rightarrow> connection_spec" where
  "wire_spec sp = sp\<lparr>m_connection_type := of_short (to_short (m_connection_type sp)),
     m_connect_port := of_short (to_short (m_connect_port sp)),
     m_listen_port := of_short (to_short (m_listen_port sp)),
     m_flags := of_short (to_short (m_flags sp))\<rparr>"

lemma of_to_short: "of_short (to_short x) = signed_take_bit 15 x"
  by (simp add: of_short_def to_short_def signed_of_int)

lemma of_to_short_small: "-32768 \<le> x \<Longrightarrow> x < 32768 \<Longrightarrow> of_short (to_short x) = x"
  by (simp add: of_to_short signed_take_bit_int_eq_self)

lemma to_of_short [simp]: "to_short (of_short x) = x"
  by (simp add: of_short_def to_short_def)

lemma serialize_enc: "ConnectionSpec_serialize sp s = s\<lparr>ws_queue := ws_queue s @ enc_spec sp\<rparr>"
  by (simp add: ConnectionSpec_serialize_def enc_spec_def write_enc Let_def)

lemma deserialize_enc:
  assumes "length (m_connect_host sp) < 2 ^ 32" "rs_queue r = enc_spec sp @ rest"
  shows "ConnectionSpec_deserialize r = Inr (wire_spec sp, r\<lparr>rs_queue := rest\<rparr>)"
proof -
  have 1: "ReadStream_readShort r = Inr (to_short (m_connection_type sp),
      r\<lparr>rs_queue := drop 2 (enc_spec sp) @ rest\<rparr>)"
    by (rule readShort_enc) (simp add: assms(2) enc_spec_def)
  have 2: "ReadStream_readString (r\<lparr>rs_queue := drop 2 (enc_spec sp) @ rest\<rparr>) = Inr (m_connect_host sp,
      r\<lparr>rs_queue := enc_short (to_short (m_connect_port sp)) @ enc_short (to_short (m_listen_port sp)) @
        enc_short (to_short (m_flags sp)) @ rest\<rparr>)"
    using readString_enc [OF assms(1), of "r\<lparr>rs_queue := drop 2 (enc_spec sp) @ rest\<rparr>"]
    by (simp add: enc_spec_def)
  show ?thesis
    unfolding ConnectionSpec_deserialize_def 1
    by (simp add: 2 readShort_enc wire_spec_def)
qed

definition spec_ok :: "connection_spec \<Rightarrow> bool" where
  "spec_ok sp \<longleftrightarrow> length (m_connect_host sp) < 2 ^ 32 \<and> wire_spec sp = sp"

interpretation spec_wf:
  wire_format ConnectionSpec_serialize ConnectionSpec_deserialize enc_spec spec_ok
  by unfold_locales (auto simp: serialize_enc spec_ok_def deserialize_enc)

section \<open>Printing and parsing\<close>

fun show_nat :: "nat \<Rightarrow> string" where
  "show_nat n = (if n < 10 then [char_of (48 + n)] else show_nat (n div 10) @ [char_of (48 + n mod 10)])"

declare show_nat.simps [simp del]

definition print_flags :: "c_int \<Rightarrow> string" where
  "print_flags fl = (if fl = 0 then [] else if fl = 1 then '':a'' else if fl = 2 then '':p'' else '':ap'')"

text \<open>A connection argument in the form the manual gives.\<close>

definition print_spec :: "connection_spec \<Rightarrow> string" where
  "print_spec sp = show_nat (nat (m_listen_port sp)) @ CHR '':'' # m_connect_host sp @
     CHR '':'' # show_nat (nat (m_connect_port sp)) @ print_flags (m_flags sp)"

lemma of_char_digit: "k < 10 \<Longrightarrow> (of_char (char_of (48 + k)) :: nat) = 48 + k"
  by simp

lemma of_char_digit_int: "k < 10 \<Longrightarrow> (of_char (char_of (48 + k :: nat)) :: int) = 48 + int k"
  using of_char_digit [of k] of_nat_of_char [where 'a = int, of "char_of (48 + k)"]
  by (metis of_nat_add of_nat_numeral)

lemma is_digit_char: "k < (10 :: nat) \<Longrightarrow> is_digit (char_of (48 + k))"
  by (simp add: is_digit_def)

lemma show_nat_digits: "list_all is_digit (show_nat n)"
proof (induction n rule: show_nat.induct)
  case (1 n)
  then show ?case
    by (subst show_nat.simps) (simp add: is_digit_char)
qed

lemma show_nat_not_Nil [simp]: "show_nat n \<noteq> []"
  by (subst show_nat.simps) simp

lemma takeWhile_digits: "list_all is_digit ds \<Longrightarrow> takeWhile is_digit ds = ds"
  by (simp add: takeWhile_eq_all_conv list_all_iff)

lemma digits_value_snoc:
  "list_all is_digit ds \<Longrightarrow> is_digit c \<Longrightarrow> digits_value (ds @ [c]) = 10 * digits_value ds + (of_char c - 48)"
  by (simp add: digits_value_def takeWhile_digits list_all_iff)

lemma digits_value_show: "digits_value (show_nat n) = int n"
proof (induction n rule: show_nat.induct)
  case (1 n)
  show ?case
  proof (cases "n < 10")
    case True
    then show ?thesis
      by (subst show_nat.simps) (simp add: digits_value_def is_digit_char of_char_digit_int)
  next
    case False
    have "int n = 10 * int (n div 10) + int (n mod 10)"
      by presburger
    with False 1 show ?thesis
      by (subst show_nat.simps)
        (simp add: digits_value_snoc [OF show_nat_digits] is_digit_char of_char_digit_int)
  qed
qed

lemma strtol_int_small: "0 \<le> v \<Longrightarrow> v < 2 ^ 31 \<Longrightarrow> strtol_int v = v"
  by (simp add: strtol_int_def signed_take_bit_int_eq_self)

lemma atoi_show:
  assumes "n < 2 ^ 31"
  shows "atoi (show_nat n) = int n"
proof -
  obtain c cs where c: "show_nat n = c # cs"
    by (cases "show_nat n") auto
  then have "is_digit c"
    using show_nat_digits [of n] by simp
  then have "\<not> is_space c" "c \<noteq> CHR ''-''" "c \<noteq> CHR ''+''"
    by (auto simp: is_digit_def is_space_def)
  then show ?thesis
    using assms digits_value_show [of n] by (simp add: atoi_def c strtol_int_small)
qed

lemma getline_split_Cons:
  "d \<notin> set f \<Longrightarrow> getline_split d (f @ d # rest) = f # getline_split d rest"
proof -
  assume d: "d \<notin> set f"
  then have "\<forall>x \<in> set f. x \<noteq> d"
    by auto
  then have "takeWhile (\<lambda>c. c \<noteq> d) (f @ d # rest) = f" "dropWhile (\<lambda>c. c \<noteq> d) (f @ d # rest) = d # rest"
    by (simp_all add: takeWhile_append2 dropWhile_append2)
  then show ?thesis
    by (subst getline_split.simps) simp
qed

lemma getline_split_last: "d \<notin> set f \<Longrightarrow> f \<noteq> [] \<Longrightarrow> getline_split d f = [f]"
proof -
  assume d: "d \<notin> set f" and f: "f \<noteq> []"
  have "takeWhile (\<lambda>c. c \<noteq> d) f = f" "dropWhile (\<lambda>c. c \<noteq> d) f = []"
    using d by (auto simp: takeWhile_eq_all_conv)
  with f show ?thesis
    by (subst getline_split.simps) (simp del: dropWhile_eq_Nil_conv)
qed

lemma colon_not_in_show [simp]: "CHR '':'' \<notin> set (show_nat n)"
  using show_nat_digits [of n] by (auto simp: list_all_iff is_digit_def)

lemma split_print_spec:
  assumes "CHR '':'' \<notin> set (m_connect_host sp)"
  shows "getline_split (CHR '':'') (print_spec sp) =
    [show_nat (nat (m_listen_port sp)), m_connect_host sp, show_nat (nat (m_connect_port sp))] @
    (if m_flags sp = 0 then [] else [tl (print_flags (m_flags sp))])"
proof -
  have "getline_split (CHR '':'') (show_nat k @ print_flags fl) =
      show_nat k # (if fl = 0 then [] else [tl (print_flags fl)])" for k fl
    by (auto simp: print_flags_def getline_split_Cons getline_split_last)
  with assms show ?thesis
    by (simp add: print_spec_def getline_split_Cons)
qed

text \<open>What can be printed and parsed again, and what a parsed specification looks like.\<close>

definition printable :: "connection_spec \<Rightarrow> bool" where
  "printable sp \<longleftrightarrow> CHR '':'' \<notin> set (m_connect_host sp) \<and> 0 < m_listen_port sp \<and> m_listen_port sp < 2 ^ 31 \<and>
     0 \<le> m_connect_port sp \<and> m_connect_port sp < 2 ^ 31 \<and> m_flags sp \<in> {0, 1, 2, 3} \<and>
     (ConnectionSpec_isSocks5 sp \<longrightarrow> m_connection_type sp = CONNECT)"

lemma parse_print:
  assumes "printable sp"
  shows "parseConnection (m_connection_type sp) (print_spec sp) = Inr sp"
proof -
  have ok: "CHR '':'' \<notin> set (m_connect_host sp)" "m_flags sp \<in> {0, 1, 2, 3}"
    using assms by (simp_all add: printable_def)
  have ports: "atoi (show_nat (nat (m_listen_port sp))) = m_listen_port sp"
      "atoi (show_nat (nat (m_connect_port sp))) = m_connect_port sp" "0 < m_listen_port sp" "0 \<le> m_connect_port sp"
    using assms by (simp_all add: printable_def atoi_show nat_less_iff)
  have "\<not> (ConnectionSpec_isSocks5 (sp\<lparr>m_flags := 0\<rparr>) \<and> m_connection_type sp \<noteq> CONNECT)"
    using assms by (simp add: printable_def ConnectionSpec_isSocks5_def)
  moreover have "\<lparr>m_connection_type = m_connection_type sp, m_connect_host = m_connect_host sp,
      m_connect_port = m_connect_port sp, m_listen_port = m_listen_port sp, m_flags = 0\<rparr> = sp\<lparr>m_flags := 0\<rparr>"
    by simp
  ultimately show ?thesis
    using ok(2) ports(3,4)
    by (auto simp: parseConnection_def split_print_spec [OF ok(1)] Let_def ports(1,2) print_flags_def
        ACK_PACKETS_def PROMISCUOUS_def ConnectionSpec_isSocks5_def)
qed

definition valid_spec :: "connection_spec \<Rightarrow> bool" where
  "valid_spec sp \<longleftrightarrow> 0 < m_listen_port sp \<and> 0 \<le> m_connect_port sp \<and> m_flags sp \<in> {0, 1, 2, 3} \<and>
     (ConnectionSpec_isSocks5 sp \<longrightarrow> m_connection_type sp = CONNECT)"

lemma parse_valid: "parseConnection direction arg = Inr sp \<Longrightarrow> valid_spec sp \<and> m_connection_type sp = direction"
  by (auto simp: parseConnection_def Let_def ConnectionSpec_isSocks5_def ACK_PACKETS_def PROMISCUOUS_def valid_spec_def
      split: if_splits)

section \<open>Properties\<close>

text \<open>C21: A connection specification sent by one side is read by the other with every field equal,
  except that numbers are cut to signed 16 bits; in particular the 16 bit port numbers the sockets
  are opened with and the acknowledge and promiscuous flags are those that were sent.\<close>

theorem spec_survives_the_wire:
  assumes "length (m_connect_host sp) < 2 ^ 32"
  shows "ConnectionSpec_deserialize
      (r\<lparr>rs_queue := ws_queue (ConnectionSpec_serialize sp (s\<lparr>ws_queue := []\<rparr>)) @ rest\<rparr>) =
      Inr (wire_spec sp, r\<lparr>rs_queue := rest\<rparr>) \<and>
    to_short (m_connect_port (wire_spec sp)) = to_short (m_connect_port sp) \<and>
    to_short (m_listen_port (wire_spec sp)) = to_short (m_listen_port sp) \<and>
    (m_flags sp \<in> {0..3} \<longrightarrow> m_flags (wire_spec sp) = m_flags sp \<and> listen_addr (wire_spec sp) = listen_addr sp)"
proof -
  have "ConnectionSpec_deserialize
      (r\<lparr>rs_queue := ws_queue (ConnectionSpec_serialize sp (s\<lparr>ws_queue := []\<rparr>)) @ rest\<rparr>) =
      Inr (wire_spec sp, r\<lparr>rs_queue := rest\<rparr>)"
    using deserialize_enc [OF assms, of "r\<lparr>rs_queue := enc_spec sp @ rest\<rparr>" rest]
    by (simp add: serialize_enc)
  moreover have "m_flags (wire_spec sp) = m_flags sp" if "m_flags sp \<in> {0..3}"
    using that by (simp add: wire_spec_def of_to_short_small)
  ultimately show ?thesis
    by (auto simp: wire_spec_def listen_addr_def has_flag_def)
qed

definition demo_spec :: connection_spec where
  "demo_spec = \<lparr>m_connection_type = CONNECT, m_connect_host = ''web'', m_connect_port = 40000,
     m_listen_port = 8080, m_flags = 3\<rparr>"

theorem spec_survives_the_wire_witness:
  "ConnectionSpec_deserialize
      (ReadStream_new\<lparr>rs_queue := ws_queue (ConnectionSpec_serialize demo_spec (WriteStream_new\<lparr>ws_queue := []\<rparr>)) @ [9]\<rparr>) =
      Inr (wire_spec demo_spec, ReadStream_new\<lparr>rs_queue := [9]\<rparr>) \<and>
    to_short (m_connect_port (wire_spec demo_spec)) = 40000 \<and> m_connect_port (wire_spec demo_spec) = -25536 \<and>
    m_flags (wire_spec demo_spec) = 3"
proof -
  have "length (m_connect_host demo_spec) < 2 ^ 32"
    by (simp add: demo_spec_def)
  note s = spec_survives_the_wire [OF this, where r = ReadStream_new and s = WriteStream_new and rest = "[9]"]
  have "m_connect_port (wire_spec demo_spec) = -25536" "to_short (m_connect_port demo_spec) = 40000"
      "m_flags demo_spec = 3"
    by (simp_all add: wire_spec_def demo_spec_def of_short_def to_short_def)
  with s show ?thesis
    by simp
qed

text \<open>C30: Parsing inverts printing: the argument \<open>listen:host:connect[:flags]\<close> of a specification
  with ports of at most 31 bits and a host without a colon is parsed to exactly that
  specification.\<close>

theorem parse_print_roundtrip:
  assumes "m_connection_type sp = direction" "CHR '':'' \<notin> set (m_connect_host sp)"
    and "0 < m_listen_port sp" "m_listen_port sp < 2 ^ 31"
    and "0 \<le> m_connect_port sp" "m_connect_port sp < 2 ^ 31"
    and "m_flags sp \<in> {0, 1, 2, 3}" "ConnectionSpec_isSocks5 sp \<longrightarrow> direction = CONNECT"
  shows "parseConnection direction (print_spec sp) = Inr sp"
  using parse_print [of sp] assms by (simp add: printable_def)

theorem parse_print_roundtrip_witness:
  "parseConnection CONNECT (print_spec demo_spec) = Inr demo_spec"
  by (rule parse_print_roundtrip)
    (simp_all add: demo_spec_def ConnectionSpec_isSocks5_def CONNECT_def)

text \<open>C31: An accepted connection argument has a positive listen port, a connect port that is not
  negative, the direction asked for and only the two known flag bits, and asks for the built-in
  socks server only where it connects on the remote side.\<close>

theorem parse_accepts_only_valid:
  assumes "parseConnection direction arg = Inr sp"
  shows "0 < m_listen_port sp \<and> 0 \<le> m_connect_port sp \<and> m_connection_type sp = direction \<and>
    m_flags sp \<in> {0, 1, 2, 3} \<and> (ConnectionSpec_isSocks5 sp \<longrightarrow> direction = CONNECT)"
  using parse_valid [OF assms] by (auto simp: valid_spec_def)

theorem parse_accepts_only_valid_witness:
  "0 < m_listen_port demo_spec \<and> 0 \<le> m_connect_port demo_spec \<and> m_connection_type demo_spec = CONNECT \<and>
    m_flags demo_spec \<in> {0, 1, 2, 3}"
proof -
  have "parseConnection CONNECT ''8080:web:40000:ap'' = Inr demo_spec"
    by code_simp
  from parse_accepts_only_valid [OF this] show ?thesis
    by blast
qed

text \<open>C36: The check of the connect host against the connect port never rejects anything: its two
  halves contradict each other, so an argument with an empty host and a port, or a host and port
  zero, is accepted (\<open>8080::5\<close>), whenever the ports themselves parse.\<close>

theorem parse_host_port_check_is_dead:
  "parseConnection direction arg \<noteq> Inl (MyException (''Bad connect host or port: '' @ p)) \<and>
   parseConnection CONNECT ''8080::5'' =
     Inr \<lparr>m_connection_type = CONNECT, m_connect_host = [], m_connect_port = 5, m_listen_port = 8080, m_flags = 0\<rparr>"
proof -
  have "parseConnection direction arg \<noteq> Inl (MyException (''Bad connect host or port: '' @ p))"
    by (auto simp: parseConnection_def Let_def)
  moreover have "parseConnection CONNECT ''8080::5'' =
     Inr \<lparr>m_connection_type = CONNECT, m_connect_host = [], m_connect_port = 5, m_listen_port = 8080, m_flags = 0\<rparr>"
    by code_simp
  ultimately show ?thesis by blast
qed

text \<open>C33: The two sides agree on which specification asks for the built-in socks server when the
  connect port is a 16 bit number; the parser accepts larger ones, and at 65536 the remote side
  takes an ordinary specification for a socks one.\<close>

theorem socks5_agreement:
  "(0 \<le> m_connect_port sp \<and> m_connect_port sp < 65536 \<longrightarrow>
     ConnectionSpec_isSocks5 (wire_spec sp) = ConnectionSpec_isSocks5 sp) \<and>
   (\<exists>t. parseConnection CONNECT ''1080::65536'' = Inr t \<and> \<not> ConnectionSpec_isSocks5 t \<and>
     ConnectionSpec_isSocks5 (wire_spec t))"
proof -
  have "of_short (to_short x) = 0 \<longleftrightarrow> x = 0" if "0 \<le> x" "x < 65536" for x
  proof
    assume "of_short (to_short x) = 0"
    then have "to_short x = 0"
      by (metis of_short_def signed_0 signed_word_eqI)
    then have "uint (word_of_int x :: short) = 0"
      by (simp add: to_short_def)
    then show "x = 0"
      using that by (simp add: unsigned_of_int take_bit_int_eq_self)
  qed (simp add: of_short_def to_short_def)
  then have "0 \<le> m_connect_port sp \<and> m_connect_port sp < 65536 \<longrightarrow>
     ConnectionSpec_isSocks5 (wire_spec sp) = ConnectionSpec_isSocks5 sp"
    by (simp add: ConnectionSpec_isSocks5_def wire_spec_def)
  moreover have "parseConnection CONNECT ''1080::65536'' =
      Inr \<lparr>m_connection_type = CONNECT, m_connect_host = [], m_connect_port = 65536, m_listen_port = 1080, m_flags = 0\<rparr>"
    by code_simp
  ultimately show ?thesis
    by (simp add: ConnectionSpec_isSocks5_def wire_spec_def of_short_def to_short_def)
qed

theorem socks5_agreement_witness:
  "ConnectionSpec_isSocks5 (wire_spec demo_spec) = ConnectionSpec_isSocks5 demo_spec"
  using socks5_agreement [of demo_spec] by (simp add: demo_spec_def)

end
