(* ===== verification/Sock_Buffer.thy ===== *)
theory Sock_Buffer
  imports Posix
begin

text \<open>
  \<open>net/SockBuffer.h\<close> and \<open>net/SockBuffer.cpp\<close>: a byte queue between two descriptors with
  an output block of \<open>BUFFER_SIZE\<close> bytes in front of it.

  \<open>m_output_buf\<close> is the live part of the block, the bytes from \<open>m_output_position\<close> up to
  its end; what lies before the position has been written and is never looked at again. Sizes are
  below \<open>2^31\<close>, so that the code's conversions of \<open>m_queue.size()\<close> to \<open>int\<close> are exact.
\<close>

section \<open>State\<close>

definition SockBuffer_BUFFER_SIZE :: nat where
  "SockBuffer_BUFFER_SIZE = 4096"

record sock_buffer =
  sb_queue :: bytes
  m_output_buf :: bytes
  m_output_position :: nat

definition SockBuffer_new :: sock_buffer where
  "SockBuffer_new =
     \<lparr>sb_queue = [], m_output_buf = [], m_output_position = SockBuffer_BUFFER_SIZE\<rparr>"

section \<open>Operations\<close>

text \<open>
  The virtual \<open>processReadData\<close> is a parameter of \<open>readData\<close>: it sees each block of
  bytes read, may throw, and may change the object it belongs to (\<open>'h\<close>) and the world. This is
  the default, which does nothing.
\<close>

definition SockBuffer_processReadData :: "bytes \<Rightarrow> 'h \<times> 'w \<Rightarrow> ('h \<times> 'w) res" where
  "SockBuffer_processReadData bs = Inr"

text \<open>One \<open>read\<close> of the loop, with the errors that count as nothing read.\<close>

definition SockBuffer_read1 ::
  "('w, 'o) posix_scheme \<Rightarrow> c_int \<Rightarrow> 'w \<Rightarrow> (bytes \<times> 'w) res" where
  "SockBuffer_read1 os f w =
     (case sys_read os f SockBuffer_BUFFER_SIZE w of
        (Inl e, w') \<Rightarrow>
          if e = EAGAIN \<or> e = EHOSTUNREACH \<or> e = ECONNRESET then Inr ([], w')
          else Inl (MyExceptionErrno e)
      | (Inr bs, w') \<Rightarrow> Inr (bs, w'))"

text \<open>The \<open>do ... while (read_count == BUFFER_SIZE)\<close> loop; the first argument bounds its rounds.\<close>

fun SockBuffer_readLoop ::
  "nat \<Rightarrow> ('w, 'o) posix_scheme \<Rightarrow> (bytes \<Rightarrow> 'h \<times> 'w \<Rightarrow> ('h \<times> 'w) res) \<Rightarrow> c_int \<Rightarrow>
     nat \<Rightarrow> sock_buffer \<Rightarrow> 'h \<Rightarrow> 'w \<Rightarrow> (nat \<times> sock_buffer \<times> 'h \<times> 'w) res" where
  "SockBuffer_readLoop 0 os process f read_total s h w = Inl OutOfFuel"
| "SockBuffer_readLoop (Suc n) os process f read_total s h w =
     bindE (SockBuffer_read1 os f w) (\<lambda>(bs, w).
     bindE (process bs (h, w)) (\<lambda>(h, w).
       let s = s\<lparr>sb_queue := sb_queue s @ bs\<rparr>;
           read_total = read_total + length bs
       in if length bs = SockBuffer_BUFFER_SIZE
          then SockBuffer_readLoop n os process f read_total s h w
          else Inr (read_total, s, h, w)))"

definition SockBuffer_readData ::
  "nat \<Rightarrow> ('w, 'o) posix_scheme \<Rightarrow> (bytes \<Rightarrow> 'h \<times> 'w \<Rightarrow> ('h \<times> 'w) res) \<Rightarrow> c_int \<Rightarrow>
     sock_buffer \<Rightarrow> 'h \<Rightarrow> 'w \<Rightarrow> (nat \<times> sock_buffer \<times> 'h \<times> 'w) res" where
  "SockBuffer_readData fuel os process f s h w = SockBuffer_readLoop fuel os process f 0 s h w"

text \<open>The loop that moves \<open>fill_size\<close> bytes from the queue to the end of the block.\<close>

fun SockBuffer_fillLoop :: "nat \<Rightarrow> sock_buffer \<Rightarrow> sock_buffer" where
  "SockBuffer_fillLoop 0 s = s"
| "SockBuffer_fillLoop (Suc fill_size) s =
     SockBuffer_fillLoop fill_size
       (s\<lparr>m_output_buf := m_output_buf s @ [hd (sb_queue s)], sb_queue := tl (sb_queue s)\<rparr>)"

definition SockBuffer_refill :: "sock_buffer \<Rightarrow> sock_buffer" where
  "SockBuffer_refill s =
     (if m_output_position s = SockBuffer_BUFFER_SIZE
      then let fill_size = length (sb_queue s);
               fill_size = (if fill_size > SockBuffer_BUFFER_SIZE then SockBuffer_BUFFER_SIZE
                            else fill_size)
           in SockBuffer_fillLoop fill_size
                (s\<lparr>m_output_position := m_output_position s - fill_size\<rparr>)
      else s)"

text \<open>\<open>processWrittenData\<close> is never overridden and does nothing.\<close>

definition SockBuffer_writeData ::
  "('w, 'o) posix_scheme \<Rightarrow> c_int \<Rightarrow> sock_buffer \<Rightarrow> 'w \<Rightarrow> (nat \<times> sock_buffer \<times> 'w) res" where
  "SockBuffer_writeData os f s w =
     (let s = SockBuffer_refill s in
      case sys_write os f (m_output_buf s) w of
        (Inl e, _) \<Rightarrow> Inl (MyExceptionErrno e)
      | (Inr write_count, w') \<Rightarrow>
          Inr (write_count,
               s\<lparr>m_output_position := m_output_position s + write_count,
                 m_output_buf := drop write_count (m_output_buf s)\<rparr>, w'))"

definition SockBuffer_getCopyOfBuffer :: "sock_buffer \<Rightarrow> bytes \<times> nat" where
  "SockBuffer_getCopyOfBuffer s = (sb_queue s, length (sb_queue s))"

definition SockBuffer_pushOnBuffer :: "bytes \<Rightarrow> sock_buffer \<Rightarrow> sock_buffer" where
  "SockBuffer_pushOnBuffer bs s = s\<lparr>sb_queue := sb_queue s @ bs\<rparr>"

definition SockBuffer_unsentData :: "sock_buffer \<Rightarrow> bool" where
  "SockBuffer_unsentData s \<longleftrightarrow> m_output_position s \<noteq> SockBuffer_BUFFER_SIZE \<or> sb_queue s \<noteq> []"

definition SockBuffer_clear :: "sock_buffer \<Rightarrow> sock_buffer" where
  "SockBuffer_clear s =
     s\<lparr>m_output_position := SockBuffer_BUFFER_SIZE, m_output_buf := [], sb_queue := []\<rparr>"

section \<open>Abstraction: a FIFO of bytes\<close>

definition sb_inv :: "sock_buffer \<Rightarrow> bool" where
  "sb_inv s \<longleftrightarrow> m_output_position s \<le> SockBuffer_BUFFER_SIZE \<and>
     length (m_output_buf s) = SockBuffer_BUFFER_SIZE - m_output_position s"

definition sb_content :: "sock_buffer \<Rightarrow> bytes" where
  "sb_content s = m_output_buf s @ sb_queue s"

lemma sb_new [simp]: "sb_inv SockBuffer_new" "sb_content SockBuffer_new = []"
  by (simp_all add: sb_inv_def sb_content_def SockBuffer_new_def)

lemma sb_clear [simp]: "sb_inv (SockBuffer_clear s)" "sb_content (SockBuffer_clear s) = []"
  by (simp_all add: sb_inv_def sb_content_def SockBuffer_clear_def)

lemma sb_push [simp]:
  "sb_inv (SockBuffer_pushOnBuffer bs s) = sb_inv s"
  "sb_content (SockBuffer_pushOnBuffer bs s) = sb_content s @ bs"
  by (simp_all add: sb_inv_def sb_content_def SockBuffer_pushOnBuffer_def)

lemma unsentData_iff: "sb_inv s \<Longrightarrow> SockBuffer_unsentData s \<longleftrightarrow> sb_content s \<noteq> []"
  by (auto simp: sb_inv_def sb_content_def SockBuffer_unsentData_def)

text \<open>The byte by byte loop is a cut of the queue.\<close>

lemma fillLoop_eq:
  "n \<le> length (sb_queue s) \<Longrightarrow>
     SockBuffer_fillLoop n s =
       s\<lparr>m_output_buf := m_output_buf s @ take n (sb_queue s), sb_queue := drop n (sb_queue s)\<rparr>"
proof (induction n arbitrary: s)
  case 0
  then show ?case by simp
next
  case (Suc n)
  then obtain x q where "sb_queue s = x # q"
    by (cases "sb_queue s") auto
  with Suc show ?case by simp
qed

lemma refill_props:
  assumes "sb_inv s"
  shows "sb_content (SockBuffer_refill s) = sb_content s" "sb_inv (SockBuffer_refill s)"
    and "sb_content s \<noteq> [] \<Longrightarrow> m_output_buf (SockBuffer_refill s) \<noteq> []"
  using assms
  by (auto simp: SockBuffer_refill_def Let_def fillLoop_eq sb_content_def sb_inv_def
      SockBuffer_BUFFER_SIZE_def)

lemma writeData_eq:
  "SockBuffer_writeData os f s w = Inr (k, s', w') \<longleftrightarrow>
     sys_write os f (m_output_buf (SockBuffer_refill s)) w = (Inr k, w') \<and>
     s' = (SockBuffer_refill s)\<lparr>m_output_position := m_output_position (SockBuffer_refill s) + k,
            m_output_buf := drop k (m_output_buf (SockBuffer_refill s))\<rparr>"
  by (auto simp: SockBuffer_writeData_def Let_def split: prod.splits sum.splits)

lemma writeData_moves:
  assumes "posix_write os f out" "sb_inv s" "SockBuffer_writeData os f s w = Inr (k, s', w')"
  shows "out w' @ sb_content s' = out w @ sb_content s" "sb_inv s'"
    and "sb_content s' = drop k (sb_content s)" "k \<le> SockBuffer_BUFFER_SIZE"
proof -
  define r where "r = SockBuffer_refill s"
  from assms(3) have wr: "sys_write os f (m_output_buf r) w = (Inr k, w')"
    and s': "s' = r\<lparr>m_output_position := m_output_position r + k,
      m_output_buf := drop k (m_output_buf r)\<rparr>"
    by (auto simp: writeData_eq r_def)
  note p = posix_write_Inr [OF assms(1) wr]
  note r = refill_props(1,2) [OF assms(2), folded r_def]
  have c: "sb_content s' = drop k (sb_content r)"
    using p(1) by (simp add: s' sb_content_def)
  show "out w' @ sb_content s' = out w @ sb_content s"
    using p(2) r(1) by (simp add: s' sb_content_def) (metis append_assoc append_take_drop_id)
  show "sb_content s' = drop k (sb_content s)"
    by (simp add: c r(1))
  show "sb_inv s'" "k \<le> SockBuffer_BUFFER_SIZE"
    using p(1) r(2) by (auto simp: s' sb_inv_def)
qed

section \<open>SockBuffer as an output buffer\<close>

definition SockBuffer_drain ::
  "('w, 'o) posix_scheme \<Rightarrow> c_int \<Rightarrow> sock_buffer \<times> 'w \<Rightarrow> (sock_buffer \<times> 'w) res" where
  "SockBuffer_drain os f = (\<lambda>(s, w).
     bindE (SockBuffer_writeData os f s w) (\<lambda>(_, s', w'). Inr (s', w')))"

interpretation sbb: out_buffer sb_content sb_inv SockBuffer_drain
proof (unfold_locales, goal_cases)
  case (1 os f out b w b' w')
  then show ?case
    by (auto simp: SockBuffer_drain_def exn_simps dest: writeData_moves)
next
  case (2 os f out b w)
  define r where "r = SockBuffer_refill b"
  obtain k w' where wr: "sys_write os f (m_output_buf r) w = (Inr k, w')"
    and k: "m_output_buf r \<noteq> [] \<Longrightarrow> 0 < k"
    using write_readyE [OF 2(2)] by metis
  then obtain b' where d: "SockBuffer_writeData os f b w = Inr (k, b', w')"
    by (auto simp: writeData_eq r_def)
  have "length (sb_content b') \<le> length (sb_content b) - 1"
    using writeData_moves(3) [OF 2(1,3) d] refill_props(3) [OF 2(3), folded r_def] k
    by (cases "sb_content b = []") (auto intro: diff_le_mono2)
  with d show ?case
    by (simp add: SockBuffer_drain_def)
qed

section \<open>readData\<close>

lemma read1_moves:
  assumes "posix_read os f inp" "SockBuffer_read1 os f w = Inr (bs, w')"
  shows "inp w = bs @ inp w'" "length bs \<le> SockBuffer_BUFFER_SIZE"
  using assms
  by (auto simp: SockBuffer_read1_def dest: posix_read_Inr posix_read_Inl
      split: prod.splits sum.splits if_splits)

text \<open>What \<open>processReadData\<close> must leave alone: the input still to come.\<close>

definition hook_keeps :: "('w \<Rightarrow> bytes) \<Rightarrow> (bytes \<Rightarrow> 'h \<times> 'w \<Rightarrow> ('h \<times> 'w) res) \<Rightarrow> bool" where
  "hook_keeps inp process \<longleftrightarrow>
     (\<forall>bs h w h' w'. process bs (h, w) = Inr (h', w') \<longrightarrow> inp w' = inp w) \<and>
     (\<forall>bs hw. process bs hw \<noteq> Inl OutOfFuel)"

lemma default_hook_keeps [simp]: "hook_keeps inp SockBuffer_processReadData"
  by (simp add: hook_keeps_def SockBuffer_processReadData_def)

lemma readLoop_appends:
  assumes "posix_read os f inp" "hook_keeps inp process"
    and "SockBuffer_readLoop n os process f t s h w = Inr (t', s', h', w')"
  shows "\<exists>bs. inp w = bs @ inp w' \<and> t' = t + length bs \<and> s' = SockBuffer_pushOnBuffer bs s"
  using assms(3)
proof (induction n arbitrary: t s h w)
  case 0
  then show ?case by simp
next
  case (Suc n)
  from Suc.prems obtain bs w1 h2 w2 where rd: "SockBuffer_read1 os f w = Inr (bs, w1)"
    and pr: "process bs (h, w1) = Inr (h2, w2)"
    and rest: "(if length bs = SockBuffer_BUFFER_SIZE
       then SockBuffer_readLoop n os process f (t + length bs) (SockBuffer_pushOnBuffer bs s) h2 w2
       else Inr (t + length bs, SockBuffer_pushOnBuffer bs s, h2, w2)) = Inr (t', s', h', w')"
    unfolding SockBuffer_pushOnBuffer_def by (auto simp: exn_simps Let_def)
  have inp: "inp w = bs @ inp w2"
    using read1_moves(1) [OF assms(1) rd] pr assms(2) by (auto simp: hook_keeps_def)
  show ?case
  proof (cases "length bs = SockBuffer_BUFFER_SIZE")
    case True
    with rest Suc.IH obtain cs where "inp w2 = cs @ inp w'" "t' = t + length bs + length cs"
      "s' = SockBuffer_pushOnBuffer cs (SockBuffer_pushOnBuffer bs s)"
      by fastforce
    with inp show ?thesis
      by (intro exI [of _ "bs @ cs"]) (simp add: SockBuffer_pushOnBuffer_def)
  next
    case False
    with rest inp show ?thesis by auto
  qed
qed

lemma readLoop_fuel:
  assumes "posix_read os f inp" "hook_keeps inp process"
  shows "length (inp w) < n * SockBuffer_BUFFER_SIZE \<Longrightarrow>
    SockBuffer_readLoop n os process f t s h w \<noteq> Inl OutOfFuel"
proof (induction n arbitrary: t s h w)
  case 0
  then show ?case by simp
next
  case (Suc n)
  show ?case
  proof
    assume "SockBuffer_readLoop (Suc n) os process f t s h w = Inl OutOfFuel"
    moreover have "SockBuffer_read1 os f w \<noteq> Inl OutOfFuel"
      by (auto simp: SockBuffer_read1_def split: prod.splits sum.splits)
    ultimately obtain bs w1 h2 w2 t2 s2 where rd: "SockBuffer_read1 os f w = Inr (bs, w1)"
      and pr: "process bs (h, w1) = Inr (h2, w2)" and full: "length bs = SockBuffer_BUFFER_SIZE"
      and rest: "SockBuffer_readLoop n os process f t2 s2 h2 w2 = Inl OutOfFuel"
      using assms(2) by (auto simp: exn_simps hook_keeps_def Let_def split: if_splits)
    have "inp w = bs @ inp w2"
      using read1_moves(1) [OF assms(1) rd] pr assms(2) by (auto simp: hook_keeps_def)
    with Suc.prems full have "length (inp w2) < n * SockBuffer_BUFFER_SIZE"
      by simp
    with Suc.IH rest show False by blast
  qed
qed

section \<open>Properties\<close>

text \<open>C18: Bytes pushed on a \<open>SockBuffer\<close> come out of it in order, once and all: repeated calls of
  \<open>writeData\<close> on a descriptor that accepts bytes deliver the old content followed by the pushed
  bytes and leave no unsent data.\<close>

theorem SockBuffer_delivers_pushed:
  assumes "posix_write os f out" "write_ready os f" "sb_inv s"
  shows "\<exists>s' w'. iterE (length (sb_content s) + length bs) (SockBuffer_drain os f)
      (SockBuffer_pushOnBuffer bs s, w) = Inr (s', w') \<and>
    \<not> SockBuffer_unsentData s' \<and> out w' = out w @ sb_content s @ bs"
proof -
  let ?s = "SockBuffer_pushOnBuffer bs s"
  have inv: "sb_inv ?s"
    using assms(3) by simp
  obtain s' w' where d: "iterE (length (sb_content s) + length bs) (SockBuffer_drain os f) (?s, w) = Inr (s', w')"
    "sb_content s' = []" "out w' = out w @ sb_content s @ bs"
    using sbb.drains_deliver_all [OF assms(1,2) inv, of w] by auto
  have "(\<lambda>(c, _). sb_inv c) (s', w')"
    by (rule iterE_invariant [where P = "\<lambda>(c, _). sb_inv c", OF _ _ d(1)])
      (use inv sbb.drain_moves [OF assms(1)] in auto)
  with d show ?thesis
    by (auto simp: unsentData_iff)
qed

theorem SockBuffer_delivers_pushed_witness:
  "\<exists>s' w'. iterE 3 (SockBuffer_drain (pipe_os 2) 1)
      (SockBuffer_pushOnBuffer [7, 8, 9] SockBuffer_new, \<lparr>pw_in = [], pw_out = [], pw_closed = []\<rparr>) = Inr (s', w') \<and>
    \<not> SockBuffer_unsentData s' \<and> pw_out w' = [7, 8, 9]"
  using SockBuffer_delivers_pushed [where os = "pipe_os 2" and f = 1 and out = pw_out
      and s = SockBuffer_new and bs = "[7, 8, 9]" and w = "\<lparr>pw_in = [], pw_out = [], pw_closed = []\<rparr>"]
  by (simp add: pipe_os_write pipe_os_write_ready numeral_3_eq_3 del: iterE.simps)

text \<open>\<open>writeData\<close> keeps the invariant of the block and its position, moves at most
  \<open>BUFFER_SIZE\<close> bytes, and what it returns is the number of bytes that left the front of the
  buffer.\<close>

theorem SockBuffer_writeData_correct:
  assumes "posix_write os f out" "sb_inv s" "SockBuffer_writeData os f s w = Inr (k, s', w')"
  shows "sb_inv s' \<and> k \<le> SockBuffer_BUFFER_SIZE \<and> sb_content s' = drop k (sb_content s) \<and>
    out w' @ sb_content s' = out w @ sb_content s"
  using writeData_moves [OF assms] by blast

theorem SockBuffer_writeData_correct_witness:
  "\<exists>s' w'. SockBuffer_writeData (pipe_os 2) 1 (SockBuffer_pushOnBuffer [7, 8, 9] SockBuffer_new)
      \<lparr>pw_in = [], pw_out = [], pw_closed = []\<rparr> = Inr (2, s', w') \<and> sb_inv s' \<and> sb_content s' = [9]"
proof -
  let ?s = "SockBuffer_pushOnBuffer [7, 8, 9] SockBuffer_new"
  obtain s' w' where
    d: "SockBuffer_writeData (pipe_os 2) 1 ?s \<lparr>pw_in = [], pw_out = [], pw_closed = []\<rparr> = Inr (2, s', w')"
    by (simp add: SockBuffer_writeData_def pipe_os_def Let_def SockBuffer_refill_def fillLoop_eq
        SockBuffer_new_def SockBuffer_pushOnBuffer_def SockBuffer_BUFFER_SIZE_def)
  have "sb_inv ?s"
    by simp
  from SockBuffer_writeData_correct [OF pipe_os_write this d] d show ?thesis
    by auto
qed

text \<open>\<open>readData\<close> ends whenever the input to come is finite, and then it has appended to the
  queue exactly the bytes it took off the input, in order, and returns their number; its only
  other outcome is an exception of \<open>read\<close> or of the processing hook.\<close>

theorem SockBuffer_readData_appends:
  assumes "posix_read os f inp" "hook_keeps inp process" "length (inp w) < fuel * SockBuffer_BUFFER_SIZE"
  shows "case SockBuffer_readData fuel os process f s h w of
      Inl e \<Rightarrow> e \<noteq> OutOfFuel
    | Inr (n, s', h', w') \<Rightarrow> \<exists>bs. inp w = bs @ inp w' \<and> n = length bs \<and> s' = SockBuffer_pushOnBuffer bs s"
  using readLoop_fuel [OF assms] readLoop_appends [OF assms(1,2), of fuel 0 s h w]
  by (auto simp: SockBuffer_readData_def split: sum.splits)

theorem SockBuffer_readData_appends_witness:
  "case SockBuffer_readData 1 (pipe_os 5) SockBuffer_processReadData 0 SockBuffer_new ()
      \<lparr>pw_in = [1, 2], pw_out = [], pw_closed = []\<rparr> of
    Inl e \<Rightarrow> e \<noteq> OutOfFuel
  | Inr (n, s', h', w') \<Rightarrow> \<exists>bs. [1, 2] = bs @ pw_in w' \<and> n = length bs \<and> s' = SockBuffer_pushOnBuffer bs SockBuffer_new"
  using SockBuffer_readData_appends [OF pipe_os_read [where q = 5 and f = 0] default_hook_keeps,
      where w = "\<lparr>pw_in = [1, 2], pw_out = [], pw_closed = []\<rparr>" and fuel = 1
        and s = SockBuffer_new and h = "()"]
  by (auto simp: SockBuffer_BUFFER_SIZE_def split: sum.splits)

end
