(* ===== verification/Event_Poller.thy ===== *)
theory Event_Poller
  imports Posix
begin

text \<open>
  \<open>net/Poller.h\<close> and \<open>net/Poller.cpp\<close>: the event loop. A registered object is named by a
  reference of type \<open>'p\<close>; its virtual functions \<open>polled\<close>, \<open>setPollfd\<close> and
  \<open>cleanup\<close> are parameters of the operations that call them, functions on the whole program
  state, which extends the poller's record. An entry of the table is a heap object
  (\<open>shared_ptr<PolledAndPollfd>\<close>): it has an address, and the \<open>pollfd&\<close> a handler gets is
  that address, so that a handler which changes or erases its own entry is modelled as it is.
\<close>

section \<open>State\<close>

record 'p polled_and_pollfd =
  e_addr :: nat
  e_polled :: 'p
  e_pollfd :: pollfd

text \<open>
  \<open>m_pollfds\<close> is scratch space filled anew by each \<open>pollOnce\<close>; its size is kept.
  \<open>m_next_addr\<close> is the allocator's next fresh address.
\<close>

record ('p, 'w) poller =
  world :: 'w
  m_polled :: "'p polled_and_pollfd list"
  m_pollfds_size :: nat
  m_orig_size :: c_int
  m_index :: c_int
  m_timeout :: c_int
  m_finishing :: bool
  m_callback :: bool
  m_next_addr :: nat

definition Poller_INITIAL_SIZE :: nat where
  "Poller_INITIAL_SIZE = 10"

text \<open>The constructor leaves \<open>m_orig_size\<close> and \<open>m_index\<close> as the memory has them.\<close>

definition Poller_new :: "c_int \<Rightarrow> c_int \<Rightarrow> 'w \<Rightarrow> ('p, 'w) poller" where
  "Poller_new junk1 junk2 w =
     \<lparr>world = w, m_polled = [], m_pollfds_size = Poller_INITIAL_SIZE, m_orig_size = junk1,
      m_index = junk2, m_timeout = -1, m_finishing = False, m_callback = False, m_next_addr = 0\<rparr>"

section \<open>The table\<close>

fun Poller_findPolled :: "'p \<Rightarrow> c_int \<Rightarrow> 'p polled_and_pollfd list \<Rightarrow> nat option" where
  "Poller_findPolled p f [] = None"
| "Poller_findPolled p f (e # es) =
     (if e_polled e = p \<and> fd (e_pollfd e) = f then Some 0
      else map_option Suc (Poller_findPolled p f es))"

definition Poller_setEvents ::
  "'p \<Rightarrow> c_int \<Rightarrow> short \<Rightarrow> ('p, 'w, 'a) poller_scheme \<Rightarrow> ('p, 'w, 'a) poller_scheme" where
  "Poller_setEvents p f ev s =
     (case Poller_findPolled p f (m_polled s) of
        None \<Rightarrow> s
      | Some i \<Rightarrow>
          let e = m_polled s ! i
          in s\<lparr>m_polled := (m_polled s)[i := e\<lparr>e_pollfd := (e_pollfd e)\<lparr>events := ev\<rparr>\<rparr>]\<rparr>)"

definition Poller_removePolled ::
  "'p \<Rightarrow> c_int \<Rightarrow> ('p, 'w, 'a) poller_scheme \<Rightarrow> ('p, 'w, 'a) poller_scheme" where
  "Poller_removePolled p f s =
     (case Poller_findPolled p f (m_polled s) of
        None \<Rightarrow> s
      | Some i \<Rightarrow>
          let s = (if int i < m_orig_size s then s\<lparr>m_orig_size := m_orig_size s - 1\<rparr> else s);
              s = (if int i \<le> m_index s then s\<lparr>m_index := m_index s - 1\<rparr> else s)
          in s\<lparr>m_polled := take i (m_polled s) @ drop (Suc i) (m_polled s)\<rparr>)"

text \<open>
  A new entry is zeroed (\<open>make_shared\<close> value-initialises it) and then set up by its object. The code puts it into
  the table first; no \<open>setPollfd\<close> of the program looks at the table, and what is left of it after an exception is
  not seen by anyone, so the order makes no difference.
\<close>

definition Poller_addPolled ::
  "('p \<Rightarrow> pollfd \<Rightarrow> ('p, 'w, 'a) poller_scheme \<Rightarrow> (pollfd \<times> ('p, 'w, 'a) poller_scheme) res) \<Rightarrow>
     'p \<Rightarrow> ('p, 'w, 'a) poller_scheme \<Rightarrow> ('p, 'w, 'a) poller_scheme res" where
  "Poller_addPolled setPollfd p s =
     bindE (setPollfd p \<lparr>fd = 0, events = 0, revents = 0\<rparr> s) (\<lambda>(ps, s).
       Inr (s\<lparr>m_polled := m_polled s @ [\<lparr>e_addr = m_next_addr s, e_polled = p, e_pollfd = ps\<rparr>],
              m_next_addr := Suc (m_next_addr s)\<rparr>))"

text \<open>The \<open>pollfd&\<close> a handler holds: reading through it, and storing through it.\<close>

definition Poller_deref :: "nat \<Rightarrow> ('p, 'w, 'a) poller_scheme \<Rightarrow> pollfd res" where
  "Poller_deref a s =
     (case find (\<lambda>e. e_addr e = a) (m_polled s) of
        None \<Rightarrow> Inl (Undefined DanglingPollfd)
      | Some e \<Rightarrow> Inr (e_pollfd e))"

definition Poller_storeEvents ::
  "nat \<Rightarrow> short \<Rightarrow> ('p, 'w, 'a) poller_scheme \<Rightarrow> ('p, 'w, 'a) poller_scheme" where
  "Poller_storeEvents a ev s =
     s\<lparr>m_polled := map (\<lambda>e. if e_addr e = a then e\<lparr>e_pollfd := (e_pollfd e)\<lparr>events := ev\<rparr>\<rparr> else e)
                       (m_polled s)\<rparr>"

definition Poller_setTimeout :: "c_int \<Rightarrow> ('p, 'w, 'a) poller_scheme \<Rightarrow> ('p, 'w, 'a) poller_scheme" where
  "Poller_setTimeout t s = s\<lparr>m_timeout := t\<rparr>"

definition Poller_requestFinish :: "('p, 'w, 'a) poller_scheme \<Rightarrow> ('p, 'w, 'a) poller_scheme" where
  "Poller_requestFinish s = s\<lparr>m_finishing := True\<rparr>"

definition Poller_isFinished :: "('p, 'w, 'a) poller_scheme \<Rightarrow> bool" where
  "Poller_isFinished s = m_finishing s"

section \<open>One round\<close>

type_synonym ('p, 'w, 'a) handler =
  "'p \<Rightarrow> nat \<Rightarrow> ('p, 'w, 'a) poller_scheme \<Rightarrow> ('p, 'w, 'a) poller_scheme res"

text \<open>
  \<open>while (m_size < m_orig_size) m_size *= 2;\<close> The size starts at ten and is only doubled;
  at zero the loop would not end, which the guard keeps out of the definition.
\<close>

function Poller_growSize :: "nat \<Rightarrow> nat \<Rightarrow> nat" where
  "Poller_growSize sz orig = (if sz < orig \<and> 0 < sz then Poller_growSize (sz * 2) orig else sz)"
  by pat_completeness auto
termination
  by (relation "measure (\<lambda>(sz, orig). orig - sz)") auto

declare Poller_growSize.simps [simp del]

text \<open>
  \<open>for (m_index = 0; m_index < m_orig_size; m_index++)\<close>; the first argument bounds the
  rounds. The bound \<open>m_orig_size\<close> at the start is always enough for handlers that use the
  operations of the poller only (\<open>dispatch_throws\<close> below).
\<close>

fun Poller_dispatch ::
  "nat \<Rightarrow> ('p, 'w, 'a) handler \<Rightarrow> ('p, 'w, 'a) poller_scheme \<Rightarrow> ('p, 'w, 'a) poller_scheme res" where
  "Poller_dispatch fuel polled s =
     (if m_index s < m_orig_size s
      then (case fuel of
              0 \<Rightarrow> Inl OutOfFuel
            | Suc n \<Rightarrow>
                if 0 \<le> m_index s \<and> nat (m_index s) < length (m_polled s)
                then let e = m_polled s ! nat (m_index s) in
                  bindE (if revents (e_pollfd e) \<noteq> 0 then polled (e_polled e) (e_addr e) s else Inr s)
                    (\<lambda>s. Poller_dispatch n polled (s\<lparr>m_index := m_index s + 1\<rparr>))
                else Inl (Undefined BadIterator))
      else Inr s)"

declare Poller_dispatch.simps [simp del]

definition Poller_pollOnce ::
  "('w, 'o) posix_scheme \<Rightarrow> ('p, 'w, 'a) handler \<Rightarrow> ('p, 'w, 'a) poller_scheme \<Rightarrow>
     (c_int \<times> ('p, 'w, 'a) poller_scheme) res" where
  "Poller_pollOnce os polled s =
     (let n = length (m_polled s);
          s = s\<lparr>m_orig_size := int n, m_pollfds_size := Poller_growSize (m_pollfds_size s) n\<rparr>
      in case sys_poll os (map e_pollfd (m_polled s)) (m_timeout s) (world s) of
           (Inl e, w) \<Rightarrow>
             if e \<noteq> EINTR then Inl (MyExceptionErrno e) else Inr (-1, s\<lparr>world := w\<rparr>)
         | (Inr (poll_result, fds), w) \<Rightarrow>
             if 0 < poll_result
             then bindE (Poller_dispatch n polled
                    (s\<lparr>world := w, m_index := 0,
                       m_polled := map (\<lambda>(e, p). e\<lparr>e_pollfd := p\<rparr>) (zip (m_polled s) fds)\<rparr>))
                    (\<lambda>s. Inr (int poll_result, s))
             else Inr (int poll_result, s\<lparr>world := w\<rparr>))"

section \<open>The loop\<close>

text \<open>
  \<open>while (!m_finishing) { if (pollOnce() == 0) return; callback }\<close>, bounded by fuel: the
  program runs this loop until it is asked to stop. The flag says whether the clean-up pass
  follows.
\<close>

fun Poller_loop ::
  "nat \<Rightarrow> ('w, 'o) posix_scheme \<Rightarrow> ('p, 'w, 'a) handler \<Rightarrow>
     (('p, 'w, 'a) poller_scheme \<Rightarrow> ('p, 'w, 'a) poller_scheme) \<Rightarrow>
     ('p, 'w, 'a) poller_scheme \<Rightarrow> (bool \<times> ('p, 'w, 'a) poller_scheme) res" where
  "Poller_loop fuel os polled pollCallback s =
     (if m_finishing s then Inr (True, s)
      else (case fuel of
              0 \<Rightarrow> Inl OutOfFuel
            | Suc n \<Rightarrow>
                bindE (Poller_pollOnce os polled s) (\<lambda>(r, s).
                  if r = 0 then Inr (False, s)
                  else Poller_loop n os polled pollCallback (if m_callback s then pollCallback s else s))))"

declare Poller_loop.simps [simp del]

text \<open>The clean-up pass; the length of the table bounds its turns.\<close>

fun Poller_cleanupAll ::
  "nat \<Rightarrow> ('p \<Rightarrow> pollfd \<Rightarrow> ('p, 'w, 'a) poller_scheme \<Rightarrow> ('p, 'w, 'a) poller_scheme res) \<Rightarrow>
     ('p, 'w, 'a) poller_scheme \<Rightarrow> ('p, 'w, 'a) poller_scheme res" where
  "Poller_cleanupAll 0 cleanup s = Inr s"
| "Poller_cleanupAll (Suc n) cleanup s =
     (if 0 \<le> m_index s \<and> nat (m_index s) < length (m_polled s)
      then let e = m_polled s ! nat (m_index s) in
        bindE (cleanup (e_polled e) (e_pollfd e) s) (\<lambda>s.
          Poller_cleanupAll n cleanup (s\<lparr>m_index := m_index s + 1\<rparr>))
      else Inr s)"

definition Poller_start ::
  "nat \<Rightarrow> ('w, 'o) posix_scheme \<Rightarrow> ('p, 'w, 'a) handler \<Rightarrow>
     (('p, 'w, 'a) poller_scheme \<Rightarrow> ('p, 'w, 'a) poller_scheme) \<Rightarrow>
     ('p \<Rightarrow> pollfd \<Rightarrow> ('p, 'w, 'a) poller_scheme \<Rightarrow> ('p, 'w, 'a) poller_scheme res) \<Rightarrow>
     ('p, 'w, 'a) poller_scheme \<Rightarrow> ('p, 'w, 'a) poller_scheme res" where
  "Poller_start fuel os polled pollCallback cleanup s =
     (if m_polled s = [] then Inr s
      else if m_finishing s then Inl (MyException ''Starting while finished'')
      else bindE (Poller_loop fuel os polled pollCallback s) (\<lambda>(finished, s).
             if finished
             then Poller_cleanupAll (length (m_polled s)) cleanup (s\<lparr>m_index := 0\<rparr>)
             else Inr s))"

section \<open>The table as a map from registered descriptors to requested events\<close>

definition keys :: "('p, 'w, 'a) poller_scheme \<Rightarrow> ('p \<times> c_int) list" where
  "keys s = map (\<lambda>e. (e_polled e, fd (e_pollfd e))) (m_polled s)"

lemma findPolled_Some:
  "Poller_findPolled p f es = Some i \<Longrightarrow>
     i < length es \<and> e_polled (es ! i) = p \<and> fd (e_pollfd (es ! i)) = f"
  by (induction es arbitrary: i) (auto split: if_splits)

lemma findPolled_None_iff:
  "Poller_findPolled p f es = None \<longleftrightarrow> (p, f) \<notin> (\<lambda>e. (e_polled e, fd (e_pollfd e))) ` set es"
  by (induction es) auto

text \<open>The events asked for, by object and descriptor.\<close>

fun entry_map :: "'p polled_and_pollfd list \<Rightarrow> ('p \<times> c_int) \<Rightarrow> short option" where
  "entry_map [] k = None"
| "entry_map (e # es) k =
     (if k = (e_polled e, fd (e_pollfd e)) then Some (events (e_pollfd e)) else entry_map es k)"

definition poller_map :: "('p, 'w, 'a) poller_scheme \<Rightarrow> ('p \<times> c_int) \<Rightarrow> short option" where
  "poller_map s = entry_map (m_polled s)"

lemma findPolled_None: "Poller_findPolled p f es = None \<longleftrightarrow> entry_map es (p, f) = None"
  by (induction es) auto

lemma entry_map_notin: "k \<notin> (\<lambda>e. (e_polled e, fd (e_pollfd e))) ` set es \<Longrightarrow> entry_map es k = None"
  by (induction es) auto

lemma entry_map_erase:
  "distinct (map (\<lambda>e. (e_polled e, fd (e_pollfd e))) es) \<Longrightarrow> Poller_findPolled p f es = Some i \<Longrightarrow>
     entry_map (take i es @ drop (Suc i) es) k = (if k = (p, f) then None else entry_map es k)"
proof (induction es arbitrary: i)
  case (Cons e es)
  then show ?case
    by (auto simp: entry_map_notin split: if_splits)
qed simp

lemma entry_map_update:
  "Poller_findPolled p f es = Some i \<Longrightarrow>
     entry_map (es[i := (es ! i)\<lparr>e_pollfd := (e_pollfd (es ! i))\<lparr>events := ev\<rparr>\<rparr>]) k =
       (if k = (p, f) then Some ev else entry_map es k)"
  by (induction es arbitrary: i) (auto split: if_splits)

lemma entry_map_append:
  "entry_map (es @ es') k = (case entry_map es k of None \<Rightarrow> entry_map es' k | Some ev \<Rightarrow> Some ev)"
  by (induction es) auto

text \<open>
  The interface the tunnel's objects rely on: asking for events changes that entry's request
  and nothing else, removal forgets one descriptor, and only registration adds one.
\<close>

locale interest_table =
  fixes look :: "'s \<Rightarrow> 'k \<Rightarrow> short option"
    and sete :: "'k \<Rightarrow> short \<Rightarrow> 's \<Rightarrow> 's"
    and rem :: "'k \<Rightarrow> 's \<Rightarrow> 's"
    and inv :: "'s \<Rightarrow> bool"
  assumes look_sete: "inv s \<Longrightarrow>
      look (sete k ev s) k' = (if k' = k \<and> look s k \<noteq> None then Some ev else look s k')"
    and look_rem: "inv s \<Longrightarrow> look (rem k s) k' = (if k' = k then None else look s k')"
    and inv_sete: "inv s \<Longrightarrow> inv (sete k ev s)"
    and inv_rem: "inv s \<Longrightarrow> inv (rem k s)"
begin

lemma sete_unregistered: "inv s \<Longrightarrow> look s k = None \<Longrightarrow> look (sete k ev s) = look s"
  by (rule ext) (simp add: look_sete)

lemma sete_last_wins:
  "inv s \<Longrightarrow> look s k \<noteq> None \<Longrightarrow> look (fold (sete k) (evs @ [ev]) s) k = Some ev"
proof (induction evs arbitrary: s)
  case Nil
  then show ?case by (simp add: look_sete)
next
  case (Cons e evs)
  then show ?case by (simp add: look_sete inv_sete)
qed

lemma rem_is_final:
  "inv s \<Longrightarrow> look (fold (sete k) evs (rem k s)) k = None"
proof -
  have "look t k = None \<Longrightarrow> inv t \<Longrightarrow> look (fold (sete k) evs t) k = None" for t
    by (induction evs arbitrary: t) (simp_all add: look_sete inv_sete)
  then show "inv s \<Longrightarrow> ?thesis"
    by (simp add: look_rem inv_rem)
qed

end

lemma setEvents_keys [simp]: "keys (Poller_setEvents p f ev s) = keys s"
proof (cases "Poller_findPolled p f (m_polled s)")
  case (Some i)
  then show ?thesis
    using findPolled_Some [OF Some]
    by (auto simp: Poller_setEvents_def keys_def Let_def map_update intro!: list_update_same_conv [THEN iffD2])
qed (simp add: Poller_setEvents_def)

lemma removePolled_map:
  assumes "distinct (keys s)"
  shows "poller_map (Poller_removePolled p f s) k = (if k = (p, f) then None else poller_map s k)"
  using assms entry_map_erase [of "m_polled s" p f _ k]
  by (auto simp: Poller_removePolled_def poller_map_def keys_def Let_def findPolled_None split: option.splits)

lemma removePolled_keys:
  "keys (Poller_removePolled p f s) =
     (case Poller_findPolled p f (m_polled s) of
        None \<Rightarrow> keys s | Some i \<Rightarrow> take i (keys s) @ drop (Suc i) (keys s))"
  by (auto simp: Poller_removePolled_def keys_def Let_def take_map drop_map split: option.splits)

lemma distinct_take_drop: "distinct xs \<Longrightarrow> distinct (take i xs @ drop (Suc i) xs)"
  by (metis distinct_append distinct_drop distinct_take set_take_disj_set_drop_if_distinct
      Suc_n_not_le_n less_or_eq_imp_le lessI)

lemma setEvents_map:
  "poller_map (Poller_setEvents p f ev s) k =
     (if k = (p, f) \<and> poller_map s (p, f) \<noteq> None then Some ev else poller_map s k)"
  using entry_map_update [of p f "m_polled s" _ ev k] findPolled_None [of p f "m_polled s"]
  by (auto simp: Poller_setEvents_def poller_map_def Let_def split: option.splits)

interpretation pollt: interest_table poller_map "\<lambda>(p, f). Poller_setEvents p f"
  "\<lambda>(p, f). Poller_removePolled p f" "\<lambda>s. distinct (keys s)"
proof (unfold_locales, goal_cases)
  case (1 s k ev k')
  then show ?case by (cases k) (simp add: setEvents_map)
next
  case (2 s k k')
  then show ?case by (cases k) (simp add: removePolled_map)
next
  case (3 s k ev)
  then show ?case by (cases k) simp
next
  case (4 s k)
  then show ?case
    by (cases k) (simp add: removePolled_keys distinct_take_drop del: distinct_append split: option.splits)
qed

section \<open>What handlers do to the table during a round\<close>

definition addrs :: "('p, 'w, 'a) poller_scheme \<Rightarrow> nat list" where
  "addrs s = map e_addr (m_polled s)"

text \<open>What a round sees of an entry besides the events it asks for.\<close>

definition ident :: "'p polled_and_pollfd \<Rightarrow> nat \<times> 'p \<times> c_int \<times> short" where
  "ident e = (e_addr e, e_polled e, fd (e_pollfd e), revents (e_pollfd e))"

text \<open>
  The steps by which the operations of the poller, and whatever a handler does elsewhere,
  change the table.
\<close>

inductive poller_step ::
  "('p, 'w, 'a) poller_scheme \<Rightarrow> ('p, 'w, 'a) poller_scheme \<Rightarrow> bool" where
  change: "map ident (m_polled s') = map ident (m_polled s) \<Longrightarrow> m_orig_size s' = m_orig_size s \<Longrightarrow>
     m_index s' = m_index s \<Longrightarrow> m_next_addr s' = m_next_addr s \<Longrightarrow> poller_step s s'"
| append: "m_polled s' = m_polled s @ [e] \<Longrightarrow> e_addr e = m_next_addr s \<Longrightarrow>
     m_orig_size s' = m_orig_size s \<Longrightarrow> m_index s' = m_index s \<Longrightarrow>
     m_next_addr s' = Suc (m_next_addr s) \<Longrightarrow> poller_step s s'"
| erase: "m_polled s = xs @ e # ys \<Longrightarrow> m_polled s' = xs @ ys \<Longrightarrow>
     m_orig_size s' = (if int (length xs) < m_orig_size s then m_orig_size s - 1 else m_orig_size s) \<Longrightarrow>
     m_index s' = (if int (length xs) \<le> m_index s then m_index s - 1 else m_index s) \<Longrightarrow>
     m_next_addr s' = m_next_addr s \<Longrightarrow> poller_step s s'"

abbreviation poller_steps ::
  "('p, 'w, 'a) poller_scheme \<Rightarrow> ('p, 'w, 'a) poller_scheme \<Rightarrow> bool" where
  "poller_steps \<equiv> poller_step\<^sup>*\<^sup>*"

lemma setEvents_idents [simp]:
  "map ident (m_polled (Poller_setEvents p f ev s)) = map ident (m_polled s)"
  by (cases "Poller_findPolled p f (m_polled s)")
    (auto simp: Poller_setEvents_def Let_def ident_def map_update dest!: findPolled_Some
      intro!: list_update_same_conv [THEN iffD2])

lemma setEvents_fields [simp]:
  "m_orig_size (Poller_setEvents p f ev s) = m_orig_size s" "m_index (Poller_setEvents p f ev s) = m_index s"
  "m_next_addr (Poller_setEvents p f ev s) = m_next_addr s" "world (Poller_setEvents p f ev s) = world s"
  "poller.more (Poller_setEvents p f ev s) = poller.more s"
  by (simp_all add: Poller_setEvents_def Let_def split: option.splits)

lemma removePolled_fields [simp]:
  "m_next_addr (Poller_removePolled p f s) = m_next_addr s" "world (Poller_removePolled p f s) = world s"
  "poller.more (Poller_removePolled p f s) = poller.more s"
  by (simp_all add: Poller_removePolled_def Let_def split: option.splits)

lemma setEvents_step: "poller_step s (Poller_setEvents p f ev s)"
  by (rule poller_step.change) simp_all

lemma storeEvents_step: "poller_step s (Poller_storeEvents a ev s)"
  by (rule poller_step.change) (auto simp: Poller_storeEvents_def ident_def)

lemma removePolled_step: "poller_steps s (Poller_removePolled p f s)"
proof (cases "Poller_findPolled p f (m_polled s)")
  case (Some i)
  then have i: "i < length (m_polled s)"
    by (simp add: findPolled_Some)
  have "poller_step s (Poller_removePolled p f s)"
    by (rule poller_step.erase [OF id_take_nth_drop [OF i]])
      (use i Some in \<open>auto simp: Poller_removePolled_def Let_def\<close>)
  then show ?thesis by blast
qed (simp add: Poller_removePolled_def)

lemma addPolled_step:
  assumes "Poller_addPolled setPollfd p s = Inr s'"
    and "\<And>ps t. setPollfd p \<lparr>fd = 0, events = 0, revents = 0\<rparr> s = Inr (ps, t) \<Longrightarrow> poller_steps s t"
  shows "poller_steps s s'"
proof -
  from assms(1) obtain ps t where "setPollfd p \<lparr>fd = 0, events = 0, revents = 0\<rparr> s = Inr (ps, t)"
    and s': "s' = t\<lparr>m_polled := m_polled t @ [\<lparr>e_addr = m_next_addr t, e_polled = p, e_pollfd = ps\<rparr>],
              m_next_addr := Suc (m_next_addr t)\<rparr>"
    by (auto simp: Poller_addPolled_def exn_simps)
  then have "poller_steps s t"
    using assms(2) by blast
  moreover have "poller_step t s'"
    by (rule poller_step.append [where e = "\<lparr>e_addr = m_next_addr t, e_polled = p, e_pollfd = ps\<rparr>"])
      (simp_all add: s')
  ultimately show ?thesis by simp
qed

text \<open>The invariant of a round in progress, and the entries still to be visited.\<close>

definition round_inv :: "('p, 'w, 'a) poller_scheme \<Rightarrow> bool" where
  "round_inv s \<longleftrightarrow> distinct (addrs s) \<and> (\<forall>a \<in> set (addrs s). a < m_next_addr s) \<and>
     -1 \<le> m_index s \<and> m_index s < m_orig_size s \<and> m_orig_size s \<le> int (length (m_polled s))"

definition todo :: "('p, 'w, 'a) poller_scheme \<Rightarrow> (nat \<times> 'p \<times> c_int \<times> short) list" where
  "todo s = drop (nat (m_index s + 1)) (take (nat (m_orig_size s)) (map ident (m_polled s)))"

text \<open>Erasing the entry at \<open>length xs\<close> from a window \<open>[k, n)\<close> whose bounds move as the code moves them.\<close>

lemma window_erase:
  assumes "k \<le> n" "n \<le> length (xs @ x # ys)"
  shows "drop (if length xs < k then k - 1 else k) (take (if length xs < n then n - 1 else n) (xs @ ys)) =
    (if k \<le> length xs \<and> length xs < n
     then drop k xs @ take (n - Suc (length xs)) ys
     else drop k (take n (xs @ x # ys)))"
    and "k \<le> length xs \<Longrightarrow> length xs < n \<Longrightarrow>
      drop k (take n (xs @ x # ys)) = drop k xs @ x # take (n - Suc (length xs)) ys"
proof -
  show "drop (if length xs < k then k - 1 else k) (take (if length xs < n then n - 1 else n) (xs @ ys)) =
    (if k \<le> length xs \<and> length xs < n
     then drop k xs @ take (n - Suc (length xs)) ys
     else drop k (take n (xs @ x # ys)))"
    using assms by (cases "length xs < k"; cases "length xs < n") (auto simp: drop_Cons' take_Cons')
  show "k \<le> length xs \<Longrightarrow> length xs < n \<Longrightarrow>
      drop k (take n (xs @ x # ys)) = drop k xs @ x # take (n - Suc (length xs)) ys"
    by (simp add: take_Cons')
qed

text \<open>
  One step of a handler keeps the round's invariant, never lengthens it, and takes from the
  entries still to be visited exactly those it erases: removal moves the two indices along.
\<close>

definition alive :: "('p, 'w, 'a) poller_scheme \<Rightarrow> (nat \<times> 'b) list \<Rightarrow> (nat \<times> 'b) list" where
  "alive s = filter (\<lambda>t. fst t \<in> set (addrs s))"

definition no_return :: "('p, 'w, 'a) poller_scheme \<Rightarrow> ('p, 'w, 'a) poller_scheme \<Rightarrow> bool" where
  "no_return s s' \<longleftrightarrow> m_next_addr s \<le> m_next_addr s' \<and>
     (\<forall>a \<in> set (addrs s'). a < m_next_addr s \<longrightarrow> a \<in> set (addrs s))"

lemma todo_addrs: "fst ` set (todo s) \<subseteq> set (addrs s)"
proof -
  have "set (todo s) \<subseteq> set (map ident (m_polled s))"
    unfolding todo_def by (meson order_trans set_drop_subset set_take_subset)
  then have "fst ` set (todo s) \<subseteq> fst ` set (map ident (m_polled s))"
    by (rule image_mono)
  also have "\<dots> = set (addrs s)"
    by (force simp: addrs_def ident_def)
  finally show ?thesis .
qed

lemma alive_todo [simp]: "alive s (todo s) = todo s"
  using todo_addrs [of s] by (auto simp: alive_def filter_id_conv)

lemma addrs_ident: "addrs s = map fst (map ident (m_polled s))"
  by (simp add: addrs_def ident_def comp_def)

lemma step_erase_todo:
  assumes "round_inv s" "m_polled s = xs @ e # ys" "m_polled s' = xs @ ys"
    and "m_orig_size s' = (if int (length xs) < m_orig_size s then m_orig_size s - 1 else m_orig_size s)"
    and "m_index s' = (if int (length xs) \<le> m_index s then m_index s - 1 else m_index s)"
  shows "todo s' = alive s' (todo s)"
proof -
  define k where "k = nat (m_index s + 1)"
  define n where "n = nat (m_orig_size s)"
  have kn: "k \<le> n" "n \<le> length (map ident xs @ ident e # map ident ys)"
    using assms(1,2) by (auto simp: round_inv_def k_def n_def)
  have k': "nat (m_index s' + 1) = (if length (map ident xs) < k then k - 1 else k)"
    using assms(1,5) by (auto simp: round_inv_def k_def)
  have n': "nat (m_orig_size s') = (if length (map ident xs) < n then n - 1 else n)"
    using assms(1,4) by (auto simp: round_inv_def n_def)
  have t: "todo s = drop k (take n (map ident xs @ ident e # map ident ys))"
    by (simp add: todo_def k_def n_def assms(2))
  have t': "todo s' = (if k \<le> length xs \<and> length xs < n
      then drop k (map ident xs) @ take (n - Suc (length xs)) (map ident ys) else todo s)"
    using window_erase(1) [OF kn] unfolding t by (simp add: todo_def k' n' assms(3))
  have dist: "e_addr e \<notin> set (addrs s')"
    using assms(1-3) by (auto simp: round_inv_def addrs_def)
  show ?thesis
  proof (cases "k \<le> length xs \<and> length xs < n")
    case True
    then have "todo s = drop k (map ident xs) @ ident e # take (n - Suc (length xs)) (map ident ys)"
      using window_erase(2) [OF kn] by (simp add: t)
    then have "alive s' (todo s) = alive s' (todo s')"
      using True t' dist by (simp add: alive_def ident_def)
    then show ?thesis by simp
  next
    case False
    with t' show ?thesis
      by (metis alive_todo)
  qed
qed

lemma poller_step_round:
  assumes "poller_step s s'" "round_inv s"
  shows "round_inv s' \<and> todo s' = alive s' (todo s) \<and> no_return s s' \<and>
    m_orig_size s' - m_index s' \<le> m_orig_size s - m_index s"
  using assms
proof (cases rule: poller_step.cases)
  case change
  then have "addrs s' = addrs s" "length (m_polled s') = length (m_polled s)"
    by (simp_all add: addrs_ident) (metis length_map)
  moreover have "todo s' = todo s"
    using change by (simp add: todo_def)
  ultimately show ?thesis
    using change assms(2) alive_todo [of s'] by (simp add: round_inv_def no_return_def)
next
  case (append e)
  then have a: "addrs s' = addrs s @ [m_next_addr s]"
    by (simp add: addrs_def)
  have "nat (m_orig_size s) - length (m_polled s) = 0"
    using assms(2) by (auto simp: round_inv_def)
  then have "todo s' = todo s"
    using append by (simp add: todo_def)
  moreover have "alive s' (todo s) = todo s"
    using todo_addrs [of s] by (auto simp: alive_def filter_id_conv a)
  ultimately show ?thesis
    using append assms(2) a by (auto simp: round_inv_def no_return_def)
next
  case (erase xs e ys)
  note t = step_erase_todo [OF assms(2) erase(1-4)]
  have "addrs s = map e_addr xs @ e_addr e # map e_addr ys" "addrs s' = map e_addr xs @ map e_addr ys"
    using erase by (simp_all add: addrs_def)
  with t erase assms(2) show ?thesis
    by (auto simp: round_inv_def no_return_def)
qed

lemma no_return_alive:
  assumes "round_inv s" "no_return s s'" "no_return s' s''"
  shows "alive s'' (alive s' (todo s)) = alive s'' (todo s)"
proof -
  show ?thesis
    unfolding alive_def filter_filter
  proof (rule filter_cong [OF refl])
    fix t assume "t \<in> set (todo s)"
    then have "fst t < m_next_addr s'"
      using assms(1,2) todo_addrs [of s] by (force simp: round_inv_def no_return_def)
    then show "(fst t \<in> set (addrs s') \<and> fst t \<in> set (addrs s'')) = (fst t \<in> set (addrs s''))"
      using assms(3) by (auto simp: no_return_def)
  qed
qed

lemma no_return_trans:
  "no_return s s' \<Longrightarrow> no_return s' s'' \<Longrightarrow> no_return s s''"
  by (fastforce simp: no_return_def)

lemma poller_steps_round:
  assumes "poller_steps s s'" "round_inv s"
  shows "round_inv s' \<and> todo s' = alive s' (todo s) \<and> no_return s s' \<and>
    m_orig_size s' - m_index s' \<le> m_orig_size s - m_index s"
  using assms
proof (induction rule: rtranclp_induct)
  case base
  then show ?case by (simp add: no_return_def)
next
  case (step t u)
  then have t: "round_inv t" "todo t = alive t (todo s)" "no_return s t"
      "m_orig_size t - m_index t \<le> m_orig_size s - m_index s"
    by auto
  note u = poller_step_round [OF step.hyps(2) t(1)]
  have "alive u (alive t (todo s)) = alive u (todo s)"
    using no_return_alive [OF step.prems t(3), of u] u by simp
  with t u show ?case
    by (auto intro: no_return_trans)
qed

section \<open>A round calls every surviving entry once\<close>

text \<open>A handler that touches the table through the poller's operations only.\<close>

definition well_behaved :: "('p, 'w, 'a) handler \<Rightarrow> bool" where
  "well_behaved polled \<longleftrightarrow> (\<forall>p a s s'. polled p a s = Inr s' \<longrightarrow> poller_steps s s')"

text \<open>The addresses of the entries whose handler a round calls, in order.\<close>

fun Poller_calls :: "nat \<Rightarrow> ('p, 'w, 'a) handler \<Rightarrow> ('p, 'w, 'a) poller_scheme \<Rightarrow> nat list" where
  "Poller_calls 0 polled s = []"
| "Poller_calls (Suc n) polled s =
     (if m_index s < m_orig_size s \<and> 0 \<le> m_index s \<and> nat (m_index s) < length (m_polled s)
      then let e = m_polled s ! nat (m_index s) in
        if revents (e_pollfd e) \<noteq> 0
        then e_addr e # (case polled (e_polled e) (e_addr e) s of
               Inl _ \<Rightarrow> [] | Inr s' \<Rightarrow> Poller_calls n polled (s'\<lparr>m_index := m_index s' + 1\<rparr>))
        else Poller_calls n polled (s\<lparr>m_index := m_index s + 1\<rparr>)
      else [])"

text \<open>
  The turns of a round that no handler breaks off: the address of the entry whose turn it was, called or
  not, and the state its turn left. An entry is removed before its turn if it is missing after an earlier one.
\<close>

fun dispatch_turns ::
  "nat \<Rightarrow> ('p, 'w, 'a) handler \<Rightarrow> ('p, 'w, 'a) poller_scheme \<Rightarrow> (nat \<times> ('p, 'w, 'a) poller_scheme) list" where
  "dispatch_turns 0 polled s = []"
| "dispatch_turns (Suc n) polled s =
     (if m_index s < m_orig_size s \<and> 0 \<le> m_index s \<and> nat (m_index s) < length (m_polled s)
      then let e = m_polled s ! nat (m_index s) in
        case (if revents (e_pollfd e) \<noteq> 0 then polled (e_polled e) (e_addr e) s else Inr s) of
          Inl _ \<Rightarrow> []
        | Inr t \<Rightarrow> (e_addr e, t) # dispatch_turns n polled (t\<lparr>m_index := m_index t + 1\<rparr>)
      else [])"

fun removed_before :: "(nat \<times> ('p, 'w, 'a) poller_scheme) list \<Rightarrow> nat \<Rightarrow> bool" where
  "removed_before [] a = False"
| "removed_before ((b, t) # turns) a = (b \<noteq> a \<and> (a \<notin> set (addrs t) \<or> removed_before turns a))"

text \<open>The entries of a round not yet reached, the one at \<open>m_index\<close> included.\<close>

definition visit_inv :: "('p, 'w, 'a) poller_scheme \<Rightarrow> bool" where
  "visit_inv s \<longleftrightarrow> distinct (addrs s) \<and> (\<forall>a \<in> set (addrs s). a < m_next_addr s) \<and>
     0 \<le> m_index s \<and> m_index s \<le> m_orig_size s \<and> m_orig_size s \<le> int (length (m_polled s))"

definition to_visit :: "('p, 'w, 'a) poller_scheme \<Rightarrow> (nat \<times> 'p \<times> c_int \<times> short) list" where
  "to_visit s = drop (nat (m_index s)) (take (nat (m_orig_size s)) (map ident (m_polled s)))"

definition is_ready :: "(nat \<times> 'p \<times> c_int \<times> short) \<Rightarrow> bool" where
  "is_ready t \<longleftrightarrow> snd (snd (snd t)) \<noteq> 0"

lemma to_visit_Cons:
  assumes "visit_inv s" "m_index s < m_orig_size s"
  shows "to_visit s = ident (m_polled s ! nat (m_index s)) # todo s" "round_inv s"
    "0 \<le> m_index s" "nat (m_index s) < length (m_polled s)"
proof -
  have i: "nat (m_index s) < length (take (nat (m_orig_size s)) (map ident (m_polled s)))"
    using assms by (auto simp: visit_inv_def)
  have "nat (m_index s + 1) = Suc (nat (m_index s))"
    using assms(1) by (auto simp: visit_inv_def)
  with Cons_nth_drop_Suc [OF i] i
  show "to_visit s = ident (m_polled s ! nat (m_index s)) # todo s"
    by (simp add: to_visit_def todo_def)
  show "round_inv s" "0 \<le> m_index s" "nat (m_index s) < length (m_polled s)"
    using assms by (auto simp: visit_inv_def round_inv_def)
qed

lemma next_visit:
  assumes "round_inv s"
  shows "visit_inv (s\<lparr>m_index := m_index s + 1\<rparr>)" "to_visit (s\<lparr>m_index := m_index s + 1\<rparr>) = todo s"
    "addrs (s\<lparr>m_index := m_index s + 1\<rparr>) = addrs s" "m_next_addr (s\<lparr>m_index := m_index s + 1\<rparr>) = m_next_addr s"
  using assms by (auto simp: round_inv_def visit_inv_def to_visit_def todo_def addrs_def)

lemma to_visit_empty: "visit_inv s \<Longrightarrow> \<not> m_index s < m_orig_size s \<Longrightarrow> to_visit s = []"
  by (simp add: to_visit_def visit_inv_def)

text \<open>One turn of the loop, whatever the handler did.\<close>

lemma dispatch_turn:
  assumes "well_behaved polled" "visit_inv s" "m_index s < m_orig_size s"
    and "(if revents (e_pollfd e) \<noteq> 0 then polled (e_polled e) (e_addr e) s else Inr s) = Inr t"
    and "e = m_polled s ! nat (m_index s)"
  shows "visit_inv (t\<lparr>m_index := m_index t + 1\<rparr>)"
    and "to_visit (t\<lparr>m_index := m_index t + 1\<rparr>) = alive t (todo s)" and "no_return s t"
proof -
  have "poller_steps s t"
    using assms(1,4) by (auto simp: well_behaved_def split: if_splits)
  from poller_steps_round [OF this to_visit_Cons(2) [OF assms(2,3)]]
  show "visit_inv (t\<lparr>m_index := m_index t + 1\<rparr>)"
    "to_visit (t\<lparr>m_index := m_index t + 1\<rparr>) = alive t (todo s)" "no_return s t"
    by (auto simp: next_visit)
qed

lemma length_alive: "length (alive t xs) \<le> length xs"
  by (simp add: alive_def)

text \<open>The loop throws nothing that no handler has thrown.\<close>

lemma dispatch_throws:
  assumes "well_behaved polled"
  shows "visit_inv s \<Longrightarrow> length (to_visit s) \<le> n \<Longrightarrow> Poller_dispatch n polled s = Inl x \<Longrightarrow> \<exists>p a t. polled p a t = Inl x"
proof (induction n arbitrary: s)
  case 0
  then have "\<not> m_index s < m_orig_size s"
    using to_visit_Cons(1) [OF 0(1)] by auto
  then show ?case
    using 0(3) by (simp add: Poller_dispatch.simps)
next
  case (Suc n)
  have True: "m_index s < m_orig_size s"
    using Suc.prems(3) by (cases "m_index s < m_orig_size s") (simp_all add: Poller_dispatch.simps)
  define e where "e = m_polled s ! nat (m_index s)"
  note v = to_visit_Cons [OF Suc.prems(1) True]
  show ?case
  proof (cases "if revents (e_pollfd e) \<noteq> 0 then polled (e_polled e) (e_addr e) s else Inr s")
    case (Inl y)
    then have "y = x"
      using Suc.prems(3) True v by (subst (asm) Poller_dispatch.simps) (simp add: Let_def flip: e_def)
    then show ?thesis
      using Inl by (auto split: if_splits)
  next
    case (Inr t)
    note u = dispatch_turn [OF assms Suc.prems(1) True Inr e_def]
    have "length (to_visit (t\<lparr>m_index := m_index t + 1\<rparr>)) \<le> n"
      using Suc.prems(2) v(1) u(2) length_alive [of t "todo s"] by simp
    from Suc.IH [OF u(1) this] Inr True v Suc.prems(3) show ?thesis
      by (subst (asm) (2) Poller_dispatch.simps) (simp add: Let_def flip: e_def)
  qed
qed

definition ready_addrs :: "(nat \<times> 'p \<times> c_int \<times> short) list \<Rightarrow> nat list" where
  "ready_addrs ts = map fst (filter is_ready ts)"

lemma ready_addrs_alive:
  assumes "round_inv s" "no_return s t" "no_return t s'"
  shows "filter (\<lambda>a. a \<in> set (addrs s')) (ready_addrs (alive t (todo s))) =
    filter (\<lambda>a. a \<in> set (addrs s')) (ready_addrs (todo s))"
proof -
  have *: "filter (\<lambda>a. a \<in> set (addrs s')) (ready_addrs ts) = ready_addrs (alive s' ts)"
    for ts :: "(nat \<times> 'a \<times> c_int \<times> short) list"
    by (simp add: ready_addrs_def alive_def filter_map comp_def conj_commute)
  show ?thesis
    unfolding * by (simp add: no_return_alive [OF assms])
qed

lemma ready_addrs_subset: "set (ready_addrs (alive t ts)) \<subseteq> set (ready_addrs ts)"
  by (auto simp: ready_addrs_def alive_def)

lemma head_not_todo:
  assumes "visit_inv s" "m_index s < m_orig_size s"
  shows "e_addr (m_polled s ! nat (m_index s)) \<notin> set (ready_addrs (todo s))"
proof -
  have "map fst (to_visit s) = drop (nat (m_index s)) (take (nat (m_orig_size s)) (addrs s))"
    by (simp add: to_visit_def addrs_ident drop_map take_map)
  then have "distinct (map fst (to_visit s))"
    using assms(1) by (simp add: visit_inv_def)
  then show ?thesis
    by (auto simp: to_visit_Cons(1) [OF assms] ready_addrs_def ident_def)
qed

lemma dispatch_calls:
  assumes "well_behaved polled"
  shows "visit_inv s \<Longrightarrow> Poller_dispatch n polled s = Inr s' \<Longrightarrow>
    no_return s s' \<and> distinct (Poller_calls n polled s) \<and>
    set (Poller_calls n polled s) \<subseteq> set (ready_addrs (to_visit s)) \<and>
    filter (\<lambda>a. a \<in> set (addrs s')) (Poller_calls n polled s) =
      filter (\<lambda>a. a \<in> set (addrs s')) (ready_addrs (to_visit s)) \<and>
    Poller_calls n polled s = filter (\<lambda>a. \<not> removed_before (dispatch_turns n polled s) a) (ready_addrs (to_visit s)) \<and>
    addrs s' = addrs (last (s # map snd (dispatch_turns n polled s)))"
proof (induction n arbitrary: s)
  case 0
  then have "\<not> m_index s < m_orig_size s" "s' = s"
    by (auto simp: Poller_dispatch.simps split: if_splits)
  with 0 show ?case
    by (simp add: to_visit_empty ready_addrs_def no_return_def)
next
  case (Suc n)
  show ?case
  proof (cases "m_index s < m_orig_size s")
    case False
    with Suc.prems show ?thesis
      by (simp add: Poller_dispatch.simps to_visit_empty ready_addrs_def no_return_def)
  next
    case True
    define e where "e = m_polled s ! nat (m_index s)"
    note v = to_visit_Cons [OF Suc.prems(1) True]
    from Suc.prems(2) True v obtain t where
      t: "(if revents (e_pollfd e) \<noteq> 0 then polled (e_polled e) (e_addr e) s else Inr s) = Inr t"
      and rest: "Poller_dispatch n polled (t\<lparr>m_index := m_index t + 1\<rparr>) = Inr s'"
      by (subst (asm) Poller_dispatch.simps) (auto simp: Let_def exn_simps simp flip: e_def)
    define u where "u = t\<lparr>m_index := m_index t + 1\<rparr>"
    note turn = dispatch_turn [OF assms Suc.prems(1) True t e_def, folded u_def]
    note IH = Suc.IH [OF turn(1), OF rest [folded u_def]]
    have nr: "no_return t s'"
      using conjunct1 [OF IH] by (simp add: u_def no_return_def addrs_def)
    have calls: "Poller_calls (Suc n) polled s =
        (if revents (e_pollfd e) \<noteq> 0 then [e_addr e] else []) @ Poller_calls n polled u"
      using True v t by (auto simp: Let_def u_def simp flip: e_def split: if_splits)
    have ready: "ready_addrs (to_visit s) =
        (if revents (e_pollfd e) \<noteq> 0 then [e_addr e] else []) @ ready_addrs (todo s)"
      by (simp add: v(1) ready_addrs_def is_ready_def ident_def flip: e_def)
    have sub: "set (Poller_calls n polled u) \<subseteq> set (ready_addrs (todo s))"
      using IH turn(2) ready_addrs_subset [of t "todo s"] by auto
    have eq: "filter (\<lambda>a. a \<in> set (addrs s')) (Poller_calls n polled u) =
        filter (\<lambda>a. a \<in> set (addrs s')) (ready_addrs (todo s))"
      using conjunct1 [OF conjunct2 [OF conjunct2 [OF conjunct2 [OF IH]]]] turn(2) ready_addrs_alive [OF v(2) turn(3) nr]
      by simp
    have head: "e_addr e \<notin> set (ready_addrs (todo s))"
      using head_not_todo [OF Suc.prems(1) True] by (simp add: e_def)
    have turns: "dispatch_turns (Suc n) polled s = (e_addr e, t) # dispatch_turns n polled u"
      using True v t by (simp add: Let_def u_def flip: e_def)
    have "ready_addrs (alive t (todo s)) = filter (\<lambda>a. a \<in> set (addrs t)) (ready_addrs (todo s))"
      by (simp add: ready_addrs_def alive_def filter_map comp_def conj_commute)
    then have "Poller_calls n polled u =
        filter (\<lambda>a. \<not> removed_before (dispatch_turns n polled u) a) (filter (\<lambda>a. a \<in> set (addrs t)) (ready_addrs (todo s)))"
      using IH turn(2) by simp
    also have "\<dots> = filter (\<lambda>a. \<not> removed_before ((e_addr e, t) # dispatch_turns n polled u) a) (ready_addrs (todo s))"
      unfolding filter_filter by (rule filter_cong [OF refl]) (use head in auto)
    finally have exact: "Poller_calls (Suc n) polled s =
        filter (\<lambda>a. \<not> removed_before (dispatch_turns (Suc n) polled s) a) (ready_addrs (to_visit s))"
      unfolding calls ready turns by simp
    have "addrs s' = addrs (last (s # map snd (dispatch_turns (Suc n) polled s)))"
    proof -
      have "addrs s' = addrs (last (u # map snd (dispatch_turns n polled u)))"
        using IH by blast
      moreover have "addrs u = addrs t"
        by (simp add: u_def addrs_def)
      ultimately show ?thesis
        unfolding turns by simp
    qed
    moreover have "no_return s s' \<and> distinct (Poller_calls (Suc n) polled s) \<and>
        set (Poller_calls (Suc n) polled s) \<subseteq> set (ready_addrs (to_visit s)) \<and>
        filter (\<lambda>a. a \<in> set (addrs s')) (Poller_calls (Suc n) polled s) = filter (\<lambda>a. a \<in> set (addrs s')) (ready_addrs (to_visit s))"
      unfolding calls ready filter_append eq
      using IH sub head no_return_trans [OF turn(3) nr] by auto
    ultimately show ?thesis
      using exact by blast
  qed
qed

section \<open>Programs on the poller\<close>

text \<open>
  The interface between the event loop and the objects registered with it: an invariant of the
  whole program that every handler keeps when it is called for an entry of the table, changing the
  table only by the poller's steps, with the exceptions it may throw. The loop then keeps it over
  any number of rounds and adds no failure of its own.
\<close>

definition has_entry :: "nat \<Rightarrow> 'p \<Rightarrow> ('p, 'w, 'a) poller_scheme \<Rightarrow> bool" where
  "has_entry pa p s \<longleftrightarrow> (\<exists>e \<in> set (m_polled s). e_addr e = pa \<and> e_polled e = p)"

definition table_ok :: "('p, 'w, 'a) poller_scheme \<Rightarrow> bool" where
  "table_ok s \<longleftrightarrow> distinct (addrs s) \<and> (\<forall>a \<in> set (addrs s). a < m_next_addr s)"

definition requests :: "'p polled_and_pollfd \<Rightarrow> nat \<times> 'p \<times> c_int \<times> short" where
  "requests e = (e_addr e, e_polled e, fd (e_pollfd e), events (e_pollfd e))"

lemma visit_inv_table_ok: "visit_inv s \<Longrightarrow> table_ok s"
  by (simp add: visit_inv_def table_ok_def)

lemma turn_steps:
  assumes "visit_inv s" "m_index s < m_orig_size s" "poller_steps s t"
  shows "visit_inv (t\<lparr>m_index := m_index t + 1\<rparr>)"
    and "to_visit (t\<lparr>m_index := m_index t + 1\<rparr>) = alive t (todo s)"
  using poller_steps_round [OF assms(3) to_visit_Cons(2) [OF assms(1,2)]] by (auto simp: next_visit)

lemma requests_zip:
  assumes "posix_poll os" "sys_poll os (map e_pollfd es) t w = (Inr (k, fds), w')"
  shows "map requests (map (\<lambda>(e, p). e\<lparr>e_pollfd := p\<rparr>) (zip es fds)) = map requests es"
    and "length fds = length es"
proof -
  note poll = posix_poll_Inr [OF assms]
  show len: "length fds = length es"
    using poll(1) by simp
  show "map requests (map (\<lambda>(e, p). e\<lparr>e_pollfd := p\<rparr>) (zip es fds)) = map requests es"
    by (rule nth_equalityI) (use len poll(2) in \<open>auto simp: requests_def\<close>)
qed

locale event_program =
  fixes polled :: "('p, 'w, 'a) handler"
    and I :: "('p, 'w, 'a) poller_scheme \<Rightarrow> bool"
    and E :: "exn \<Rightarrow> bool"
  assumes polled_ok: "I s \<Longrightarrow> table_ok s \<Longrightarrow> has_entry pa p s \<Longrightarrow>
      res_ok E (\<lambda>t. I t \<and> poller_steps s t) (polled p pa s)"
    and I_table: "I s \<Longrightarrow> map requests es = map requests (m_polled s) \<Longrightarrow>
      I (s\<lparr>m_orig_size := n, m_pollfds_size := z, world := w, m_index := i, m_polled := es\<rparr>)"
    and E_errno: "E (MyExceptionErrno err)"
begin

lemma I_index: "I s \<Longrightarrow> I (s\<lparr>m_index := i\<rparr>)"
  using I_table [where s = s and es = "m_polled s" and n = "m_orig_size s" and z = "m_pollfds_size s"
      and w = "world s" and i = i] by simp

lemma dispatch_ok:
  "visit_inv s \<Longrightarrow> I s \<Longrightarrow> length (to_visit s) \<le> n \<Longrightarrow>
     res_ok E (\<lambda>t. I t \<and> table_ok t) (Poller_dispatch n polled s)"
proof (induction n arbitrary: s)
  case 0
  then have "\<not> m_index s < m_orig_size s"
    using to_visit_Cons(1) [OF 0(1)] by auto
  then show ?case
    using 0 visit_inv_table_ok by (simp add: Poller_dispatch.simps)
next
  case (Suc n)
  show ?case
  proof (cases "m_index s < m_orig_size s")
    case False
    then show ?thesis
      using Suc.prems visit_inv_table_ok by (simp add: Poller_dispatch.simps)
  next
    case True
    define e where "e = m_polled s ! nat (m_index s)"
    define r where "r = (if revents (e_pollfd e) \<noteq> 0 then polled (e_polled e) (e_addr e) s else Inr s)"
    note v = to_visit_Cons [OF Suc.prems(1) True]
    have "has_entry (e_addr e) (e_polled e) s"
      using v(4) by (auto simp: has_entry_def e_def)
    then have r: "res_ok E (\<lambda>t. I t \<and> poller_steps s t) r"
      using polled_ok [OF Suc.prems(2) visit_inv_table_ok [OF Suc.prems(1)]] Suc.prems(2) by (simp add: r_def)
    have "res_ok E (\<lambda>t. I t \<and> table_ok t) (bindE r (\<lambda>s. Poller_dispatch n polled (s\<lparr>m_index := m_index s + 1\<rparr>)))"
    proof (rule res_ok_bind [OF r])
      fix t
      assume t: "I t \<and> poller_steps s t"
      note u = turn_steps [OF Suc.prems(1) True conjunct2 [OF t]]
      have "length (to_visit (t\<lparr>m_index := m_index t + 1\<rparr>)) \<le> n"
        using Suc.prems(3) v(1) u(2) length_alive [of t "todo s"] by simp
      then show "res_ok E (\<lambda>t. I t \<and> table_ok t) (Poller_dispatch n polled (t\<lparr>m_index := m_index t + 1\<rparr>))"
        using Suc.IH [OF u(1) I_index] t by blast
    qed
    then show ?thesis
      using True v by (subst Poller_dispatch.simps) (simp add: Let_def r_def flip: e_def)
  qed
qed

lemma pollOnce_ok:
  assumes "posix_poll os" "I s" "table_ok s"
  shows "res_ok E (\<lambda>(_, t). I t \<and> table_ok t) (Poller_pollOnce os polled s)"
proof -
  define n where "n = length (m_polled s)"
  define s0 where "s0 = s\<lparr>m_orig_size := int n, m_pollfds_size := Poller_growSize (m_pollfds_size s) n\<rparr>"
  have same: "I (s0\<lparr>world := w\<rparr>)" "table_ok (s0\<lparr>world := w\<rparr>)" for w
    using I_table [OF assms(2) refl, where n = "int n" and z = "Poller_growSize (m_pollfds_size s) n"
        and w = w and i = "m_index s"] assms(3)
    by (simp_all add: s0_def table_ok_def addrs_def)
  obtain x w where x: "sys_poll os (map e_pollfd (m_polled s)) (m_timeout s) (world s) = (x, w)"
    by fastforce
  show ?thesis
  proof (cases x)
    case (Inl e)
    then show ?thesis
      using same [of w] x E_errno by (simp add: Poller_pollOnce_def Let_def s0_def n_def)
  next
    case (Inr kf)
    obtain k fds where kf: "kf = (k, fds)" by fastforce
    note z = requests_zip [OF assms(1), of "m_polled s" "m_timeout s" "world s" k fds w]
    let ?es = "map (\<lambda>(e, p). e\<lparr>e_pollfd := p\<rparr>) (zip (m_polled s) fds)"
    let ?t = "s0\<lparr>world := w, m_index := 0, m_polled := ?es\<rparr>"
    have req: "map requests ?es = map requests (m_polled s)" "length fds = length (m_polled s)"
      using z x Inr kf by auto
    have "map e_addr ?es = map e_addr (m_polled s)"
      using req(1) by (metis (mono_tags, lifting) fst_conv list.map_comp map_eq_conv requests_def comp_apply)
    then have "visit_inv ?t"
      using assms(3) req(2) by (simp add: visit_inv_def table_ok_def addrs_def s0_def n_def)
    moreover have "I ?t"
      using I_table [OF assms(2) req(1), where n = "int n" and z = "Poller_growSize (m_pollfds_size s) n"
          and w = w and i = 0] by (simp add: s0_def)
    moreover have "length (to_visit ?t) \<le> n"
      by (simp add: to_visit_def s0_def)
    ultimately have "res_ok E (\<lambda>t. I t \<and> table_ok t) (Poller_dispatch n polled ?t)"
      by (rule dispatch_ok)
    then have "res_ok E (\<lambda>(_, t). I t \<and> table_ok t) (bindE (Poller_dispatch n polled ?t) (\<lambda>s. Inr (int k, s)))"
      by (rule res_ok_bind) simp
    then show ?thesis
      using same [of w] x Inr kf by (simp add: Poller_pollOnce_def Let_def s0_def n_def)
  qed
qed

text \<open>Any number of rounds; running out of fuel is the only thing added.\<close>

lemma loop_ok:
  assumes "posix_poll os" "\<And>s. I s \<Longrightarrow> I (cb s)" "\<And>s. table_ok s \<Longrightarrow> table_ok (cb s)"
  shows "I s \<Longrightarrow> table_ok s \<Longrightarrow>
    res_ok (\<lambda>e. E e \<or> e = OutOfFuel) (\<lambda>(_, t). I t \<and> table_ok t) (Poller_loop n os polled cb s)"
proof (induction n arbitrary: s)
  case 0
  then show ?case by (simp add: Poller_loop.simps)
next
  case (Suc n)
  have "res_ok (\<lambda>e. E e \<or> e = OutOfFuel) (\<lambda>(_, t). I t \<and> table_ok t) (Poller_pollOnce os polled s)"
    by (rule res_ok_mono [OF pollOnce_ok [OF assms(1) Suc.prems]]) auto
  then show ?case
    using Suc.prems
    by (subst Poller_loop.simps) (auto intro!: res_ok_bind [of _ "\<lambda>(_, t). I t \<and> table_ok t"] Suc.IH assms(2,3))
qed

text \<open>The clean-up pass, and \<open>start\<close> as a whole.\<close>

lemma cleanupAll_ok:
  assumes "\<And>p ps s. I s \<Longrightarrow> table_ok s \<Longrightarrow> res_ok E (\<lambda>t. I t \<and> table_ok t) (cleanup p ps s)"
  shows "I s \<Longrightarrow> table_ok s \<Longrightarrow> res_ok E (\<lambda>t. I t \<and> table_ok t) (Poller_cleanupAll n cleanup s)"
proof (induction n arbitrary: s)
  case (Suc n)
  have "table_ok (t\<lparr>m_index := i\<rparr>) = table_ok t" for t :: "('p, 'w, 'a) poller_scheme" and i
    by (simp add: table_ok_def addrs_def)
  with Suc show ?case
    by (auto simp: Let_def intro!: res_ok_bind [OF assms] I_index)
qed simp

lemma start_ok:
  assumes "posix_poll os" "\<And>s. I s \<Longrightarrow> I (cb s)" "\<And>s. table_ok s \<Longrightarrow> table_ok (cb s)"
    and "\<And>p ps s. I s \<Longrightarrow> table_ok s \<Longrightarrow> res_ok E (\<lambda>t. I t \<and> table_ok t) (cleanup p ps s)"
    and "\<And>m. E (MyException m)" "I s" "table_ok s"
  shows "res_ok (\<lambda>e. E e \<or> e = OutOfFuel) (\<lambda>t. I t \<and> table_ok t) (Poller_start n os polled cb cleanup s)"
proof -
  have "res_ok (\<lambda>e. E e \<or> e = OutOfFuel) (\<lambda>t. I t \<and> table_ok t)
      (Poller_cleanupAll k cleanup (t\<lparr>m_index := 0\<rparr>))" if "I t \<and> table_ok t" for k t
  proof -
    have "table_ok (t\<lparr>m_index := 0\<rparr>)"
      using that by (simp add: table_ok_def addrs_def)
    then show ?thesis
      by (intro res_ok_mono [OF cleanupAll_ok [OF assms(4)]]) (use that I_index in auto)
  qed
  then show ?thesis
    unfolding Poller_start_def using assms(5-7)
    by (auto intro!: res_ok_bind [OF loop_ok [OF assms(1-3,6,7)]])
qed

end

section \<open>Properties\<close>

text \<open>C4: One round of the event loop that no handler breaks off with an exception, in spite of handlers that
  register, unregister and change entries while it runs: the entries called are, in table order and each once,
  those that had events and were not removed before their turn, an entry that removes itself or
  is removed later included. No entry without events and none registered during the round is called, and
  every entry with events that is still registered at the end has been called.\<close>

theorem dispatch_each_survivor_once:
  assumes "well_behaved polled" "visit_inv s" "Poller_dispatch n polled s = Inr s'"
  shows "distinct (Poller_calls n polled s) \<and>
    Poller_calls n polled s = filter (\<lambda>a. \<not> removed_before (dispatch_turns n polled s) a) (ready_addrs (to_visit s)) \<and>
    addrs s' = addrs (last (s # map snd (dispatch_turns n polled s))) \<and>
    set (Poller_calls n polled s) \<subseteq> set (ready_addrs (to_visit s)) \<and>
    filter (\<lambda>a. a \<in> set (addrs s')) (Poller_calls n polled s) =
      filter (\<lambda>a. a \<in> set (addrs s')) (ready_addrs (to_visit s))"
  using dispatch_calls [OF assms] by auto

text \<open>
  A table of three ready entries whose first handler unregisters itself and the second entry:
  the calls are those of the first and the third.
\<close>

definition demo_entry :: "nat \<Rightarrow> nat polled_and_pollfd" where
  "demo_entry n = \<lparr>e_addr = n, e_polled = n, e_pollfd = \<lparr>fd = int n, events = POLLIN, revents = POLLIN\<rparr>\<rparr>"

definition demo_poller :: "(nat, pipe_world) poller" where
  "demo_poller = (Poller_new 3 0 \<lparr>pw_in = [], pw_out = [], pw_closed = []\<rparr>)\<lparr>m_polled := map demo_entry [0, 1, 2], m_next_addr := 3\<rparr>"

definition demo_handler :: "(nat, pipe_world, unit) handler" where
  "demo_handler p a s =
     Inr (if p = 0 then Poller_removePolled 1 1 (Poller_removePolled 0 0 s) else s)"

lemma demo_handler_well_behaved: "well_behaved demo_handler"
  unfolding well_behaved_def demo_handler_def
  by (auto intro: rtranclp_trans [OF removePolled_step removePolled_step])

lemma demo_poller_visit_inv: "visit_inv demo_poller"
  by (simp add: visit_inv_def demo_poller_def Poller_new_def demo_entry_def addrs_def)

lemma demo_dispatch:
  "Poller_dispatch 3 demo_handler demo_poller =
     Inr (demo_poller\<lparr>m_polled := [demo_entry 2], m_orig_size := 1, m_index := 1\<rparr>)"
  by (simp add: Poller_dispatch.simps [where fuel = 3] Poller_dispatch.simps [where fuel = 2]
      Poller_dispatch.simps [where fuel = 1] Poller_dispatch.simps numeral_3_eq_3 numeral_2_eq_2
      demo_poller_def demo_handler_def demo_entry_def Poller_new_def Poller_removePolled_def
      poll_flags Let_def)

theorem dispatch_each_survivor_once_witness:
  "distinct (Poller_calls 3 demo_handler demo_poller) \<and> ready_addrs (to_visit demo_poller) = [0, 1, 2] \<and>
   Poller_calls 3 demo_handler demo_poller = [0, 2] \<and> removed_before (dispatch_turns 3 demo_handler demo_poller) 1"
proof -
  have ready: "ready_addrs (to_visit demo_poller) = [0, 1, 2]"
    by (simp add: ready_addrs_def to_visit_def is_ready_def ident_def demo_poller_def demo_entry_def Poller_new_def poll_flags)
  have "dispatch_turns 3 demo_handler demo_poller =
      [(0, demo_poller\<lparr>m_polled := [demo_entry 2], m_orig_size := 1, m_index := -1\<rparr>),
       (2, demo_poller\<lparr>m_polled := [demo_entry 2], m_orig_size := 1, m_index := 0\<rparr>)]"
    by (simp add: numeral_3_eq_3 numeral_2_eq_2 demo_poller_def demo_handler_def demo_entry_def Poller_new_def
        Poller_removePolled_def poll_flags Let_def)
  then have turns: "removed_before (dispatch_turns 3 demo_handler demo_poller) a = (a = 1 \<or> a \<notin> {0, 1, 2})" for a
    by (auto simp: addrs_def demo_entry_def)
  show ?thesis
    using dispatch_each_survivor_once [OF demo_handler_well_behaved demo_poller_visit_inv demo_dispatch]
    by (simp add: ready turns del: Poller_calls.simps dispatch_turns.simps)
qed

lemma addrs_zip:
  "length fds = length es \<Longrightarrow> map e_addr (map (\<lambda>(e, p). e\<lparr>e_pollfd := p\<rparr>) (zip es fds)) = map e_addr es"
  by (induction fds es rule: list_induct2) auto

text \<open>C16: A round neither runs without end nor reads outside the table, and returns what \<open>poll\<close> returned. With
  handlers that use the poller's operations, the loop over the table ends within as many turns as the
  table had entries when \<open>poll\<close> returned, and \<open>m_index\<close> always points at an entry, whatever is erased or added
  meanwhile. An interrupted \<open>poll\<close> gives -1 and any other failure its exception, with no handler called; when no descriptor is
  ready the result is 0 and the table is as it was; otherwise it is the number of ready descriptors, unless
  one of the handlers throws.\<close>

theorem pollOnce_terminates_in_bounds:
  assumes "well_behaved polled" "posix_poll os"
    and "\<forall>p a s e. polled p a s = Inl e \<longrightarrow> e \<noteq> OutOfFuel \<and> e \<noteq> Undefined BadIterator"
    and "distinct (addrs s)" "\<forall>a \<in> set (addrs s). a < m_next_addr s"
  shows "Poller_pollOnce os polled s \<noteq> Inl OutOfFuel \<and> Poller_pollOnce os polled s \<noteq> Inl (Undefined BadIterator) \<and>
    (case sys_poll os (map e_pollfd (m_polled s)) (m_timeout s) (world s) of
       (Inl e, w) \<Rightarrow>
         if e = EINTR then \<exists>s'. Poller_pollOnce os polled s = Inr (-1, s') \<and> m_polled s' = m_polled s \<and> world s' = w
         else Poller_pollOnce os polled s = Inl (MyExceptionErrno e)
     | (Inr (k, fds), w) \<Rightarrow>
         if k = 0 then \<exists>s'. Poller_pollOnce os polled s = Inr (0, s') \<and> m_polled s' = m_polled s \<and> world s' = w
         else (\<exists>s'. Poller_pollOnce os polled s = Inr (int k, s')) \<or>
           (\<exists>p a t e. polled p a t = Inl e \<and> Poller_pollOnce os polled s = Inl e))"
proof -
  define n where "n = length (m_polled s)"
  obtain r w where r: "sys_poll os (map e_pollfd (m_polled s)) (m_timeout s) (world s) = (r, w)"
    by fastforce
  have result: "case r of
       Inl e \<Rightarrow>
         if e = EINTR then \<exists>s'. Poller_pollOnce os polled s = Inr (-1, s') \<and> m_polled s' = m_polled s \<and> world s' = w
         else Poller_pollOnce os polled s = Inl (MyExceptionErrno e)
     | Inr (k, fds) \<Rightarrow>
         if k = 0 then \<exists>s'. Poller_pollOnce os polled s = Inr (0, s') \<and> m_polled s' = m_polled s \<and> world s' = w
         else (\<exists>s'. Poller_pollOnce os polled s = Inr (int k, s')) \<or>
           (\<exists>p a t e. polled p a t = Inl e \<and> Poller_pollOnce os polled s = Inl e)"
  proof (cases r)
    case (Inr kf)
    obtain k fds where kf: "kf = (k, fds)" by fastforce
    define t where "t = s\<lparr>m_orig_size := int n, m_pollfds_size := Poller_growSize (m_pollfds_size s) n, world := w, m_index := 0,
        m_polled := map (\<lambda>(e, p). e\<lparr>e_pollfd := p\<rparr>) (zip (m_polled s) fds)\<rparr>"
    have "length fds = length (m_polled s)"
      using posix_poll_Inr(1) [OF assms(2)] r Inr kf by fastforce
    then have "addrs t = addrs s" "length (m_polled t) = n"
      using addrs_zip [of fds "m_polled s"] by (simp_all add: t_def addrs_def n_def)
    then have t: "visit_inv t" "length (to_visit t) \<le> n"
      using assms(4,5) by (simp_all add: visit_inv_def to_visit_def) (simp_all add: t_def)
    have "Poller_pollOnce os polled s =
        (if 0 < k then bindE (Poller_dispatch n polled t) (\<lambda>s. Inr (int k, s))
         else Inr (int k, s\<lparr>m_orig_size := int n, m_pollfds_size := Poller_growSize (m_pollfds_size s) n, world := w\<rparr>))"
      by (simp add: Poller_pollOnce_def Let_def r Inr kf t_def flip: n_def)
    then show ?thesis
      using dispatch_throws [OF assms(1) t] Inr kf by (cases "Poller_dispatch n polled t") auto
  qed (simp add: Poller_pollOnce_def Let_def r)
  then have "Poller_pollOnce os polled s \<noteq> Inl OutOfFuel \<and> Poller_pollOnce os polled s \<noteq> Inl (Undefined BadIterator)"
    using assms(3) by (fastforce split: sum.splits prod.splits if_splits)
  with result show ?thesis
    unfolding r by simp
qed

lemma demo_poll: "sys_poll (pipe_os 1) (map e_pollfd (m_polled demo_poller)) (m_timeout demo_poller) (world demo_poller) =
    (Inr (3, map e_pollfd (m_polled demo_poller)), world demo_poller)"
  by (simp add: pipe_os_def demo_poller_def demo_entry_def)

theorem pollOnce_terminates_in_bounds_witness:
  "\<exists>s'. Poller_pollOnce (pipe_os 1) demo_handler demo_poller = Inr (3, s')"
proof -
  have "\<forall>p a s e. demo_handler p a s = Inl e \<longrightarrow> e \<noteq> OutOfFuel \<and> e \<noteq> Undefined BadIterator"
    by (simp add: demo_handler_def)
  moreover have "distinct (addrs demo_poller)" "\<forall>a \<in> set (addrs demo_poller). a < m_next_addr demo_poller"
    using demo_poller_visit_inv by (auto simp: visit_inv_def)
  ultimately have "\<exists>s'. Poller_pollOnce (pipe_os 1) demo_handler demo_poller = Inr (int 3, s')"
    using pollOnce_terminates_in_bounds [OF demo_handler_well_behaved pipe_os_poll, of demo_poller 1]
    unfolding demo_poll by (simp add: demo_handler_def del: One_nat_def)
  then show ?thesis
    by simp
qed

text \<open>C29: Once a descriptor is unregistered, no later request for events brings it back; until then
  the last request is the one in force, and no request touches another entry.\<close>

theorem removed_stays_removed:
  assumes "distinct (keys s)"
  shows "poller_map (fold (Poller_setEvents p f) evs (Poller_removePolled p f s)) (p, f) = None \<and>
    (poller_map s (p, f) \<noteq> None \<longrightarrow>
       poller_map (fold (Poller_setEvents p f) (evs @ [ev]) s) (p, f) = Some ev) \<and>
    (k \<noteq> (p, f) \<longrightarrow> poller_map (Poller_setEvents p f ev s) k = poller_map s k)"
  using pollt.rem_is_final [OF assms, of "(p, f)" evs] pollt.sete_last_wins [OF assms, of "(p, f)" evs ev]
  by (auto simp: setEvents_map)

theorem removed_stays_removed_witness:
  "poller_map (fold (Poller_setEvents 1 1) [POLLOUT] (Poller_removePolled 1 1 demo_poller)) (1, 1) = None \<and>
   poller_map (fold (Poller_setEvents 1 1) ([POLLOUT] @ [0]) demo_poller) (1, 1) = Some 0 \<and>
   poller_map (Poller_setEvents 1 1 0 demo_poller) (2, 2) = poller_map demo_poller (2, 2)"
proof -
  have "distinct (keys demo_poller)" "poller_map demo_poller (1, 1) \<noteq> None"
    by (simp_all add: keys_def poller_map_def demo_poller_def demo_entry_def Poller_new_def)
  with removed_stays_removed [OF this(1), of 1 1 "[POLLOUT]" 0 "(2, 2)"] show ?thesis
    by (simp del: fold.simps)
qed

text \<open>The scratch array passed to \<open>poll\<close> always has room for the whole table and is never
  more than doubled past it.\<close>

theorem growSize_bounds:
  assumes "0 < sz"
  shows "orig \<le> Poller_growSize sz orig \<and> sz \<le> Poller_growSize sz orig \<and>
    (sz < orig \<longrightarrow> Poller_growSize sz orig < 2 * orig)"
  using assms
proof (induction sz orig rule: Poller_growSize.induct)
  case (1 sz orig)
  show ?case
  proof (cases "sz < orig")
    case True
    with 1 show ?thesis
      by (subst (1 2 3) Poller_growSize.simps)
        (cases "sz * 2 < orig", auto simp: Poller_growSize.simps [of "sz * 2"])
  next
    case False
    then show ?thesis by (simp add: Poller_growSize.simps)
  qed
qed

theorem growSize_bounds_witness:
  "25 \<le> Poller_growSize 10 25 \<and> 10 \<le> Poller_growSize 10 25 \<and> Poller_growSize 10 25 < 2 * 25"
  using growSize_bounds [of 10 25] by simp

end
