(* ===== verification/Std_Map.thy ===== *)
theory Std_Map
  imports Main
begin

text \<open>
  \<open>std::map\<close> as the tunnel uses it for \<open>m_connection_map\<close>: looked up and assigned by key,
  and iterated in key order when the connections are announced to the remote side. It is a list
  of pairs in increasing key order; the interface \<open>ordered_map\<close> states what the tunnel relies
  on, and the list provides it.
\<close>

type_synonym ('k, 'v) std_map = "('k \<times> 'v) list"

fun map_find :: "'k \<Rightarrow> ('k, 'v) std_map \<Rightarrow> 'v option" where
  "map_find k [] = None"
| "map_find k ((k', v) # m) = (if k = k' then Some v else map_find k m)"

text \<open>\<open>m[k] = v\<close>\<close>

fun map_assign :: "'k :: linorder \<Rightarrow> 'v \<Rightarrow> ('k, 'v) std_map \<Rightarrow> ('k, 'v) std_map" where
  "map_assign k v [] = [(k, v)]"
| "map_assign k v ((k', v') # m) =
     (if k < k' then (k, v) # (k', v') # m
      else if k = k' then (k, v) # m
      else (k', v') # map_assign k v m)"

definition map_ordered :: "('k :: linorder, 'v) std_map \<Rightarrow> bool" where
  "map_ordered m \<longleftrightarrow> sorted_wrt (<) (map fst m)"

text \<open>The interface: lookup after assignment, and the entries as an ordered iteration sees them.\<close>

locale ordered_map =
  fixes emp :: 'm
    and find :: "'k :: linorder \<Rightarrow> 'm \<Rightarrow> 'v option"
    and assign :: "'k \<Rightarrow> 'v \<Rightarrow> 'm \<Rightarrow> 'm"
    and iter :: "'m \<Rightarrow> ('k \<times> 'v) list"
    and inv :: "'m \<Rightarrow> bool"
  assumes find_emp: "find k emp = None"
    and find_assign: "inv m \<Longrightarrow> find k (assign k' v m) = (if k = k' then Some v else find k m)"
    and iter_find: "inv m \<Longrightarrow> (k, v) \<in> set (iter m) \<longleftrightarrow> find k m = Some v"
    and iter_sorted: "inv m \<Longrightarrow> sorted_wrt (<) (map fst (iter m))"
    and inv_emp: "inv emp"
    and inv_assign: "inv m \<Longrightarrow> inv (assign k v m)"
begin

definition assign_all :: "('k \<times> 'v) list \<Rightarrow> 'm \<Rightarrow> 'm" where
  "assign_all kvs m = fold (\<lambda>(k, v). assign k v) kvs m"

lemma inv_assign_all: "inv m \<Longrightarrow> inv (assign_all kvs m)"
  unfolding assign_all_def by (induction kvs arbitrary: m) (auto simp: inv_assign)

lemma find_assign_all:
  "inv m \<Longrightarrow> find k (assign_all kvs m) =
     (case map_of (rev kvs) k of None \<Rightarrow> find k m | Some v \<Rightarrow> Some v)"
proof (induction kvs arbitrary: m rule: rev_induct)
  case Nil
  then show ?case by (simp add: assign_all_def)
next
  case (snoc kv kvs)
  obtain k' v' where kv: "kv = (k', v')" by (cases kv)
  have "assign_all (kvs @ [kv]) m = assign k' v' (assign_all kvs m)"
    by (simp add: assign_all_def kv)
  then show ?case
    using snoc inv_assign_all [OF snoc.prems] by (simp add: kv find_assign)
qed

lemma iter_distinct: "inv m \<Longrightarrow> distinct (map fst (iter m))"
  using iter_sorted strict_sorted_iff by blast

text \<open>The iteration order does not depend on the order of the assignments.\<close>

lemma iter_unique:
  assumes "inv m" "inv m'" "\<And>k. find k m = find k m'"
  shows "iter m = iter m'"
proof -
  have "set (iter m) = set (iter m')"
    using assms by (auto simp: iter_find)
  moreover have "inj_on fst (set (iter m) \<union> set (iter m'))"
    using assms by (fastforce simp: inj_on_def iter_find)
  ultimately show ?thesis
    using iter_sorted [OF assms(1)] iter_sorted [OF assms(2)]
    by (intro map_sorted_distinct_set_unique [where f = fst]) (auto simp: strict_sorted_iff)
qed

end

lemma map_find_notin: "k \<notin> set (map fst m) \<Longrightarrow> map_find k m = None"
  by (induction k m rule: map_find.induct) auto

lemma map_find_assign: "map_ordered m \<Longrightarrow>
  map_find k (map_assign k' v m) = (if k = k' then Some v else map_find k m)"
  by (induction k' v m rule: map_assign.induct) (auto simp: map_ordered_def)

lemma map_find_set: "map_ordered m \<Longrightarrow> (k, v) \<in> set m \<longleftrightarrow> map_find k m = Some v"
  by (induction m) (force simp: map_ordered_def map_find_notin)+

lemma keys_map_assign: "set (map fst (map_assign k v m)) = insert k (set (map fst m))"
  by (induction k v m rule: map_assign.induct) auto

lemma map_ordered_assign: "map_ordered m \<Longrightarrow> map_ordered (map_assign k v m)"
proof (induction k v m rule: map_assign.induct)
  case (2 k v k' v' m)
  then show ?case
    using keys_map_assign [of k v m] by (auto simp: map_ordered_def)
qed (simp add: map_ordered_def)

interpretation smap: ordered_map "[]" map_find map_assign "\<lambda>m. m" map_ordered
  by unfold_locales
    (auto simp: map_find_assign map_find_set map_ordered_assign, auto simp: map_ordered_def)

text \<open>Assigning keys in increasing order keeps them in the order of assignment.\<close>

lemma map_assign_last:
  "(\<forall>k' \<in> set (map fst m). k' < k) \<Longrightarrow> map_assign k v m = m @ [(k, v)]"
  by (induction k v m rule: map_assign.induct) auto

lemma assign_increasing:
  "sorted_wrt (<) (map fst (m @ kvs)) \<Longrightarrow> fold (\<lambda>(k, v). map_assign k v) kvs m = m @ kvs"
proof (induction kvs arbitrary: m)
  case (Cons kv kvs)
  obtain k v where kv: "kv = (k, v)" by (cases kv)
  have "map_assign k v m = m @ [(k, v)]"
    using Cons.prems by (intro map_assign_last) (auto simp: kv sorted_wrt_append)
  then show ?case
    using Cons.IH [of "m @ [(k, v)]"] Cons.prems by (simp add: kv)
qed simp

end
