(* ===== verification/Terminal.thy ===== *)
theory Terminal
  imports Tunnel_Prelude
begin

text \<open>
  The terminal settings the tunnel changes: the \<open>cfmakeraw\<close> that
  \<open>stdio_tunnel/StdioTunnel.cpp\<close> brings along for systems without it, and the setting used
  once the tunnel is up. The flag values are those of Linux's \<open>termios.h\<close>.
\<close>

record termios =
  c_iflag :: u32
  c_oflag :: u32
  c_lflag :: u32
  c_cflag :: u32

definition IGNBRK :: u32 where "IGNBRK = 0x1"
definition BRKINT :: u32 where "BRKINT = 0x2"
definition PARMRK :: u32 where "PARMRK = 0x8"
definition ISTRIP :: u32 where "ISTRIP = 0x20"
definition INLCR :: u32 where "INLCR = 0x40"
definition IGNCR :: u32 where "IGNCR = 0x80"
definition ICRNL :: u32 where "ICRNL = 0x100"
definition IXON :: u32 where "IXON = 0x400"
definition OPOST :: u32 where "OPOST = 0x1"
definition ECHO :: u32 where "ECHO = 0x8"
definition ECHONL :: u32 where "ECHONL = 0x40"
definition ICANON :: u32 where "ICANON = 0x2"
definition ISIG :: u32 where "ISIG = 0x1"
definition IEXTEN :: u32 where "IEXTEN = 0x8000"
definition CSIZE :: u32 where "CSIZE = 0x30"
definition PARENB :: u32 where "PARENB = 0x100"
definition CS8 :: u32 where "CS8 = 0x30"

lemmas termios_flags = IGNBRK_def BRKINT_def PARMRK_def ISTRIP_def INLCR_def IGNCR_def ICRNL_def
  IXON_def OPOST_def ECHO_def ECHONL_def ICANON_def ISIG_def IEXTEN_def CSIZE_def PARENB_def CS8_def

definition cfmakeraw :: "termios \<Rightarrow> termios" where
  "cfmakeraw t =
     (let t = t\<lparr>c_iflag := c_iflag t AND
                NOT (IGNBRK OR BRKINT OR PARMRK OR ISTRIP OR INLCR OR IGNCR OR ICRNL OR IXON)\<rparr>;
          t = t\<lparr>c_oflag := c_oflag t AND NOT OPOST\<rparr>;
          t = t\<lparr>c_lflag := c_lflag t AND NOT (ECHO OR ECHONL OR ICANON OR ISIG OR IEXTEN)\<rparr>;
          t = t\<lparr>c_cflag := c_cflag t AND NOT (CSIZE OR PARENB)\<rparr>
      in t\<lparr>c_cflag := c_cflag t OR CS8\<rparr>)"

text \<open>The setting once the handshake has begun: raw, but with signals from the keyboard.\<close>

definition raw_with_signals :: "termios \<Rightarrow> termios" where
  "raw_with_signals t = (let t = cfmakeraw t in t\<lparr>c_lflag := c_lflag t OR ISIG\<rparr>)"

lemma and_not_self: "(x AND NOT m) AND m = (0 :: 'a :: len word)"
  by (rule bit_word_eqI) (auto simp: bit_simps)

lemma and_not_idem: "(x AND NOT m) AND NOT m = (x AND NOT m :: 'a :: len word)"
  by (rule bit_word_eqI) (auto simp: bit_simps)

lemma cfmakeraw_idem: "cfmakeraw (cfmakeraw t) = cfmakeraw t"
proof -
  have "((x AND NOT m OR CS8) AND NOT m) OR CS8 = x AND NOT m OR CS8" for x m :: u32
    by (rule bit_word_eqI) (auto simp: bit_simps)
  then show ?thesis
    by (simp add: cfmakeraw_def Let_def and_not_idem del: bit.de_Morgan_disj)
qed

text \<open>The raw setting has no echo, no line editing, no keyboard signals and no translation of
  input or output, and eight bit characters without parity; applying it twice is applying it once.
  While the tunnel is up the setting differs from it in the keyboard signals only.\<close>

theorem cfmakeraw_is_raw:
  "c_lflag (cfmakeraw t) AND (ECHO OR ECHONL OR ICANON OR ISIG OR IEXTEN) = 0 \<and>
   c_iflag (cfmakeraw t) AND (IGNBRK OR BRKINT OR PARMRK OR ISTRIP OR INLCR OR IGNCR OR ICRNL OR IXON) = 0 \<and>
   c_oflag (cfmakeraw t) AND OPOST = 0 \<and> c_cflag (cfmakeraw t) AND (CSIZE OR PARENB) = CS8 \<and>
   cfmakeraw (cfmakeraw t) = cfmakeraw t \<and>
   raw_with_signals t = (cfmakeraw t)\<lparr>c_lflag := c_lflag (cfmakeraw t) OR ISIG\<rparr> \<and>
   cfmakeraw (raw_with_signals t) = cfmakeraw t"
proof -
  have "(x AND NOT m OR CS8) AND m = CS8 AND m" for x m :: u32
    by (rule bit_word_eqI) (auto simp: bit_simps)
  moreover have "CS8 AND (CSIZE OR PARENB) = CS8"
    by (simp add: termios_flags)
  moreover have "((x AND NOT m) OR ISIG) AND NOT m = x AND NOT m"
    if "ISIG AND NOT m = 0" for x m :: u32
  proof -
    have "((x AND NOT m) OR ISIG) AND NOT m = (x AND NOT m) OR (ISIG AND NOT m)"
      by (rule bit_word_eqI) (auto simp: bit_simps)
    with that show ?thesis by simp
  qed
  moreover have "ISIG AND NOT (ECHO OR ECHONL OR ICANON OR ISIG OR IEXTEN) = 0"
    by (simp add: termios_flags)
  moreover have "(x AND NOT m OR CS8) AND NOT m OR CS8 = x AND NOT m OR CS8" for x m :: u32
    by (rule bit_word_eqI) (auto simp: bit_simps)
  ultimately show ?thesis
    using cfmakeraw_idem [of t]
    by (simp add: cfmakeraw_def raw_with_signals_def Let_def and_not_self and_not_idem
        del: bit.de_Morgan_disj)
qed

end
