(* ===== verification/Tunnel_State.thy ===== *)
theory Tunnel_State
  imports Connection_Spec Sock_Buffer Event_Poller Std_Map Terminal
begin

text \<open>
  The state both ends of the tunnel share, from \<open>stdio_tunnel/StdioTunnel.h\<close>: the
  \<open>StdioTunnel\<close> object with its two streams, its connections and their links, and the
  \<open>CustomWriteStream\<close> that asks the poller for \<open>POLLOUT\<close> whenever a packet is queued.

  \<open>TunnelConnection\<close> and \<open>ConnectionLink\<close> objects live on a heap: a finite map from
  addresses. The poller, a link and a connection's link table hold addresses; an object is
  destroyed when its owning table drops it, and a later use of its address is the outcome
  \<open>UseAfterFree\<close>.
\<close>

section \<open>Objects\<close>

text \<open>The objects a poller entry may refer to.\<close>

datatype polled_ref =
    P_Tunnel            \<comment> \<open>\<open>StdioTunnelLocal\<close> or \<open>StdioTunnelRemote\<close> itself\<close>
  | P_Listen nat        \<comment> \<open>a \<open>ListenSide\<close>\<close>
  | P_Link nat          \<comment> \<open>a \<open>ConnectionLink\<close>\<close>
  | P_Socks5            \<comment> \<open>the \<open>Socks5Server\<close> of the remote side\<close>

record connection_link =
  m_connection :: nat
  m_socket :: c_int
  lk_id :: short
  m_buffer :: sock_buffer
  m_closing :: bool
  m_acknowledged :: bool

datatype connection_kind = ListenSide | ConnectSide

text \<open>\<open>m_listen_socket\<close> and \<open>m_next_id\<close> are the members of \<open>ListenSide\<close>.\<close>

record tunnel_connection =
  m_spec :: connection_spec
  tc_id :: c_int
  m_kind :: connection_kind
  m_link_map :: "short \<rightharpoonup> nat"
  m_listen_socket :: c_int
  m_next_id :: c_int

definition TunnelConnection_BUFFER_SIZE :: nat where
  "TunnelConnection_BUFFER_SIZE = 4096"

text \<open>The message codes: on a connection, and of the tunnel.\<close>

definition LINK_CREATE :: c_int where "LINK_CREATE = 387"
definition LINK_SEND :: c_int where "LINK_SEND = 388"
definition LINK_CLOSE :: c_int where "LINK_CLOSE = 389"
definition LINK_SUCCESS :: c_int where "LINK_SUCCESS = 390"
definition LINK_FAILURE :: c_int where "LINK_FAILURE = 391"
definition LINK_SEND_FOR_ACK :: c_int where "LINK_SEND_FOR_ACK = 392"
definition LINK_ACK :: c_int where "LINK_ACK = 393"
definition CMD_ERROR :: c_int where "CMD_ERROR = 401"
definition CMD_CREATE :: c_int where "CMD_CREATE = 402"
definition CMD_CONNECTION :: c_int where "CMD_CONNECTION = 403"
definition CMD_SHUTDOWN :: c_int where "CMD_SHUTDOWN = 404"

lemmas link_codes = LINK_CREATE_def LINK_SEND_def LINK_CLOSE_def LINK_SUCCESS_def LINK_FAILURE_def
  LINK_SEND_FOR_ACK_def LINK_ACK_def

lemmas cmd_codes = CMD_ERROR_def CMD_CREATE_def CMD_CONNECTION_def CMD_SHUTDOWN_def

definition STDIN_FD :: c_int where "STDIN_FD = 0"
definition STDOUT_FD :: c_int where "STDOUT_FD = 1"

section \<open>The tunnel\<close>

text \<open>
  \<open>m_poller\<close> is the record extended here. Of the \<open>CustomWriteStream\<close>,
  \<open>m_writer_attached\<close> says that its \<open>m_poller\<close> and \<open>m_polled\<close> pointers have been
  set (always together, to the tunnel's poller and the tunnel), and \<open>m_writer_fd\<close> is its
  \<open>m_fd\<close>. \<open>m_next_obj\<close> is the next fresh heap address.
\<close>

record 'w tunnel = "(polled_ref, 'w) poller" +
  m_read_stream :: read_stream
  m_write_stream :: write_stream
  m_writer_attached :: bool
  m_writer_fd :: c_int
  m_closed_by_request :: bool
  m_termios :: termios
  m_is_terminal :: bool
  m_connection_map :: "(c_int, nat) std_map"
  m_connections :: "nat \<rightharpoonup> tunnel_connection"
  m_links :: "nat \<rightharpoonup> connection_link"
  m_next_obj :: nat

type_synonym ('w, 'a) tunnel_op = "('w, 'a) tunnel_scheme \<Rightarrow> ('w, 'a) tunnel_scheme res"

text \<open>Heap access.\<close>

definition deref_link :: "nat \<Rightarrow> ('w, 'a) tunnel_scheme \<Rightarrow> connection_link res" where
  "deref_link a s = (case m_links s a of None \<Rightarrow> Inl (Undefined UseAfterFree) | Some l \<Rightarrow> Inr l)"

definition deref_connection :: "nat \<Rightarrow> ('w, 'a) tunnel_scheme \<Rightarrow> tunnel_connection res" where
  "deref_connection c s =
     (case m_connections s c of None \<Rightarrow> Inl (Undefined UseAfterFree) | Some t \<Rightarrow> Inr t)"

definition put_link :: "nat \<Rightarrow> connection_link \<Rightarrow> ('w, 'a) tunnel_scheme \<Rightarrow> ('w, 'a) tunnel_scheme" where
  "put_link a l s = s\<lparr>m_links := (m_links s)(a \<mapsto> l)\<rparr>"

definition free_link :: "nat \<Rightarrow> ('w, 'a) tunnel_scheme \<Rightarrow> ('w, 'a) tunnel_scheme" where
  "free_link a s = s\<lparr>m_links := (m_links s)(a := None)\<rparr>"

definition put_connection ::
  "nat \<Rightarrow> tunnel_connection \<Rightarrow> ('w, 'a) tunnel_scheme \<Rightarrow> ('w, 'a) tunnel_scheme" where
  "put_connection c t s = s\<lparr>m_connections := (m_connections s)(c \<mapsto> t)\<rparr>"

text \<open>The streams, as \<open>getReader()\<close> and \<open>getWriter()\<close> give them.\<close>

definition reading ::
  "(read_stream \<Rightarrow> ('x \<times> read_stream) res) \<Rightarrow> ('w, 'a) tunnel_scheme \<Rightarrow> ('x \<times> ('w, 'a) tunnel_scheme) res" where
  "reading f s = bindE (f (m_read_stream s)) (\<lambda>(x, r). Inr (x, s\<lparr>m_read_stream := r\<rparr>))"

definition writing ::
  "(write_stream \<Rightarrow> write_stream) \<Rightarrow> ('w, 'a) tunnel_scheme \<Rightarrow> ('w, 'a) tunnel_scheme" where
  "writing f s = s\<lparr>m_write_stream := f (m_write_stream s)\<rparr>"

text \<open>\<open>writeShort(x)\<close> of an \<open>int\<close>, and \<open>readShort()\<close> into an \<open>int\<close>.\<close>

definition put_short :: "c_int \<Rightarrow> ('w, 'a) tunnel_scheme \<Rightarrow> ('w, 'a) tunnel_scheme" where
  "put_short x = writing (WriteStream_writeShort (to_short x))"

definition get_short :: "('w, 'a) tunnel_scheme \<Rightarrow> (short \<times> ('w, 'a) tunnel_scheme) res" where
  "get_short = reading ReadStream_readShort"

definition CustomWriteStream_send :: "('w, 'a) tunnel_op" where
  "CustomWriteStream_send s =
     (if \<not> m_writer_attached s then Inl (MyException ''send uninitialized write stream'')
      else Inr (Poller_setEvents P_Tunnel (m_writer_fd s) POLLOUT (writing WriteStream_send s)))"

text \<open>A world transformer (a system call whose result is ignored).\<close>

definition on_world :: "('w \<Rightarrow> 'w) \<Rightarrow> ('w, 'a) tunnel_scheme \<Rightarrow> ('w, 'a) tunnel_scheme" where
  "on_world f s = s\<lparr>world := f (world s)\<rparr>"

text \<open>A system call: its result and the tunnel in the world it leaves.\<close>

definition syscall ::
  "('w \<Rightarrow> 'x \<times> 'w) \<Rightarrow> ('w, 'a) tunnel_scheme \<Rightarrow> 'x \<times> ('w, 'a) tunnel_scheme" where
  "syscall f s = (case f (world s) of (x, w) \<Rightarrow> (x, s\<lparr>world := w\<rparr>))"

end
