(* ===== verification/Tunnel_Links.thy ===== *)
theory Tunnel_Links
  imports Tunnel_State
begin

text \<open>
  \<open>TunnelConnection\<close>, its two kinds \<open>ListenSide\<close> and \<open>ConnectSide\<close>, and
  \<open>ConnectionLink\<close> (\<open>stdio_tunnel/StdioTunnel.cpp\<close>): one forwarded port and the
  sockets opened for it. Every handler is here in full; \<open>reportError\<close>, which the two ends of
  the tunnel define differently, is a parameter.
\<close>

section \<open>Links\<close>

definition ConnectionLink_new :: "nat \<Rightarrow> short \<Rightarrow> c_int \<Rightarrow> connection_link" where
  "ConnectionLink_new connection i sock =
     \<lparr>m_connection = connection, m_socket = sock, lk_id = i, m_buffer = SockBuffer_new,
      m_closing = False, m_acknowledged = True\<rparr>"

text \<open>\<open>make_shared<ConnectionLink>(...)\<close>\<close>

definition new_link ::
  "connection_link \<Rightarrow> ('w, 'a) tunnel_scheme \<Rightarrow> nat \<times> ('w, 'a) tunnel_scheme" where
  "new_link l s = (m_next_obj s, put_link (m_next_obj s) l (s\<lparr>m_next_obj := Suc (m_next_obj s)\<rparr>))"

definition ConnectionLink_setPollfd ::
  "nat \<Rightarrow> pollfd \<Rightarrow> ('w, 'a) tunnel_scheme \<Rightarrow> (pollfd \<times> ('w, 'a) tunnel_scheme) res" where
  "ConnectionLink_setPollfd a ps s =
     bindE (deref_link a s) (\<lambda>l. Inr (ps\<lparr>fd := m_socket l, events := POLLIN\<rparr>, s))"

definition ConnectionLink_cleanup :: "('w, 'o) posix_scheme \<Rightarrow> nat \<Rightarrow> ('w, 'a) tunnel_op" where
  "ConnectionLink_cleanup os a s =
     bindE (deref_link a s) (\<lambda>l. Inr (on_world (sys_close os (m_socket l)) s))"

definition ConnectionLink_setAcknowledged :: "bool \<Rightarrow> nat \<Rightarrow> ('w, 'a) tunnel_op" where
  "ConnectionLink_setAcknowledged ack a s =
     bindE (deref_link a s) (\<lambda>l.
       let l = l\<lparr>m_acknowledged := ack\<rparr>;
           s = put_link a l s
       in if \<not> m_closing l
          then let evs = (if m_acknowledged l then POLLIN else 0) OR
                         (if SockBuffer_unsentData (m_buffer l) then POLLOUT else 0)
               in Inr (Poller_setEvents (P_Link a) (m_socket l) evs s)
          else Inr s)"

definition ConnectionLink_setClosing :: "('w, 'o) posix_scheme \<Rightarrow> nat \<Rightarrow> ('w, 'a) tunnel_op" where
  "ConnectionLink_setClosing os a s =
     bindE (deref_link a s) (\<lambda>l.
       let s = put_link a (l\<lparr>m_closing := True\<rparr>) s;
           s = on_world (sys_close os (m_socket l)) s
       in Inr (Poller_removePolled (P_Link a) (m_socket l) s))"

text \<open>
  \<open>closeLink\<close> and \<open>sendData\<close> are members of the connection \<open>c\<close>; the header of every
  message on a connection is the same three numbers.
\<close>

definition put_header :: "c_int \<Rightarrow> c_int \<Rightarrow> short \<Rightarrow> ('w, 'a) tunnel_scheme \<Rightarrow> ('w, 'a) tunnel_scheme" where
  "put_header i command link_id s =
     writing (WriteStream_writeShort link_id) (put_short command (put_short i (put_short CMD_CONNECTION s)))"

definition TunnelConnection_closeLink ::
  "('w, 'o) posix_scheme \<Rightarrow> nat \<Rightarrow> nat \<Rightarrow> ('w, 'a) tunnel_op" where
  "TunnelConnection_closeLink os c a s =
     bindE (deref_link a s) (\<lambda>l.
       if \<not> m_closing l
       then bindE (ConnectionLink_setClosing os a s) (\<lambda>s.
              bindE (deref_connection c s) (\<lambda>t.
                CustomWriteStream_send (put_header (tc_id t) LINK_CLOSE (lk_id l) s)))
       else Inr s)"

definition TunnelConnection_sendData :: "nat \<Rightarrow> nat \<Rightarrow> bytes \<Rightarrow> ('w, 'a) tunnel_op" where
  "TunnelConnection_sendData c a bs s =
     bindE (deref_connection c s) (\<lambda>t.
     bindE (deref_link a s) (\<lambda>l.
       let command = (if has_flag ACK_PACKETS (m_spec t) then LINK_SEND_FOR_ACK else LINK_SEND);
           s = put_header (tc_id t) command (lk_id l) s;
           s = put_short (int (length bs)) s;
           s = writing (WriteStream_writeBytes bs) s
       in CustomWriteStream_send s))"

text \<open>The \<open>POLLIN\<close> part of \<open>polled\<close>; the flag says that the function returns there.\<close>

definition ConnectionLink_readable ::
  "('w, 'o) posix_scheme \<Rightarrow> nat \<Rightarrow> ('w, 'a) tunnel_scheme \<Rightarrow> (bool \<times> ('w, 'a) tunnel_scheme) res" where
  "ConnectionLink_readable os a s =
     bindE (deref_link a s) (\<lambda>l.
       case syscall (sys_read os (m_socket l) TunnelConnection_BUFFER_SIZE) s of
         (Inl e, s) \<Rightarrow> bindE (TunnelConnection_closeLink os (m_connection l) a s) (\<lambda>s. Inr (True, s))
       | (Inr bs, s) \<Rightarrow>
           if length bs = 0
           then bindE (TunnelConnection_closeLink os (m_connection l) a s) (\<lambda>s. Inr (True, s))
           else bindE (TunnelConnection_sendData (m_connection l) a bs s) (\<lambda>s.
                bindE (deref_connection (m_connection l) s) (\<lambda>t.
                  if has_flag ACK_PACKETS (m_spec t)
                  then bindE (ConnectionLink_setAcknowledged False a s) (\<lambda>s. Inr (False, s))
                  else Inr (False, s))))"

text \<open>The \<open>POLLOUT\<close> part.\<close>

definition ConnectionLink_writable :: "('w, 'o) posix_scheme \<Rightarrow> nat \<Rightarrow> ('w, 'a) tunnel_op" where
  "ConnectionLink_writable os a s =
     bindE (deref_link a s) (\<lambda>l.
     bindE (SockBuffer_writeData os (m_socket l) (m_buffer l) (world s)) (\<lambda>(_, b, w).
       let l = l\<lparr>m_buffer := b\<rparr>;
           s = put_link a l (s\<lparr>world := w\<rparr>)
       in Inr (if \<not> SockBuffer_unsentData b
               then Poller_setEvents (P_Link a) (m_socket l) (if m_acknowledged l then POLLIN else 0) s
               else s)))"

definition ConnectionLink_polled ::
  "('w, 'o) posix_scheme \<Rightarrow> nat \<Rightarrow> nat \<Rightarrow> ('w, 'a) tunnel_op" where
  "ConnectionLink_polled os a pa s =
     bindE (Poller_deref pa s) (\<lambda>ps.
     bindE (if flag POLLIN (revents ps) then ConnectionLink_readable os a s else Inr (False, s))
       (\<lambda>(returned, s).
         if returned then Inr s
         else
           bindE (Poller_deref pa s) (\<lambda>ps.
           bindE (if flag POLLOUT (revents ps) then ConnectionLink_writable os a s else Inr s) (\<lambda>s.
           bindE (Poller_deref pa s) (\<lambda>ps.
             if flag (POLLERR OR POLLHUP OR POLLNVAL) (revents ps)
             then bindE (deref_link a s) (\<lambda>l. TunnelConnection_closeLink os (m_connection l) a s)
             else Inr s)))))"

section \<open>Messages for a link\<close>

definition TunnelConnection_receiveData :: "nat \<Rightarrow> ('w, 'a) tunnel_op" where
  "TunnelConnection_receiveData a s =
     bindE (get_short s) (\<lambda>(len, s).
       if of_short len > int TunnelConnection_BUFFER_SIZE then Inl (MyException ''Bad receive length'')
       else bindE (reading (ReadStream_readBytes (of_short len)) s) (\<lambda>(buffer, s).
            bindE (deref_link a s) (\<lambda>l.
              if \<not> m_closing l
              then Inr (Poller_setEvents (P_Link a) (m_socket l) POLLOUT
                     (put_link a (l\<lparr>m_buffer := SockBuffer_pushOnBuffer buffer (m_buffer l)\<rparr>) s))
              else Inr s)))"

text \<open>
  \<open>m_link_map.erase(...)\<close>, which destroys the link: the only other owner is the local pointer
  of the caller, which is not used any more.
\<close>

definition erase_link :: "nat \<Rightarrow> short \<Rightarrow> ('w, 'a) tunnel_op" where
  "erase_link c link_id s =
     bindE (deref_connection c s) (\<lambda>t.
       case m_link_map t link_id of
         None \<Rightarrow> Inl (Undefined BadIterator)
       | Some a \<Rightarrow> Inr (free_link a (put_connection c (t\<lparr>m_link_map := (m_link_map t)(link_id := None)\<rparr>) s)))"

definition TunnelConnection_processLinkMessage ::
  "('w, 'o) posix_scheme \<Rightarrow> nat \<Rightarrow> c_int \<Rightarrow> nat \<Rightarrow> ('w, 'a) tunnel_op" where
  "TunnelConnection_processLinkMessage os c command a s =
     (if command = LINK_SEND then TunnelConnection_receiveData a s
      else if command = LINK_CLOSE then
        bindE (TunnelConnection_closeLink os c a s) (\<lambda>s.
        bindE (deref_link a s) (\<lambda>l. erase_link c (lk_id l) s))
      else if command = LINK_SEND_FOR_ACK then
        bindE (TunnelConnection_receiveData a s) (\<lambda>s.
        bindE (deref_link a s) (\<lambda>l.
          if \<not> m_closing l
          then bindE (deref_connection c s) (\<lambda>t.
                 CustomWriteStream_send (put_header (tc_id t) LINK_ACK (lk_id l) s))
          else ConnectionLink_setAcknowledged True a s))
      else if command = LINK_ACK then ConnectionLink_setAcknowledged True a s
      else Inr s)"

text \<open>\<open>m_link_map[id] = link\<close>; a link that was there before is destroyed.\<close>

definition assign_link :: "nat \<Rightarrow> short \<Rightarrow> nat \<Rightarrow> ('w, 'a) tunnel_op" where
  "assign_link c link_id a s =
     bindE (deref_connection c s) (\<lambda>t.
       let s = (case m_link_map t link_id of None \<Rightarrow> s | Some old \<Rightarrow> free_link old s)
       in Inr (put_connection c (t\<lparr>m_link_map := (m_link_map t)(link_id \<mapsto> a)\<rparr>) s))"

section \<open>The listening side\<close>

text \<open>The decimal text of a \<open>short\<close>, as \<open>operator<<\<close> prints it.\<close>

definition show_int :: "int \<Rightarrow> string" where
  "show_int i = (if i < 0 then CHR ''-'' # show_nat (nat (- i)) else show_nat (nat i))"

definition ListenSide_new :: "connection_spec \<Rightarrow> c_int \<Rightarrow> tunnel_connection" where
  "ListenSide_new spec i =
     \<lparr>m_spec = spec, tc_id = i, m_kind = ListenSide, m_link_map = Map.empty, m_listen_socket = -1,
      m_next_id = 501\<rparr>"

definition ListenSide_processMessage :: "('w, 'o) posix_scheme \<Rightarrow> nat \<Rightarrow> ('w, 'a) tunnel_op" where
  "ListenSide_processMessage os c s =
     bindE (get_short s) (\<lambda>(cmd, s).
     bindE (get_short s) (\<lambda>(link_id, s).
     bindE (deref_connection c s) (\<lambda>t.
       case m_link_map t link_id of
         None \<Rightarrow> Inl (MyException (''Link: '' @ show_int (of_short link_id) @ '' not found''))
       | Some a \<Rightarrow>
           if of_short cmd = LINK_CREATE then
             bindE (get_short s) (\<lambda>(result_code, s).
               if of_short result_code = LINK_SUCCESS
               then Poller_addPolled (\<lambda>_. ConnectionLink_setPollfd a) (P_Link a) s
               else bindE (deref_link a s) (\<lambda>l.
                      erase_link c link_id (on_world (sys_close os (m_socket l)) s)))
           else TunnelConnection_processLinkMessage os c (of_short cmd) a s)))"

text \<open>
  \<open>initialize\<close> opens the listening socket of a connection object that is not yet on the heap;
  only a failing \<open>bind\<close> throws.
\<close>

definition ListenSide_initialize ::
  "('w, 'o) net_posix_scheme \<Rightarrow> tunnel_connection \<Rightarrow> ('w, 'a) tunnel_scheme \<Rightarrow>
     (bool \<times> tunnel_connection \<times> ('w, 'a) tunnel_scheme) res" where
  "ListenSide_initialize os t s =
     (case syscall (sys_socket os) s of
        (Inl e, s) \<Rightarrow> Inr (False, t\<lparr>m_listen_socket := -1\<rparr>, s)
      | (Inr sock, s) \<Rightarrow>
          let t = t\<lparr>m_listen_socket := sock\<rparr> in
          case syscall (sys_bind os sock (listen_addr (m_spec t)) (to_short (m_listen_port (m_spec t)))) s of
            (Inl e, s) \<Rightarrow> Inl (MyExceptionErrno e)
          | (Inr _, s) \<Rightarrow>
              (case syscall (sys_nonblock os sock) s of
                 (Inl e, s) \<Rightarrow> Inr (False, t, s)
               | (Inr _, s) \<Rightarrow>
                   (case syscall (sys_listen os sock 5) s of
                      (Inl e, s) \<Rightarrow> Inr (False, t, s)
                    | (Inr _, s) \<Rightarrow> Inr (True, t, s))))"

definition ListenSide_setPollfd ::
  "nat \<Rightarrow> pollfd \<Rightarrow> ('w, 'a) tunnel_scheme \<Rightarrow> (pollfd \<times> ('w, 'a) tunnel_scheme) res" where
  "ListenSide_setPollfd c ps s =
     bindE (deref_connection c s) (\<lambda>t. Inr (ps\<lparr>fd := m_listen_socket t, events := POLLIN\<rparr>, s))"

definition ListenSide_cleanup :: "('w, 'o) posix_scheme \<Rightarrow> nat \<Rightarrow> ('w, 'a) tunnel_op" where
  "ListenSide_cleanup os c s =
     bindE (deref_connection c s) (\<lambda>t. Inr (on_world (sys_close os (m_listen_socket t)) s))"

definition ListenSide_polled :: "('w, 'o) net_posix_scheme \<Rightarrow> nat \<Rightarrow> ('w, 'a) tunnel_op" where
  "ListenSide_polled os c s =
     bindE (deref_connection c s) (\<lambda>t.
       case syscall (sys_accept os (m_listen_socket t)) s of
         (Inl e, s) \<Rightarrow> Inl (MyExceptionErrno e)
       | (Inr connect_sock, s) \<Rightarrow>
           (case syscall (sys_nonblock os connect_sock) s of
              (Inl e, s) \<Rightarrow> Inl (MyExceptionErrno e)
            | (Inr _, s) \<Rightarrow>
                let next_id = m_next_id t;
                    s = put_connection c (t\<lparr>m_next_id := m_next_id t + 1\<rparr>) s;
                    (a, s) = new_link (ConnectionLink_new c (to_short next_id) connect_sock) s
                in bindE (assign_link c (to_short next_id) a s) (\<lambda>s.
                     CustomWriteStream_send (put_header (tc_id t) LINK_CREATE (to_short next_id) s))))"

section \<open>The connecting side\<close>

definition ConnectSide_new :: "connection_spec \<Rightarrow> c_int \<Rightarrow> tunnel_connection" where
  "ConnectSide_new spec i =
     \<lparr>m_spec = spec, tc_id = i, m_kind = ConnectSide, m_link_map = Map.empty, m_listen_socket = -1,
      m_next_id = 0\<rparr>"

text \<open>The attempt to connect for \<open>LINK_CREATE\<close>: whether it succeeded, and the state.\<close>

definition ConnectSide_connect ::
  "('w, 'o) net_posix_scheme \<Rightarrow> (string \<Rightarrow> ('w, 'a) tunnel_op) \<Rightarrow> nat \<Rightarrow> tunnel_connection \<Rightarrow> short \<Rightarrow>
     ('w, 'a) tunnel_scheme \<Rightarrow> (bool \<times> ('w, 'a) tunnel_scheme) res" where
  "ConnectSide_connect os reportError c t link_id s =
     (case syscall (sys_gethostbyname os (m_connect_host (m_spec t))) s of
        (None, s) \<Rightarrow>
          bindE (reportError (m_connect_host (m_spec t) @ '' not found'') s) (\<lambda>s. Inr (False, s))
      | (Some addr, s) \<Rightarrow>
          (case syscall (sys_socket os) s of
             (Inl e, s) \<Rightarrow>
               bindE (reportError ''Cannot create connect socket'' s) (\<lambda>s. Inr (False, s))
           | (Inr connect_sock, s) \<Rightarrow>
               bindE
                 (case syscall (sys_connect os connect_sock addr (to_short (m_connect_port (m_spec t)))) s of
                    (Inl e, s) \<Rightarrow>
                      bindE (reportError (''Failed to connect to '' @ m_connect_host (m_spec t)) s)
                        (\<lambda>s. Inr (False, s))
                  | (Inr _, s) \<Rightarrow>
                      (case syscall (sys_nonblock os connect_sock) s of
                         (Inl e, s) \<Rightarrow>
                           bindE (reportError ''Failed to set connect socket non blocking'' s)
                             (\<lambda>s. Inr (False, s))
                       | (Inr _, s) \<Rightarrow>
                           let (a, s) = new_link (ConnectionLink_new c link_id connect_sock) s in
                           bindE (Poller_addPolled (\<lambda>_. ConnectionLink_setPollfd a) (P_Link a) s) (\<lambda>s.
                           bindE (assign_link c link_id a s) (\<lambda>s. Inr (True, s)))))
                 (\<lambda>(success, s).
                    Inr (success, if success then s else on_world (sys_close os connect_sock) s))))"

definition ConnectSide_processMessage ::
  "('w, 'o) net_posix_scheme \<Rightarrow> (string \<Rightarrow> ('w, 'a) tunnel_op) \<Rightarrow> nat \<Rightarrow> ('w, 'a) tunnel_op" where
  "ConnectSide_processMessage os reportError c s =
     bindE (get_short s) (\<lambda>(command, s).
     bindE (get_short s) (\<lambda>(link_id, s).
     bindE (deref_connection c s) (\<lambda>t.
       if of_short command = LINK_CREATE then
         bindE (ConnectSide_connect os reportError c t link_id s) (\<lambda>(success, s).
           let s = put_header (tc_id t) LINK_CREATE link_id s;
               s = put_short (if success then LINK_SUCCESS else LINK_FAILURE) s
           in CustomWriteStream_send s)
       else
         (case m_link_map t link_id of
            None \<Rightarrow> Inr s
          | Some a \<Rightarrow> TunnelConnection_processLinkMessage os c (of_short command) a s))))"

section \<open>Connections\<close>

text \<open>The virtual \<open>processMessage\<close>.\<close>

definition TunnelConnection_processMessage ::
  "('w, 'o) net_posix_scheme \<Rightarrow> (string \<Rightarrow> ('w, 'a) tunnel_op) \<Rightarrow> nat \<Rightarrow> ('w, 'a) tunnel_op" where
  "TunnelConnection_processMessage os reportError c s =
     bindE (deref_connection c s) (\<lambda>t.
       case m_kind t of
         ListenSide \<Rightarrow> ListenSide_processMessage os c s
       | ConnectSide \<Rightarrow> ConnectSide_processMessage os reportError c s)"

text \<open>A new connection object; the result is its address, or a null pointer.\<close>

definition TunnelConnection_CreateConnection ::
  "('w, 'o) net_posix_scheme \<Rightarrow> connection_spec \<Rightarrow> bool \<Rightarrow> c_int \<Rightarrow> ('w, 'a) tunnel_scheme \<Rightarrow>
     (nat option \<times> ('w, 'a) tunnel_scheme) res" where
  "TunnelConnection_CreateConnection os spec is_local i s =
     (let c = m_next_obj s in
      if (is_local \<and> m_connection_type spec = CONNECT) \<or> (\<not> is_local \<and> m_connection_type spec = LISTEN)
      then bindE (ListenSide_initialize os (ListenSide_new spec i) s) (\<lambda>(ok, listener, s).
             if ok
             then bindE (Poller_addPolled (\<lambda>_. ListenSide_setPollfd c) (P_Listen c)
                    (put_connection c listener (s\<lparr>m_next_obj := Suc c\<rparr>))) (\<lambda>s. Inr (Some c, s))
             else Inr (None, s))
      else Inr (Some c, put_connection c (ConnectSide_new spec i) (s\<lparr>m_next_obj := Suc c\<rparr>)))"

text \<open>\<open>m_connection_map[id] = pConn\<close>; a connection that was there before is destroyed, and its
  links with it.\<close>

definition free_connection :: "nat \<Rightarrow> ('w, 'a) tunnel_scheme \<Rightarrow> ('w, 'a) tunnel_scheme" where
  "free_connection c s =
     s\<lparr>m_connections := (m_connections s)(c := None),
       m_links := (\<lambda>a. case m_links s a of
                          None \<Rightarrow> None
                        | Some l \<Rightarrow> if m_connection l = c then None else Some l)\<rparr>"

definition assign_connection :: "c_int \<Rightarrow> nat \<Rightarrow> ('w, 'a) tunnel_scheme \<Rightarrow> ('w, 'a) tunnel_scheme" where
  "assign_connection i c s =
     (let s = (case map_find i (m_connection_map s) of None \<Rightarrow> s | Some old \<Rightarrow> free_connection old s)
      in s\<lparr>m_connection_map := map_assign i c (m_connection_map s)\<rparr>)"

text \<open>\<open>m_connection_map[id]->processMessage(*this)\<close>; a missing id gives a null pointer.\<close>

definition forward_message ::
  "('w, 'o) net_posix_scheme \<Rightarrow> (string \<Rightarrow> ('w, 'a) tunnel_op) \<Rightarrow> c_int \<Rightarrow> ('w, 'a) tunnel_op" where
  "forward_message os reportError i s =
     (case map_find i (m_connection_map s) of
        None \<Rightarrow> Inl (Undefined NullPointer)
      | Some c \<Rightarrow> TunnelConnection_processMessage os reportError c s)"

end
