(* ===== verification/Tunnel_Frame.thy ===== *)
theory Tunnel_Frame
  imports Tunnel_Links
begin

text \<open>
  What the operations on connections and links leave alone. \<open>tun_rel s s'\<close> relates the tunnel
  before and after any of them: the poller's table changes by the poller's own steps, the entries
  of the tunnel itself stay, what they ask for changes only for the writer's descriptor and only to
  \<open>POLLOUT\<close>, and a packet that waits to be written keeps the poller watching for a chance to
  write it.
\<close>

section \<open>The relation\<close>

text \<open>A packet waits only where the poller has been asked for \<open>POLLOUT\<close>.\<close>

definition wants_out :: "('w, 'a) tunnel_scheme \<Rightarrow> c_int \<Rightarrow> bool" where
  "wants_out s f \<longleftrightarrow> (\<exists>ev. poller_map s (P_Tunnel, f) = Some ev \<and> flag POLLOUT ev)"

definition awake :: "('w, 'a) tunnel_scheme \<Rightarrow> bool" where
  "awake s \<longleftrightarrow> (WriteStream_pendingWrite (m_write_stream s) \<longrightarrow> wants_out s (m_writer_fd s))"

definition attached :: "('w, 'a) tunnel_scheme \<Rightarrow> bool" where
  "attached s \<longleftrightarrow> m_writer_attached s \<and> poller_map s (P_Tunnel, m_writer_fd s) \<noteq> None"

definition keeps_tunnel :: "('w, 'a) tunnel_scheme \<Rightarrow> ('w, 'a) tunnel_scheme \<Rightarrow> bool" where
  "keeps_tunnel s s' \<longleftrightarrow>
     (\<forall>e \<in> set (m_polled s). e_polled e = P_Tunnel \<longrightarrow> ident e \<in> ident ` set (m_polled s'))"

definition tun_core :: "('w, 'a) tunnel_scheme \<Rightarrow> ('w, 'a) tunnel_scheme \<Rightarrow> bool" where
  "tun_core s s' \<longleftrightarrow> poller_steps s s' \<and> keeps_tunnel s s' \<and>
     m_writer_fd s' = m_writer_fd s \<and> m_writer_attached s' = m_writer_attached s \<and>
     (ws_inv (m_write_stream s) \<longrightarrow> ws_inv (m_write_stream s')) \<and>
     (rs_inv (m_read_stream s) \<longrightarrow> rs_inv (m_read_stream s')) \<and>
     (\<forall>f. poller_map s' (P_Tunnel, f) = None \<longleftrightarrow> poller_map s (P_Tunnel, f) = None) \<and>
     (\<forall>f. f \<noteq> m_writer_fd s \<longrightarrow> poller_map s' (P_Tunnel, f) = poller_map s (P_Tunnel, f)) \<and>
     (attached s \<and> awake s \<longrightarrow> awake s') \<and> (\<forall>f. wants_out s f \<longrightarrow> wants_out s' f) \<and>
     (WriteStream_pendingWrite (m_write_stream s) \<longrightarrow> WriteStream_pendingWrite (m_write_stream s'))"

text \<open>The operations of connections and links also leave alone what the two sides add to the tunnel.\<close>

definition tun_rel :: "('w, 'a) tunnel_scheme \<Rightarrow> ('w, 'a) tunnel_scheme \<Rightarrow> bool" where
  "tun_rel s s' \<longleftrightarrow> tun_core s s' \<and> tunnel.more s' = tunnel.more s"

text \<open>The exceptions these operations end in: no dangling reference, no bound of the model.\<close>

definition tame :: "exn \<Rightarrow> bool" where
  "tame e \<longleftrightarrow> e \<noteq> Undefined DanglingPollfd \<and> e \<noteq> OutOfFuel"

lemma tame_simps [simp]:
  "tame (MyException m)" "tame (MyExceptionErrno e)" "tame (CStringExn m)"
  "tame (Undefined UseAfterFree)" "tame (Undefined NullPointer)" "tame (Undefined BadIterator)"
  "tame (Undefined EmptyDeque)" "tame (ExitProcess c)" "tame (ExecProcess cs)"
  by (simp_all add: tame_def)

abbreviation frame_ok :: "('w, 'a) tunnel_scheme \<Rightarrow> ('w, 'a) tunnel_scheme res \<Rightarrow> bool" where
  "frame_ok s \<equiv> res_ok tame (tun_rel s)"

abbreviation core_ok :: "('w, 'a) tunnel_scheme \<Rightarrow> ('w, 'a) tunnel_scheme res \<Rightarrow> bool" where
  "core_ok s \<equiv> res_ok tame (tun_core s)"

lemma tun_core_refl [simp, intro!]: "tun_core s s"
  by (simp add: tun_core_def keeps_tunnel_def)

lemma tun_rel_refl [simp, intro!]: "tun_rel s s"
  by (simp add: tun_rel_def)

lemma tun_rel_core: "tun_rel s t \<Longrightarrow> tun_core s t"
  by (simp add: tun_rel_def)

lemma keeps_tunnel_trans:
  assumes "keeps_tunnel s t" "keeps_tunnel t u"
  shows "keeps_tunnel s u"
  unfolding keeps_tunnel_def
proof (intro ballI impI)
  fix e
  assume "e \<in> set (m_polled s)" "e_polled e = P_Tunnel"
  then obtain e' where e': "e' \<in> set (m_polled t)" "ident e = ident e'"
    using assms(1) by (auto simp: keeps_tunnel_def)
  then have "e_polled e' = P_Tunnel"
    using \<open>e_polled e = P_Tunnel\<close> by (simp add: ident_def)
  with e' show "ident e \<in> ident ` set (m_polled u)"
    using assms(2) by (simp add: keeps_tunnel_def)
qed

lemma tun_core_attached: "tun_core s t \<Longrightarrow> attached s = attached t"
  by (simp add: tun_core_def attached_def)

lemma tun_core_trans:
  assumes "tun_core s t" "tun_core t u"
  shows "tun_core s u"
proof -
  have "poller_steps s u"
    using assms by (auto simp: tun_core_def intro: rtranclp_trans)
  moreover have "keeps_tunnel s u"
    using assms keeps_tunnel_trans [of s t u] by (simp add: tun_core_def)
  moreover have "attached s \<and> awake s \<longrightarrow> awake u"
    using assms tun_core_attached [OF assms(1)] by (simp add: tun_core_def)
  ultimately show ?thesis
    using assms unfolding tun_core_def by simp
qed

lemma tun_rel_trans: "tun_rel s t \<Longrightarrow> tun_rel t u \<Longrightarrow> tun_rel s u"
  by (auto simp: tun_rel_def intro: tun_core_trans)

lemma core_ok_trans: "tun_core s t \<Longrightarrow> core_ok t r \<Longrightarrow> core_ok s r"
  by (rule res_ok_mono) (blast intro: tun_core_trans)+

lemma frame_core: "frame_ok s r \<Longrightarrow> core_ok s r"
  by (erule res_ok_mono) (auto simp: tun_rel_def)

lemma frame_ok_trans: "tun_rel s t \<Longrightarrow> frame_ok t r \<Longrightarrow> frame_ok s r"
  by (rule res_ok_mono) (blast intro: tun_rel_trans)+

section \<open>Primitive operations\<close>

text \<open>Changes outside the table and the writer.\<close>

lemma tun_core_same:
  assumes "m_polled s' = m_polled s" "m_orig_size s' = m_orig_size s" "m_index s' = m_index s"
    "m_next_addr s' = m_next_addr s" "m_writer_fd s' = m_writer_fd s"
    "m_writer_attached s' = m_writer_attached s"
    "m_packet_queue (m_write_stream s') = m_packet_queue (m_write_stream s)"
    "rs_inv (m_read_stream s) \<Longrightarrow> rs_inv (m_read_stream s')"
  shows "tun_core s s'"
proof -
  have "poller_step s s'"
    by (rule poller_step.change) (simp_all add: assms)
  then have "poller_steps s s'" by blast
  moreover have "poller_map s' = poller_map s"
    by (simp add: poller_map_def assms fun_eq_iff)
  ultimately show ?thesis
    by (simp add: tun_core_def keeps_tunnel_def wants_out_def awake_def ws_inv_def WriteStream_pendingWrite_def assms)
qed

lemma tun_rel_same:
  assumes "m_polled s' = m_polled s" "m_orig_size s' = m_orig_size s" "m_index s' = m_index s"
    "m_next_addr s' = m_next_addr s" "m_writer_fd s' = m_writer_fd s"
    "m_writer_attached s' = m_writer_attached s"
    "m_packet_queue (m_write_stream s') = m_packet_queue (m_write_stream s)"
    "rs_inv (m_read_stream s) \<Longrightarrow> rs_inv (m_read_stream s')" "tunnel.more s' = tunnel.more s"
  shows "tun_rel s s'"
  unfolding tun_rel_def using assms by (auto intro!: tun_core_same)

lemma tun_rel_put [intro!]:
  "tun_rel s (put_link a l s)" "tun_rel s (free_link a s)" "tun_rel s (put_connection c t s)"
  "tun_rel s (on_world g s)" "tun_rel s (s\<lparr>m_next_obj := n\<rparr>)" "tun_rel s (put_short x s)"
  "tun_rel s (writing (WriteStream_writeShort y) s)" "tun_rel s (writing (WriteStream_writeBytes bs) s)"
  "tun_rel s (writing (WriteStream_writeString str) s)" "tun_rel s (put_header i cmd y s)"
  "tun_rel s (s\<lparr>world := w\<rparr>)" "tun_rel s (s\<lparr>m_connection_map := mp\<rparr>)"
  by (rule tun_rel_same;
      simp add: put_link_def free_link_def put_connection_def on_world_def put_short_def put_header_def
        writing_def WriteStream_writeShort_def WriteStream_writeBytes_def WriteStream_writeString_def
        WriteStream_writeLong_def Let_def)+

lemma tun_rel_syscall: "syscall g s = (x, s') \<Longrightarrow> tun_rel s s'"
  by (auto simp: syscall_def split: prod.splits intro!: tun_rel_same)

text \<open>The fields of the tunnel that the poller's operations do not know of.\<close>

lemma tunnel_fields_setEvents [simp]:
  "m_write_stream (Poller_setEvents p f ev s) = m_write_stream s"
  "m_read_stream (Poller_setEvents p f ev s) = m_read_stream s"
  "m_writer_fd (Poller_setEvents p f ev s) = m_writer_fd s"
  "m_writer_attached (Poller_setEvents p f ev s) = m_writer_attached s"
  "m_links (Poller_setEvents p f ev s) = m_links s"
  "m_connections (Poller_setEvents p f ev s) = m_connections s"
  "m_connection_map (Poller_setEvents p f ev s) = m_connection_map s"
  "m_next_obj (Poller_setEvents p f ev s) = m_next_obj s"
  "tunnel.more (Poller_setEvents p f ev s) = tunnel.more s"
  by (simp_all add: Poller_setEvents_def Let_def split: option.splits)

lemma tunnel_fields_removePolled [simp]:
  "m_write_stream (Poller_removePolled p f s) = m_write_stream s"
  "m_read_stream (Poller_removePolled p f s) = m_read_stream s"
  "m_writer_fd (Poller_removePolled p f s) = m_writer_fd s"
  "m_writer_attached (Poller_removePolled p f s) = m_writer_attached s"
  "m_links (Poller_removePolled p f s) = m_links s"
  "m_connections (Poller_removePolled p f s) = m_connections s"
  "m_connection_map (Poller_removePolled p f s) = m_connection_map s"
  "m_next_obj (Poller_removePolled p f s) = m_next_obj s"
  "tunnel.more (Poller_removePolled p f s) = tunnel.more s"
  by (simp_all add: Poller_removePolled_def Let_def split: option.splits)

lemma keeps_tunnel_idents:
  "ident ` set (m_polled s') = ident ` set (m_polled s) \<Longrightarrow> keeps_tunnel s s'"
  by (auto simp: keeps_tunnel_def)

lemma keeps_tunnel_setEvents: "keeps_tunnel s (Poller_setEvents p f ev s)"
  by (rule keeps_tunnel_idents) (metis list.set_map setEvents_idents)

lemma tun_rel_setEvents_other:
  assumes "p \<noteq> P_Tunnel"
  shows "tun_rel s (Poller_setEvents p f ev s)"
  using assms setEvents_step [of s p f ev]
  by (auto simp: tun_rel_def tun_core_def keeps_tunnel_setEvents setEvents_map wants_out_def awake_def)

text \<open>Removing an entry leaves the lookup of every other key as it is.\<close>

lemma entry_map_erase_other:
  "Poller_findPolled p f es = Some i \<Longrightarrow> k \<noteq> (p, f) \<Longrightarrow>
     entry_map (take i es @ drop (Suc i) es) k = entry_map es k"
  by (induction es arbitrary: i) (auto split: if_splits)

lemma removePolled_map_other:
  "k \<noteq> (p, f) \<Longrightarrow> poller_map (Poller_removePolled p f s) k = poller_map s k"
  by (auto simp: Poller_removePolled_def poller_map_def Let_def entry_map_erase_other split: option.splits)

lemma removePolled_keeps_entry:
  assumes "e \<in> set (m_polled s)" "(e_polled e, fd (e_pollfd e)) \<noteq> (p, f)"
  shows "e \<in> set (m_polled (Poller_removePolled p f s))"
proof (cases "Poller_findPolled p f (m_polled s)")
  case (Some i)
  have "e \<noteq> m_polled s ! i"
    using assms(2) findPolled_Some [OF Some] by auto
  then have "e \<in> set (take i (m_polled s) @ drop (Suc i) (m_polled s))"
    using assms(1) findPolled_Some [OF Some] id_take_nth_drop [of i "m_polled s"]
    by (metis (no_types) Un_iff set_ConsD set_append)
  then show ?thesis
    by (simp add: Poller_removePolled_def Some Let_def)
qed (use assms in \<open>simp add: Poller_removePolled_def\<close>)

lemma tun_rel_removePolled:
  assumes "p \<noteq> P_Tunnel"
  shows "tun_rel s (Poller_removePolled p f s)"
proof -
  have "keeps_tunnel s (Poller_removePolled p f s)"
    using assms by (auto simp: keeps_tunnel_def intro!: imageI removePolled_keeps_entry)
  then show ?thesis
    using assms removePolled_step [of s p f]
    by (auto simp: tun_rel_def tun_core_def removePolled_map_other wants_out_def awake_def)
qed

lemma tun_rel_send: "frame_ok s (CustomWriteStream_send s)"
proof -
  let ?s' = "Poller_setEvents P_Tunnel (m_writer_fd s) POLLOUT (writing WriteStream_send s)"
  have step: "poller_step (writing WriteStream_send s) ?s'"
    by (rule setEvents_step)
  have "poller_step s (writing WriteStream_send s)"
    by (rule poller_step.change) (simp_all add: writing_def)
  with step have "poller_steps s ?s'"
    by (metis converse_rtranclp_into_rtranclp r_into_rtranclp)
  moreover have "keeps_tunnel s ?s'"
    using keeps_tunnel_setEvents [of "writing WriteStream_send s"] by (simp add: keeps_tunnel_def writing_def)
  moreover have "poller_map (writing WriteStream_send s) = poller_map s"
    by (simp add: fun_eq_iff poller_map_def writing_def)
  moreover have "ws_inv (m_write_stream s) \<longrightarrow> ws_inv (WriteStream_send (m_write_stream s))"
    using ws_inv_send by blast
  moreover have "WriteStream_pendingWrite (m_write_stream s) \<longrightarrow>
      WriteStream_pendingWrite (WriteStream_send (m_write_stream s))"
    by (simp add: WriteStream_send_def WriteStream_pendingWrite_def Let_def split: prod.splits)
  ultimately have "tun_rel s ?s'"
    by (auto simp: tun_rel_def tun_core_def setEvents_map writing_def wants_out_def awake_def attached_def)
  then show ?thesis
    by (simp add: CustomWriteStream_send_def)
qed

lemma tun_rel_append:
  assumes "p \<noteq> P_Tunnel"
  shows "tun_rel s (s\<lparr>m_polled := m_polled s @ [\<lparr>e_addr = m_next_addr s, e_polled = p, e_pollfd = ps\<rparr>],
    m_next_addr := Suc (m_next_addr s)\<rparr>)" (is "tun_rel s ?s'")
proof -
  have "poller_step s ?s'"
    by (rule poller_step.append [where e = "\<lparr>e_addr = m_next_addr s, e_polled = p, e_pollfd = ps\<rparr>"]) simp_all
  then have "poller_steps s ?s'" by blast
  moreover have "poller_map ?s' (P_Tunnel, f) = poller_map s (P_Tunnel, f)" for f
    using assms by (auto simp: poller_map_def entry_map_append split: option.splits)
  ultimately show ?thesis
    by (simp add: tun_rel_def tun_core_def keeps_tunnel_def wants_out_def awake_def)
qed

lemma tun_rel_addPolled:
  assumes "p \<noteq> P_Tunnel" "\<And>ps. res_ok tame (\<lambda>(_, t). tun_rel s t) (setp p ps s)"
  shows "frame_ok s (Poller_addPolled setp p s)"
  unfolding Poller_addPolled_def
  by (rule res_ok_bind [OF assms(2)]) (auto intro!: tun_rel_trans [OF _ tun_rel_append [OF assms(1)]])

section \<open>Connections and links\<close>

lemma deref_tame:
  "deref_link a s = Inl e \<Longrightarrow> tame e" "deref_connection c s = Inl e \<Longrightarrow> tame e"
  by (auto simp: deref_link_def deref_connection_def split: option.splits)

text \<open>Reading from the incoming stream.\<close>

lemma reading_ok:
  assumes "\<And>r e. f r = Inl e \<Longrightarrow> tame e" "\<And>r x r'. f r = Inr (x, r') \<Longrightarrow> rs_inv r \<Longrightarrow> rs_inv r'"
  shows "res_ok tame (\<lambda>(_, t). tun_rel s t) (reading f s)"
  unfolding reading_def
  by (rule res_ok_bind_value) (use assms in \<open>auto intro!: tun_rel_same\<close>)

lemma get_short_ok: "res_ok tame (\<lambda>(_, t). tun_rel s t) (get_short s)"
  unfolding get_short_def
  by (rule reading_ok) (auto simp: ReadStream_readShort_def rs_inv_def split: list.splits)

lemma readBytes_ok: "res_ok tame (\<lambda>(_, t). tun_rel s t) (reading (ReadStream_readBytes n) s)"
  by (rule reading_ok) (auto simp: ReadStream_readBytes_def rs_inv_def split: if_splits)

lemma readString_ok: "res_ok tame (\<lambda>(_, t). tun_rel s t) (reading ReadStream_readString s)"
  by (rule reading_ok)
    (auto simp: ReadStream_readString_def ReadStream_readLong_def exn_simps rs_inv_def split: list.splits if_splits)

text \<open>The rules in the form the handlers use them: from any state reached so far.\<close>

lemma frame_bind:
  "tun_rel s t \<Longrightarrow> frame_ok t r \<Longrightarrow> (\<And>u. tun_rel s u \<Longrightarrow> res_ok tame P (k u)) \<Longrightarrow> res_ok tame P (bindE r k)"
  by (rule res_ok_bind [where Q = "tun_rel s"]) (auto intro: frame_ok_trans)

lemma frame_bind_pair:
  "tun_rel s t \<Longrightarrow> res_ok tame (\<lambda>(_, u). tun_rel t u) r \<Longrightarrow>
     (\<And>x u. tun_rel s u \<Longrightarrow> res_ok tame P (k (x, u))) \<Longrightarrow> res_ok tame P (bindE r k)"
  by (rule res_ok_bind [where Q = "\<lambda>(_, u). tun_rel s u"])
    (auto elim!: res_ok_mono intro: tun_rel_trans)

lemma core_bind:
  "tun_core s t \<Longrightarrow> core_ok t r \<Longrightarrow> (\<And>u. tun_core s u \<Longrightarrow> res_ok tame P (k u)) \<Longrightarrow> res_ok tame P (bindE r k)"
  by (rule res_ok_bind [where Q = "tun_core s"]) (auto intro: core_ok_trans)

lemma core_bind_pair:
  "tun_core s t \<Longrightarrow> res_ok tame (\<lambda>(_, u). tun_core t u) r \<Longrightarrow>
     (\<And>x u. tun_core s u \<Longrightarrow> res_ok tame P (k (x, u))) \<Longrightarrow> res_ok tame P (bindE r k)"
  by (rule res_ok_bind [where Q = "\<lambda>(_, u). tun_core s u"])
    (auto elim!: res_ok_mono intro: tun_core_trans)

lemma frame_core_pair: "res_ok tame (\<lambda>(_, u). tun_rel t u) r \<Longrightarrow> res_ok tame (\<lambda>(_, u). tun_core t u) r"
  by (erule res_ok_mono) (auto simp: tun_rel_def)

lemma setAcknowledged_ok: "frame_ok s (ConnectionLink_setAcknowledged ack a s)"
  unfolding ConnectionLink_setAcknowledged_def Let_def
  by (rule res_ok_bind_value)
    (auto intro: deref_tame intro!: tun_rel_trans [OF _ tun_rel_setEvents_other])

lemma setClosing_ok: "frame_ok s (ConnectionLink_setClosing os a s)"
  unfolding ConnectionLink_setClosing_def Let_def
  by (rule res_ok_bind_value)
    (auto intro: deref_tame
      intro!: tun_rel_trans [OF _ tun_rel_removePolled] tun_rel_trans [OF tun_rel_put(1) tun_rel_put(4)])

lemma send_header_ok:
  "tun_rel s t \<Longrightarrow> frame_ok s (CustomWriteStream_send (put_header i cmd y t))"
  by (rule frame_ok_trans [OF _ tun_rel_send]) (blast intro: tun_rel_trans)

lemma closeLink_ok: "frame_ok s (TunnelConnection_closeLink os c a s)"
  unfolding TunnelConnection_closeLink_def
  by (intro res_ok_bind_value ok_rules frame_bind [OF tun_rel_refl setClosing_ok] send_header_ok)
    (auto intro: deref_tame)

lemma sendData_ok: "frame_ok s (TunnelConnection_sendData c a bs s)"
  unfolding TunnelConnection_sendData_def Let_def
proof (intro res_ok_bind_value)
  fix t l
  let ?cmd = "if has_flag ACK_PACKETS (m_spec t) then LINK_SEND_FOR_ACK else LINK_SEND"
  let ?u = "put_short (int (length bs)) (put_header (tc_id t) ?cmd (lk_id l) s)"
  have "tun_rel s ?u"
    by (rule tun_rel_trans [OF tun_rel_put(10) tun_rel_put(6)])
  then have "tun_rel s (writing (WriteStream_writeBytes bs) ?u)"
    by (rule tun_rel_trans) blast
  then show "frame_ok s (CustomWriteStream_send (writing (WriteStream_writeBytes bs) ?u))"
    by (rule frame_ok_trans [OF _ tun_rel_send])
qed (auto intro: deref_tame)

lemma receiveData_ok: "frame_ok s (TunnelConnection_receiveData a s)"
  unfolding TunnelConnection_receiveData_def
proof (rule frame_bind_pair [OF tun_rel_refl get_short_ok], simp, intro conjI impI)
  fix len u
  assume u: "tun_rel s u"
  show "frame_ok s (bindE (reading (ReadStream_readBytes (of_short len)) u) (\<lambda>(buffer, s).
      bindE (deref_link a s) (\<lambda>l. if \<not> m_closing l
        then Inr (Poller_setEvents (P_Link a) (m_socket l) POLLOUT
          (put_link a (l\<lparr>m_buffer := SockBuffer_pushOnBuffer buffer (m_buffer l)\<rparr>) s)) else Inr s)))"
    if "\<not> int TunnelConnection_BUFFER_SIZE < of_short len"
    by (rule frame_bind_pair [OF u readBytes_ok], simp, rule res_ok_bind_value)
      (auto intro: deref_tame intro!: tun_rel_trans [OF _ tun_rel_setEvents_other]
        elim!: tun_rel_trans [OF _ tun_rel_put(1)])
qed

lemma erase_link_ok: "frame_ok s (erase_link c i s)"
  unfolding erase_link_def
  by (rule res_ok_bind_value)
    (auto intro: deref_tame intro!: tun_rel_trans [OF tun_rel_put(3) tun_rel_put(2)] split: option.splits)

lemma assign_link_ok: "frame_ok s (assign_link c i a s)"
  unfolding assign_link_def Let_def
  by (rule res_ok_bind_value)
    (auto intro: deref_tame intro!: tun_rel_trans [OF tun_rel_put(2) tun_rel_put(3)] split: option.splits)

lemma processLinkMessage_ok: "frame_ok s (TunnelConnection_processLinkMessage os c cmd a s)"
  unfolding TunnelConnection_processLinkMessage_def
  by (intro ok_rules frame_bind [OF tun_rel_refl closeLink_ok] frame_bind [OF tun_rel_refl receiveData_ok]
      res_ok_bind_value send_header_ok)
    (auto intro: deref_tame receiveData_ok setAcknowledged_ok
      intro!: frame_ok_trans [OF _ erase_link_ok] frame_ok_trans [OF _ setAcknowledged_ok])

lemma link_setPollfd_ok: "res_ok tame (\<lambda>(_, t). tun_rel s t) (ConnectionLink_setPollfd a ps s)"
  unfolding ConnectionLink_setPollfd_def by (rule res_ok_bind_value) (auto intro: deref_tame)

lemma listen_setPollfd_ok: "res_ok tame (\<lambda>(_, t). tun_rel s t) (ListenSide_setPollfd a ps s)"
  unfolding ListenSide_setPollfd_def by (rule res_ok_bind_value) (auto intro: deref_tame)

lemmas add_link_ok = tun_rel_addPolled [where setp = "\<lambda>_. ConnectionLink_setPollfd a" and p = "P_Link a" for a,
    OF _ link_setPollfd_ok, simplified]

lemmas add_listen_ok = tun_rel_addPolled [where setp = "\<lambda>_. ListenSide_setPollfd c" and p = "P_Listen c" for c,
    OF _ listen_setPollfd_ok, simplified]

lemma create_reply_ok:
  assumes "tun_rel s u"
  shows "frame_ok s (bindE (get_short u) (\<lambda>(result_code, s).
      if of_short result_code = LINK_SUCCESS
      then Poller_addPolled (\<lambda>_. ConnectionLink_setPollfd a) (P_Link a) s
      else bindE (deref_link a s) (\<lambda>l. erase_link c x (on_world (sys_close os (m_socket l)) s))))"
  by (rule frame_bind_pair [OF assms get_short_ok], simp, intro conjI impI res_ok_bind_value)
    (auto intro: deref_tame frame_ok_trans [OF _ add_link_ok]
      intro!: frame_ok_trans [OF tun_rel_trans [OF _ tun_rel_put(4)] erase_link_ok])

lemma ListenSide_processMessage_ok: "frame_ok s (ListenSide_processMessage os c s)"
  unfolding ListenSide_processMessage_def
  by (rule frame_bind_pair [OF tun_rel_refl get_short_ok], simp, erule frame_bind_pair [OF _ get_short_ok], simp,
      intro res_ok_bind_value ok_rules create_reply_ok)
    (auto intro: deref_tame intro!: frame_ok_trans [OF _ processLinkMessage_ok])

lemma new_link_ok: "new_link l s = (a, t) \<Longrightarrow> tun_rel s t"
  by (auto simp: new_link_def intro!: tun_rel_trans [OF tun_rel_put(5) tun_rel_put(1)])

lemma accept_link_ok:
  assumes "tun_rel s u"
  shows "frame_ok s (case new_link l (put_connection c t u) of
    (a, s) \<Rightarrow> bindE (assign_link c i a s) (\<lambda>s. CustomWriteStream_send (put_header j LINK_CREATE i s)))"
proof -
  obtain a v where v: "new_link l (put_connection c t u) = (a, v)"
    by fastforce
  have "tun_rel s v"
    using assms new_link_ok [OF v] by (blast intro: tun_rel_trans)
  then show ?thesis
    by (simp add: v) (rule frame_bind [OF _ assign_link_ok], assumption, rule send_header_ok)
qed

lemma ListenSide_polled_ok: "frame_ok s (ListenSide_polled os c s)"
  unfolding ListenSide_polled_def
  by (intro res_ok_bind_value res_ok_prod res_ok_sum)
    (auto intro: deref_tame tun_rel_trans tun_rel_syscall intro!: accept_link_ok simp: Let_def)

text \<open>The attempt to connect, and the connecting side.\<close>

lemma frame_bind_value_pair:
  "tun_rel s t \<Longrightarrow> frame_ok t r \<Longrightarrow> res_ok tame (\<lambda>(_, u). tun_rel s u) (bindE r (\<lambda>u. Inr (x, u)))"
  by (rule frame_bind) auto

lemma connect_link_ok:
  assumes "tun_rel s u"
  shows "res_ok tame (\<lambda>(_, t). tun_rel s t) (case new_link l u of
    (a, s) \<Rightarrow> bindE (Poller_addPolled (\<lambda>_. ConnectionLink_setPollfd a) (P_Link a) s) (\<lambda>s.
              bindE (assign_link c i a s) (\<lambda>s. Inr (True, s))))"
proof -
  obtain a v where v: "new_link l u = (a, v)"
    by fastforce
  have "tun_rel s v"
    using assms new_link_ok [OF v] by (blast intro: tun_rel_trans)
  then show ?thesis
    by (simp add: v) (rule frame_bind [OF _ add_link_ok], assumption, erule frame_bind_value_pair, rule assign_link_ok)
qed

lemma syscall_pairE:
  assumes "tun_rel s t" "\<And>x u. syscall g t = (x, u) \<Longrightarrow> tun_rel s u \<Longrightarrow> res_ok E P (k x u)"
  shows "res_ok E P (case syscall g t of (x, u) \<Rightarrow> k x u)"
  using assms tun_rel_syscall [of g t] by (cases "syscall g t") (auto intro: tun_rel_trans)

lemma core_syscall_pairE:
  assumes "tun_core s t" "\<And>x u. syscall g t = (x, u) \<Longrightarrow> tun_core s u \<Longrightarrow> res_ok E P (k x u)"
  shows "res_ok E P (case syscall g t of (x, u) \<Rightarrow> k x u)"
  using assms tun_rel_core [OF tun_rel_syscall [of g t]] by (cases "syscall g t") (auto intro: tun_core_trans)

lemma ConnectSide_connect_ok:
  assumes "\<And>m t. frame_ok t (reportError m t)"
  shows "res_ok tame (\<lambda>(_, u). tun_rel s u) (ConnectSide_connect os reportError c t i s)"
proof -
  have *: "res_ok tame (\<lambda>(_, u). tun_rel s u) (bindE r (\<lambda>(ok, s). Inr (ok, if ok then s else on_world g s)))"
    if "res_ok tame (\<lambda>(_, u). tun_rel s u) r" for r :: "(bool \<times> _) res" and g
    by (rule res_ok_bind [OF that]) (auto intro: tun_rel_trans)
  have report: "res_ok tame (\<lambda>(_, u). tun_rel s u) (bindE (reportError m v) (\<lambda>u. Inr (False, u)))"
    if "tun_rel s v" for m v
    by (rule frame_bind_value_pair [OF that assms])
  show ?thesis
    unfolding ConnectSide_connect_def Let_def
    by (intro syscall_pairE [where s = s] tun_rel_refl res_ok_option res_ok_sum * connect_link_ok report)
qed

lemma create_answer_ok:
  assumes "\<And>m t. frame_ok t (reportError m t)" "tun_rel s u"
  shows "frame_ok s (bindE (ConnectSide_connect os reportError c t x u) (\<lambda>(success, s).
      CustomWriteStream_send (put_short (if success then LINK_SUCCESS else LINK_FAILURE)
        (put_header (tc_id t) LINK_CREATE x s))))"
  by (rule frame_bind_pair [OF assms(2) ConnectSide_connect_ok [OF assms(1)]])
    (auto intro!: frame_ok_trans [OF tun_rel_trans [OF _ tun_rel_put(6)] tun_rel_send]
      tun_rel_trans [OF _ tun_rel_put(10)])

lemma ConnectSide_processMessage_ok:
  assumes "\<And>m t. frame_ok t (reportError m t)"
  shows "frame_ok s (ConnectSide_processMessage os reportError c s)"
  unfolding ConnectSide_processMessage_def Let_def
  by (rule frame_bind_pair [OF tun_rel_refl get_short_ok], simp, erule frame_bind_pair [OF _ get_short_ok], simp,
      rule res_ok_bind_value)
    (auto intro: deref_tame intro!: create_answer_ok [OF assms] res_ok_option
      frame_ok_trans [OF _ processLinkMessage_ok])

lemma processMessage_ok:
  assumes "\<And>m t. frame_ok t (reportError m t)"
  shows "frame_ok s (TunnelConnection_processMessage os reportError c s)"
  unfolding TunnelConnection_processMessage_def
  by (rule res_ok_bind_value)
    (auto intro: deref_tame ListenSide_processMessage_ok ConnectSide_processMessage_ok [OF assms]
      split: connection_kind.splits)

lemma forward_message_ok:
  assumes "\<And>m t. frame_ok t (reportError m t)"
  shows "frame_ok s (forward_message os reportError i s)"
  unfolding forward_message_def
  by (intro ok_rules processMessage_ok assms) simp

lemma free_connection_ok: "tun_rel s (free_connection c s)"
  by (rule tun_rel_same) (simp_all add: free_connection_def)

lemma assign_connection_ok: "tun_rel s (assign_connection i c s)"
  by (auto simp: assign_connection_def Let_def intro!: tun_rel_trans [OF free_connection_ok tun_rel_put(12)]
      split: option.splits)

lemma initialize_ok: "res_ok tame (\<lambda>(_, _, u). tun_rel s u) (ListenSide_initialize os t s)"
  unfolding ListenSide_initialize_def Let_def
  by (intro syscall_pairE [where s = s] tun_rel_refl res_ok_sum; simp)

lemma CreateConnection_ok:
  "res_ok tame (\<lambda>(_, u). tun_rel s u) (TunnelConnection_CreateConnection os spec is_local i s)"
proof -
  have "res_ok tame (\<lambda>(_, u). tun_rel s u)
      (bindE (Poller_addPolled (\<lambda>_. ListenSide_setPollfd c) (P_Listen c)
         (put_connection c t (u\<lparr>m_next_obj := Suc c\<rparr>))) (\<lambda>s. Inr (Some c, s)))"
    if "tun_rel s u" for t u c
    by (rule frame_bind_value_pair [OF tun_rel_trans [OF tun_rel_trans [OF that tun_rel_put(5)] tun_rel_put(3)] add_listen_ok])
  then show ?thesis
    unfolding TunnelConnection_CreateConnection_def Let_def
    by (intro ok_rules res_ok_bind [OF initialize_ok])
      (auto intro!: tun_rel_trans [OF tun_rel_put(5) tun_rel_put(3)])
qed

section \<open>The handler of a link\<close>

text \<open>
  A handler holds a reference to its own entry of the table. As long as the entries keep their
  identity, reading through it is defined and gives the same descriptor and events.
\<close>

definition idents :: "('p, 'w, 'a) poller_scheme \<Rightarrow> (nat \<times> 'p \<times> c_int \<times> short) list" where
  "idents s = map ident (m_polled s)"

lemma idents_simps [simp]:
  "idents (put_link a l s) = idents s" "idents (put_connection c t s) = idents s"
  "idents (on_world g s) = idents s" "idents (writing h s) = idents s" "idents (put_short x s) = idents s"
  "idents (put_header i cmd y s) = idents s" "idents (Poller_setEvents p f ev s) = idents s"
  "idents (s\<lparr>world := w\<rparr>) = idents s"
  by (simp_all add: idents_def put_link_def put_connection_def on_world_def writing_def put_short_def put_header_def)

lemma addrs_idents: "addrs s = map fst (idents s)"
  by (simp add: addrs_def idents_def ident_def comp_def)

lemma deref_defined: "pa \<in> set (addrs s) \<Longrightarrow> \<exists>ps. Poller_deref pa s = Inr ps"
  unfolding Poller_deref_def addrs_def
  by (cases "find (\<lambda>e. e_addr e = pa) (m_polled s)") (auto simp: find_None_iff)

lemma deref_tame_in: "pa \<in> set (addrs s) \<Longrightarrow> Poller_deref pa s = Inl e \<Longrightarrow> tame e"
  using deref_defined by fastforce

lemma send_idents: "CustomWriteStream_send s = Inr t \<Longrightarrow> idents t = idents s"
  by (auto simp: CustomWriteStream_send_def split: if_splits)

lemma sendData_idents: "TunnelConnection_sendData c a bs s = Inr t \<Longrightarrow> idents t = idents s"
  by (auto simp: TunnelConnection_sendData_def Let_def exn_simps dest!: send_idents)

lemma setAcknowledged_idents: "ConnectionLink_setAcknowledged ack a s = Inr t \<Longrightarrow> idents t = idents s"
  by (auto simp: ConnectionLink_setAcknowledged_def Let_def exn_simps split: if_splits)

lemma writable_idents: "ConnectionLink_writable os a s = Inr t \<Longrightarrow> idents t = idents s"
  by (auto simp: ConnectionLink_writable_def Let_def exn_simps split: if_splits)

lemma syscall_idents: "syscall g s = (x, u) \<Longrightarrow> idents u = idents s"
  by (auto simp: syscall_def split: prod.splits)

lemma readable_idents:
  assumes "ConnectionLink_readable os a s = Inr (False, t)"
  shows "idents t = idents s"
proof -
  from assms obtain l where "deref_link a s = Inr l"
    by (auto simp: ConnectionLink_readable_def exn_simps)
  moreover obtain x u where u: "syscall (sys_read os (m_socket l) TunnelConnection_BUFFER_SIZE) s = (x, u)"
    by fastforce
  ultimately show ?thesis
    using assms syscall_idents [OF u]
    by (cases x) (auto simp: ConnectionLink_readable_def exn_simps split: if_splits
        dest!: sendData_idents setAcknowledged_idents)
qed

lemma readable_ok: "res_ok tame (\<lambda>(_, t). tun_rel s t) (ConnectionLink_readable os a s)"
proof -
  have 1: "res_ok tame (\<lambda>(_, t). tun_rel s t) (bindE (TunnelConnection_closeLink os c a u) (\<lambda>s. Inr (True, s)))"
    if "tun_rel s u" for c u
    by (rule frame_bind_value_pair [OF that closeLink_ok])
  have 2: "res_ok tame (\<lambda>(_, t). tun_rel s t) (bindE (TunnelConnection_sendData c a bs u) (\<lambda>s.
        bindE (deref_connection c s) (\<lambda>t.
          if has_flag ACK_PACKETS (m_spec t)
          then bindE (ConnectionLink_setAcknowledged False a s) (\<lambda>s. Inr (False, s))
          else Inr (False, s))))" if "tun_rel s u" for c u bs
    by (rule frame_bind [OF that sendData_ok], rule res_ok_bind_value)
      (auto intro: deref_tame intro!: frame_bind_value_pair [OF _ setAcknowledged_ok])
  show ?thesis
    unfolding ConnectionLink_readable_def
    by (rule res_ok_bind_value, erule deref_tame)
      (intro syscall_pairE [where s = s] tun_rel_refl res_ok_sum res_ok_if 1 2)
qed

lemma writable_ok: "frame_ok s (ConnectionLink_writable os a s)"
proof -
  have "tame e" if "SockBuffer_writeData os f b w = Inl e" for os :: "('a, 'c) posix_scheme" and f b w e
    using that by (auto simp: SockBuffer_writeData_def Let_def split: prod.splits sum.splits)
  then show ?thesis
    unfolding ConnectionLink_writable_def Let_def
    by (intro res_ok_bind_value)
      (auto intro: deref_tame intro!: tun_rel_trans [OF _ tun_rel_setEvents_other]
        tun_rel_trans [OF tun_rel_put(11) tun_rel_put(1)])
qed

lemma ConnectionLink_polled_ok:
  assumes "pa \<in> set (addrs s)"
  shows "frame_ok s (ConnectionLink_polled os a pa s)"
proof -
  have last: "frame_ok s (bindE (Poller_deref pa u) (\<lambda>ps.
      if flag (POLLERR OR POLLHUP OR POLLNVAL) (revents ps)
      then bindE (deref_link a u) (\<lambda>l. TunnelConnection_closeLink os (m_connection l) a u) else Inr u))"
    if "tun_rel s u" "idents u = idents s" for u
  proof -
    have "pa \<in> set (addrs u)"
      using that assms by (simp add: addrs_idents)
    then show ?thesis
      by (intro res_ok_bind_value ok_rules)
        (auto intro: deref_tame deref_tame_in that(1) intro!: frame_ok_trans [OF that(1) closeLink_ok])
  qed
  have mid: "frame_ok s (bindE (Poller_deref pa u) (\<lambda>ps.
      bindE (if flag POLLOUT (revents ps) then ConnectionLink_writable os a u else Inr u) (\<lambda>s.
      bindE (Poller_deref pa s) (\<lambda>ps.
        if flag (POLLERR OR POLLHUP OR POLLNVAL) (revents ps)
        then bindE (deref_link a s) (\<lambda>l. TunnelConnection_closeLink os (m_connection l) a s)
        else Inr s))))" if "tun_rel s u" "idents u = idents s" for u
  proof (rule res_ok_bind_value, rule_tac [2] res_ok_bind_value)
    show "tame e" if "Poller_deref pa u = Inl e" for e
      using that \<open>idents u = idents s\<close> assms deref_tame_in [of pa u] by (simp add: addrs_idents)
    have w: "frame_ok u (ConnectionLink_writable os a u)"
      by (rule writable_ok)
    fix ps
    show "tame e" if "(if flag POLLOUT (revents ps) then ConnectionLink_writable os a u else Inr u) = Inl e" for e
      using that w by (auto split: if_splits)
    fix v
    assume v: "(if flag POLLOUT (revents ps) then ConnectionLink_writable os a u else Inr u) = Inr v"
    then have "tun_rel u v" "idents v = idents u"
      using w writable_idents by (auto split: if_splits)
    with that show "frame_ok s (bindE (Poller_deref pa v) (\<lambda>ps.
        if flag (POLLERR OR POLLHUP OR POLLNVAL) (revents ps)
        then bindE (deref_link a v) (\<lambda>l. TunnelConnection_closeLink os (m_connection l) a v) else Inr v))"
      by (intro last) (auto intro: tun_rel_trans)
  qed
  have r: "res_ok tame (\<lambda>(_, t). tun_rel s t) (ConnectionLink_readable os a s)"
    by (rule readable_ok)
  show ?thesis
    unfolding ConnectionLink_polled_def
  proof (rule res_ok_bind_value, erule deref_tame_in [OF assms], rule res_ok_bind_value)
    fix ps
    show "tame e" if "(if flag POLLIN (revents ps) then ConnectionLink_readable os a s else Inr (False, s)) = Inl e" for e
      using that r by (auto split: if_splits)
    fix x
    assume x: "(if flag POLLIN (revents ps) then ConnectionLink_readable os a s else Inr (False, s)) = Inr x"
    then have "tun_rel s (snd x)" "\<not> fst x \<Longrightarrow> idents (snd x) = idents s"
      using r readable_idents [of os a s "snd x"] by (cases x; auto split: if_splits)+
    then show "frame_ok s (case x of (returned, s) \<Rightarrow> if returned then Inr s else
        bindE (Poller_deref pa s) (\<lambda>ps.
        bindE (if flag POLLOUT (revents ps) then ConnectionLink_writable os a s else Inr s) (\<lambda>s.
        bindE (Poller_deref pa s) (\<lambda>ps.
          if flag (POLLERR OR POLLHUP OR POLLNVAL) (revents ps)
          then bindE (deref_link a s) (\<lambda>l. TunnelConnection_closeLink os (m_connection l) a s)
          else Inr s))))"
      by (cases x) (auto intro!: mid)
  qed
qed

end
