(* ===== verification/Magic_Detector.thy ===== *)
theory Magic_Detector
  imports Sock_Buffer
begin

text \<open>
  \<open>MagicStringDetector\<close> (\<open>stdio_tunnel/StdioTunnel.cpp\<close>): the buffer between the child
  process and standard output, which watches the bytes that pass for the string the remote side
  announces itself with, and for the login pattern after which the remote command is typed. What
  it calls on the tunnel is a parameter.
\<close>

section \<open>State\<close>

record magic_detector =
  md_buffer :: sock_buffer
  m_recognized_count :: nat
  md_magic :: string
  m_recognized_login_count :: nat
  m_login_pattern :: string
  m_remote_cmd :: string

definition MagicStringDetector_new :: "string \<Rightarrow> magic_detector" where
  "MagicStringDetector_new magic_string =
     \<lparr>md_buffer = SockBuffer_new, m_recognized_count = 0, md_magic = magic_string,
      m_recognized_login_count = 0, m_login_pattern = [], m_remote_cmd = []\<rparr>"

definition MagicStringDetector_setLoginPattern :: "string \<Rightarrow> magic_detector \<Rightarrow> magic_detector" where
  "MagicStringDetector_setLoginPattern p d = d\<lparr>m_login_pattern := p\<rparr>"

definition MagicStringDetector_setRemoteCmd :: "string \<Rightarrow> magic_detector \<Rightarrow> magic_detector" where
  "MagicStringDetector_setRemoteCmd c d = d\<lparr>m_remote_cmd := c\<rparr>"

text \<open>The string of \<open>StdioTunnel::StdioTunnel\<close>.\<close>

definition m_magic_string :: string where
  "m_magic_string = ''STDIO_TUNNEL MAGIC'' @ '' HANDSHAKE --''"

section \<open>Scanning\<close>

text \<open>\<open>s[i]\<close> of a \<open>std::string\<close>, which is a zero character at \<open>i == s.length()\<close>.\<close>

definition string_at :: "string \<Rightarrow> nat \<Rightarrow> char" where
  "string_at s i = (if i < length s then s ! i else CHR 0x00)"

text \<open>The login part of one turn of the loop.\<close>

definition MagicStringDetector_login ::
  "(string \<Rightarrow> 's \<Rightarrow> 's res) \<Rightarrow> byte \<Rightarrow> magic_detector \<Rightarrow> 's \<Rightarrow> (magic_detector \<times> 's) res" where
  "MagicStringDetector_login remoteInit b d s =
     (if 0 < length (m_remote_cmd d) \<and> m_recognized_login_count d < length (m_login_pattern d) \<and>
         char_of_byte b = string_at (m_login_pattern d) (m_recognized_login_count d)
      then let d = d\<lparr>m_recognized_login_count := m_recognized_login_count d + 1\<rparr>
           in if length (m_login_pattern d) \<le> m_recognized_login_count d
              then bindE (remoteInit (m_remote_cmd d) s) (\<lambda>s. Inr (d, s))
              else Inr (d, s)
      else if m_recognized_login_count d < length (m_login_pattern d)
      then Inr (d\<lparr>m_recognized_login_count := 0\<rparr>, s)
      else Inr (d, s))"

fun MagicStringDetector_processReadData ::
  "('s \<Rightarrow> 's res) \<Rightarrow> (string \<Rightarrow> 's \<Rightarrow> 's res) \<Rightarrow> bytes \<Rightarrow> magic_detector \<Rightarrow> 's \<Rightarrow> (magic_detector \<times> 's) res" where
  "MagicStringDetector_processReadData startHandshaking remoteInit [] d s = Inr (d, s)"
| "MagicStringDetector_processReadData startHandshaking remoteInit (b # bs) d s =
     (if char_of_byte b = string_at (md_magic d) (m_recognized_count d)
      then let d = d\<lparr>m_recognized_count := m_recognized_count d + 1\<rparr>
           in if length (md_magic d) \<le> m_recognized_count d
              then bindE (startHandshaking s) (\<lambda>s. Inr (d, s))
              else bindE (MagicStringDetector_login remoteInit b d s) (\<lambda>(d, s).
                     MagicStringDetector_processReadData startHandshaking remoteInit bs d s)
      else bindE (MagicStringDetector_login remoteInit b (d\<lparr>m_recognized_count := 0\<rparr>) s) (\<lambda>(d, s).
             MagicStringDetector_processReadData startHandshaking remoteInit bs d s))"

section \<open>What is recognised\<close>

text \<open>
  The recogniser alone: the count after some bytes, or \<open>None\<close> once the whole string has been
  seen.
\<close>

fun magic_run :: "string \<Rightarrow> nat \<Rightarrow> bytes \<Rightarrow> nat option" where
  "magic_run m k [] = Some k"
| "magic_run m k (b # bs) =
     (if char_of_byte b = string_at m k
      then if length m \<le> k + 1 then None else magic_run m (k + 1) bs
      else magic_run m 0 bs)"

lemma magic_run_append:
  "magic_run m k (xs @ ys) = (case magic_run m k xs of None \<Rightarrow> None | Some k' \<Rightarrow> magic_run m k' ys)"
  by (induction m k xs rule: magic_run.induct) auto

lemma magic_run_bound: "k < length m \<Longrightarrow> magic_run m k xs = Some k' \<Longrightarrow> k' < length m"
proof (induction m k xs rule: magic_run.induct)
  case (2 m k b bs)
  moreover have "0 < length m"
    using 2(3) by linarith
  ultimately show ?case
    by (simp split: if_splits)
qed simp

text \<open>The count is the length of a piece of the string that has just passed.\<close>

lemma magic_run_suffix:
  assumes "k < length m" "magic_run m k bs = Some k'" "map char_of_byte ys = take k m"
  shows "\<exists>xs zs. ys @ bs = xs @ zs \<and> map char_of_byte zs = take k' m"
  using assms
proof (induction m k bs arbitrary: ys rule: magic_run.induct)
  case (1 m k)
  then show ?case by (metis append_Nil append_Nil2 magic_run.simps(1) option.inject)
next
  case (2 m k b bs)
  show ?case
  proof (cases "char_of_byte b = string_at m k")
    case True
    then have "k + 1 < length m" "magic_run m (k + 1) bs = Some k'"
      using 2(4) by (auto split: if_splits)
    moreover have "map char_of_byte (ys @ [b]) = take (k + 1) m"
      using True 2(3,5) by (simp add: string_at_def take_Suc_conv_app_nth)
    ultimately show ?thesis
      using 2(1) [of "ys @ [b]"] True by simp
  next
    case False
    then obtain xs zs where "bs = xs @ zs" "map char_of_byte zs = take k' m"
      using 2(2) [of "[]"] 2(3,4) by fastforce
    then show ?thesis
      by (metis append_Cons append_assoc)
  qed
qed

lemma magic_run_found:
  assumes "k < length m" "magic_run m k bs = None" "map char_of_byte ys = take k m"
  shows "\<exists>xs zs rest. ys @ bs = xs @ zs @ rest \<and> map char_of_byte zs = m"
  using assms
proof (induction m k bs arbitrary: ys rule: magic_run.induct)
  case (2 m k b bs)
  show ?case
  proof (cases "char_of_byte b = string_at m k")
    case True
    have *: "map char_of_byte (ys @ [b]) = take (k + 1) m"
      using True 2(3,5) by (simp add: string_at_def take_Suc_conv_app_nth)
    show ?thesis
    proof (cases "length m \<le> k + 1")
      case True
      with * have "ys @ b # bs = [] @ (ys @ [b]) @ bs" "map char_of_byte (ys @ [b]) = m"
        by simp_all
      then show ?thesis by blast
    next
      case False
      then show ?thesis
        using 2(1) [of "ys @ [b]"] True * 2(4) by simp
    qed
  next
    case False
    then obtain xs zs rest where "bs = xs @ zs @ rest" "map char_of_byte zs = m"
      using 2(2) [of "[]"] 2(3,4) by fastforce
    then show ?thesis
      by (metis append_Cons append_assoc)
  qed
qed simp

lemma magic_run_whole:
  "k < length m \<Longrightarrow> map char_of_byte bs = drop k m \<Longrightarrow> magic_run m k bs = None"
proof (induction m k bs rule: magic_run.induct)
  case (2 m k b bs)
  then have "char_of_byte b = m ! k" "map char_of_byte bs = drop (k + 1) m"
    by (simp_all add: Cons_nth_drop_Suc [symmetric])
  with 2 show ?case
    by (cases "length m \<le> k + 1") (simp_all add: string_at_def)
qed simp

text \<open>A byte that does not occur in the string resets the count.\<close>

lemma magic_run_reset:
  assumes "k < length m" "char_of_byte b \<notin> set m" "magic_run m k xs \<noteq> None"
  shows "magic_run m k (xs @ [b]) = Some 0"
proof -
  obtain k' where k': "magic_run m k xs = Some k'" "k' < length m"
    using assms magic_run_bound by blast
  then have "char_of_byte b \<noteq> string_at m k'"
    using assms(2) nth_mem by (auto simp: string_at_def)
  with k' show ?thesis
    by (simp add: magic_run_append)
qed

section \<open>The detector follows the recogniser\<close>

lemma login_keeps:
  assumes "MagicStringDetector_login ri b d s = Inr (d', s')"
  shows "m_recognized_count d' = m_recognized_count d \<and> md_magic d' = md_magic d \<and>
    md_buffer d' = md_buffer d \<and> m_login_pattern d' = m_login_pattern d \<and> m_remote_cmd d' = m_remote_cmd d"
  using assms by (auto simp: MagicStringDetector_login_def Let_def exn_simps split: if_splits)

lemma process_not_found:
  assumes "MagicStringDetector_processReadData sh ri bs d s = Inr (d', s')"
    and "magic_run (md_magic d) (m_recognized_count d) bs = Some k"
  shows "m_recognized_count d' = k \<and> md_magic d' = md_magic d"
  using assms
proof (induction sh ri bs d s rule: MagicStringDetector_processReadData.induct)
  case (2 sh ri b bs d s)
  then show ?case
    by (auto simp: Let_def exn_simps dest!: login_keeps split: if_splits)
qed simp

text \<open>Without the string in it, a block may be handed over in pieces.\<close>

lemma process_append:
  assumes "magic_run (md_magic d) (m_recognized_count d) xs \<noteq> None"
  shows "MagicStringDetector_processReadData sh ri (xs @ ys) d s =
    bindE (MagicStringDetector_processReadData sh ri xs d s) (\<lambda>(d, s).
      MagicStringDetector_processReadData sh ri ys d s)"
  using assms
proof (induction sh ri xs d s rule: MagicStringDetector_processReadData.induct)
  case (2 sh ri b bs d s)
  show ?case
  proof (cases "char_of_byte b = string_at (md_magic d) (m_recognized_count d)")
    case True
    let ?d = "d\<lparr>m_recognized_count := Suc (m_recognized_count d)\<rparr>"
    show ?thesis
      using 2 True
      by (cases "MagicStringDetector_login ri b ?d s")
        (auto simp: Let_def dest!: login_keeps split: if_splits)
  next
    case False
    show ?thesis
      using 2 False
      by (cases "MagicStringDetector_login ri b (d\<lparr>m_recognized_count := 0\<rparr>) s")
        (auto simp: Let_def dest!: login_keeps split: if_splits)
  qed
qed simp

text \<open>The blocks of one or several \<open>readData\<close> calls, in turn.\<close>

fun process_blocks ::
  "('s \<Rightarrow> 's res) \<Rightarrow> (string \<Rightarrow> 's \<Rightarrow> 's res) \<Rightarrow> bytes list \<Rightarrow> magic_detector \<Rightarrow> 's \<Rightarrow> (magic_detector \<times> 's) res" where
  "process_blocks sh ri [] d s = Inr (d, s)"
| "process_blocks sh ri (bs # bss) d s =
     bindE (MagicStringDetector_processReadData sh ri bs d s) (\<lambda>(d, s). process_blocks sh ri bss d s)"

lemma login_silent:
  "\<exists>d'. MagicStringDetector_login (\<lambda>_. Inr) b d s = Inr (d', s)"
  by (simp add: MagicStringDetector_login_def Let_def)

lemma process_found_iff:
  "MagicStringDetector_processReadData (\<lambda>_. Inl e) (\<lambda>_. Inr) bs d s = Inl e \<longleftrightarrow>
     magic_run (md_magic d) (m_recognized_count d) bs = None"
proof (induction bs arbitrary: d)
  case (Cons b bs)
  define d0 where "d0 = (if char_of_byte b = string_at (md_magic d) (m_recognized_count d)
    then d\<lparr>m_recognized_count := m_recognized_count d + 1\<rparr> else d\<lparr>m_recognized_count := 0\<rparr>)"
  obtain d' where d': "MagicStringDetector_login (\<lambda>_. Inr) b d0 s = Inr (d', s)"
    using login_silent by metis
  with Cons.IH [of d'] login_keeps [OF d'] show ?case
    by (auto simp: d0_def Let_def split: if_splits)
qed simp

lemma process_silent:
  "magic_run (md_magic d) (m_recognized_count d) bs = Some k \<Longrightarrow>
     \<exists>d'. MagicStringDetector_processReadData (\<lambda>_. Inl e) (\<lambda>_. Inr) bs d s = Inr (d', s)"
proof (induction bs arbitrary: d)
  case (Cons b bs)
  define d0 where "d0 = (if char_of_byte b = string_at (md_magic d) (m_recognized_count d)
    then d\<lparr>m_recognized_count := m_recognized_count d + 1\<rparr> else d\<lparr>m_recognized_count := 0\<rparr>)"
  obtain d' where d': "MagicStringDetector_login (\<lambda>_. Inr) b d0 s = Inr (d', s)"
    using login_silent by metis
  with Cons.IH [of d'] Cons.prems login_keeps [OF d'] show ?case
    by (auto simp: d0_def Let_def split: if_splits)
qed simp

lemma blocks_found_iff:
  "process_blocks (\<lambda>_. Inl e) (\<lambda>_. Inr) bss d s = Inl e \<longleftrightarrow>
     magic_run (md_magic d) (m_recognized_count d) (concat bss) = None"
proof (induction bss arbitrary: d)
  case (Cons bs bss)
  show ?case
  proof (cases "magic_run (md_magic d) (m_recognized_count d) bs")
    case None
    then show ?thesis
      using process_found_iff [of e bs d s] by (simp add: magic_run_append)
  next
    case (Some k)
    then obtain d' where d': "MagicStringDetector_processReadData (\<lambda>_. Inl e) (\<lambda>_. Inr) bs d s = Inr (d', s)"
      using process_silent [OF Some] by metis
    with process_not_found [OF d' Some] Cons.IH [of d'] show ?thesis
      by (simp add: Some magic_run_append)
  qed
qed simp

section \<open>Properties\<close>

lemma newline_not_in_magic: "char_of_byte 10 \<notin> set m_magic_string"
  by code_simp

lemma magic_length: "0 < length m_magic_string"
  by (simp add: m_magic_string_def)

text \<open>C19: The handshake is started only if the whole announcement string has passed, contiguously,
  in the bytes read from the child, however they were cut into blocks; and it is started whenever
  the string comes first or right after a line end, whatever passed before and whatever follows
  in the block. \<open>startHandshaking\<close> is observed by the exception it throws here.\<close>

theorem handshake_iff_announced:
  assumes "d = MagicStringDetector_new m_magic_string"
  shows "(process_blocks (\<lambda>_. Inl e) (\<lambda>_. Inr) bss d s = Inl e \<longrightarrow>
      (\<exists>xs zs rest. concat bss = xs @ zs @ rest \<and> map char_of_byte zs = m_magic_string)) \<and>
    (\<forall>xs rest. concat bss = xs @ map byte_of_char m_magic_string @ rest \<and> (xs = [] \<or> last xs = 10) \<longrightarrow>
      process_blocks (\<lambda>_. Inl e) (\<lambda>_. Inr) bss d s = Inl e)"
proof (intro conjI impI allI)
  have d: "md_magic d = m_magic_string" "m_recognized_count d = 0"
    by (simp_all add: assms MagicStringDetector_new_def)
  show "\<exists>xs zs rest. concat bss = xs @ zs @ rest \<and> map char_of_byte zs = m_magic_string"
    if "process_blocks (\<lambda>_. Inl e) (\<lambda>_. Inr) bss d s = Inl e"
    using magic_run_found [of 0 m_magic_string "concat bss" "[]"] that magic_length
    by (simp add: blocks_found_iff d)
  fix xs rest
  assume *: "concat bss = xs @ map byte_of_char m_magic_string @ rest \<and> (xs = [] \<or> last xs = 10)"
  have whole: "magic_run m_magic_string 0 (map byte_of_char m_magic_string @ rest) = None"
    using magic_run_whole [of 0 m_magic_string "map byte_of_char m_magic_string"] magic_length
    by (simp add: magic_run_append)
  have "magic_run m_magic_string 0 (xs @ map byte_of_char m_magic_string @ rest) = None"
  proof (cases "xs = [] \<or> magic_run m_magic_string 0 xs = None")
    case False
    then have xs: "xs = butlast xs @ [10]"
      using * append_butlast_last_id by metis
    then have "magic_run m_magic_string 0 (butlast xs) \<noteq> None"
      using False by (metis magic_run_append option.simps(4))
    then have "magic_run m_magic_string 0 xs = Some 0"
      using magic_run_reset [OF magic_length newline_not_in_magic] xs by metis
    then show ?thesis
      using whole by (simp add: magic_run_append [of _ _ xs])
  qed (use whole in \<open>auto simp: magic_run_append [of _ _ xs]\<close>)
  then show "process_blocks (\<lambda>_. Inl e) (\<lambda>_. Inr) bss d s = Inl e"
    using * by (simp add: blocks_found_iff d)
qed

theorem handshake_iff_announced_witness:
  "process_blocks (\<lambda>_. Inl (MyException [])) (\<lambda>_. Inr)
     [map byte_of_char ''login'' @ [10], map byte_of_char ''STDIO_TUNNEL'',
      map byte_of_char '' MAGIC HANDSHAKE --x'']
     (MagicStringDetector_new m_magic_string) () = Inl (MyException [])"
proof -
  let ?bss = "[map byte_of_char ''login'' @ [10], map byte_of_char ''STDIO_TUNNEL'',
      map byte_of_char '' MAGIC HANDSHAKE --x'']"
  have "concat ?bss = (map byte_of_char ''login'' @ [10]) @ map byte_of_char m_magic_string @ [byte_of_char (CHR ''x'')]"
    "last (map byte_of_char ''login'' @ [10]) = 10"
    by (simp_all add: m_magic_string_def)
  then show ?thesis
    using handshake_iff_announced [OF refl, of "MyException []" ?bss "()"] by blast
qed

text \<open>Every proper beginning of the string, with the string itself right behind it.\<close>

lemma magic_run_part:
  "k + length bs < length m \<Longrightarrow> map char_of_byte bs = take (length bs) (drop k m) \<Longrightarrow>
     magic_run m k bs = Some (k + length bs)"
proof (induction m k bs rule: magic_run.induct)
  case (2 m k b bs)
  then have "char_of_byte b = m ! k" "map char_of_byte bs = take (length bs) (drop (k + 1) m)"
    by (simp_all add: Cons_nth_drop_Suc [symmetric])
  with 2 show ?case
    by (simp add: string_at_def)
qed simp

lemma second_S: "0 < k \<Longrightarrow> k < length m_magic_string \<Longrightarrow> k \<noteq> 23 \<Longrightarrow> m_magic_string ! k \<noteq> CHR ''S''"
proof -
  have "list_all (\<lambda>k. k = 23 \<or> m_magic_string ! k \<noteq> CHR ''S'') [1..<length m_magic_string]"
    by code_simp
  then show "0 < k \<Longrightarrow> k < length m_magic_string \<Longrightarrow> k \<noteq> 23 \<Longrightarrow> m_magic_string ! k \<noteq> CHR ''S''"
    by (auto simp: list_all_iff)
qed

lemma beginning_hides_magic:
  assumes "0 < k" "k < length m_magic_string"
  shows "magic_run m_magic_string 0 (map byte_of_char (take k m_magic_string @ m_magic_string)) \<noteq> None"
proof -
  have part: "magic_run m_magic_string 0 (map byte_of_char (take k m_magic_string)) = Some k"
    using magic_run_part [of 0 "map byte_of_char (take k m_magic_string)" m_magic_string] assms(2)
    by (simp add: comp_def)
  have rest: "magic_run m_magic_string 0 (map byte_of_char (tl m_magic_string)) \<noteq> None"
    "magic_run m_magic_string 23 (map byte_of_char m_magic_string) \<noteq> None"
    by code_simp+
  have "magic_run m_magic_string k (map byte_of_char m_magic_string) \<noteq> None"
  proof (cases "k = 23")
    case False
    have "map byte_of_char m_magic_string = byte_of_char (CHR ''S'') # map byte_of_char (tl m_magic_string)"
      by (simp add: m_magic_string_def)
    moreover have "CHR ''S'' \<noteq> string_at m_magic_string k"
      using second_S [OF assms False] assms(2) by (metis string_at_def)
    ultimately show ?thesis
      using rest(1) by (metis char_of_byte_of_char magic_run.simps(2))
  qed (use rest(2) in simp)
  then show ?thesis
    using part by (simp add: magic_run_append)
qed

text \<open>C37: A mismatch drops the count to zero without looking at the characters again. So an announcement that
  follows directly on a proper beginning of itself, of any length, is missed: at the start of the
  output or of a line, however the bytes are cut into blocks, the handshake is not started, unless it had
  been started by what came before.\<close>

theorem announcement_missed:
  assumes "d = MagicStringDetector_new m_magic_string" "0 < k" "k < length m_magic_string"
    and "concat bss = xs @ map byte_of_char (take k m_magic_string @ m_magic_string)" "xs = [] \<or> last xs = 10"
    and "process_blocks (\<lambda>_. Inl e) (\<lambda>_. Inr) [xs] d s \<noteq> Inl e"
  shows "process_blocks (\<lambda>_. Inl e) (\<lambda>_. Inr) bss d s \<noteq> Inl e"
proof -
  have d: "md_magic d = m_magic_string" "m_recognized_count d = 0"
    by (simp_all add: assms(1) MagicStringDetector_new_def)
  have found: "process_blocks (\<lambda>_. Inl e) (\<lambda>_. Inr) bss d s = Inl e \<longleftrightarrow> magic_run m_magic_string 0 (concat bss) = None" for bss
    unfolding blocks_found_iff d ..
  have "magic_run m_magic_string 0 xs = Some 0"
  proof (cases "xs = []")
    case False
    then have xs: "xs = butlast xs @ [10]"
      using assms(5) append_butlast_last_id by metis
    then have "magic_run m_magic_string 0 (butlast xs) \<noteq> None"
      using assms(6) found [of "[xs]"] by (metis concat.simps append_Nil2 magic_run_append option.simps(4))
    then show ?thesis
      using magic_run_reset [OF magic_length newline_not_in_magic] xs by metis
  qed simp
  then show ?thesis
    using beginning_hides_magic [OF assms(2,3)] unfolding found assms(4) magic_run_append [of _ _ xs] by simp
qed

theorem announcement_missed_witness:
  "process_blocks (\<lambda>_. Inl (MyException [])) (\<lambda>_. Inr)
     [map byte_of_char ''login'' @ [10], map byte_of_char ''STDIO'', map byte_of_char m_magic_string]
     (MagicStringDetector_new m_magic_string) () \<noteq> Inl (MyException [])"
proof -
  let ?d = "MagicStringDetector_new m_magic_string" and ?xs = "map byte_of_char ''login'' @ [10]"
    and ?bss = "[map byte_of_char ''login'' @ [10], map byte_of_char ''STDIO'', map byte_of_char m_magic_string]"
  have run: "magic_run m_magic_string 0 ?xs \<noteq> None" and len: "5 < length m_magic_string" and five: "take 5 m_magic_string = ''STDIO''"
    by code_simp+
  have "concat ?bss = ?xs @ map byte_of_char (take 5 m_magic_string @ m_magic_string)"
    unfolding five by simp
  moreover have "process_blocks (\<lambda>_. Inl (MyException [])) (\<lambda>_. Inr) [?xs] ?d () \<noteq> Inl (MyException [])"
    unfolding blocks_found_iff using run by (simp add: MagicStringDetector_new_def del: list.map)
  ultimately show ?thesis
    using announcement_missed [OF refl, of 5 ?bss ?xs "MyException []" "()"] len
    by (simp del: process_blocks.simps list.map concat.simps)
qed

end
