(* ===== verification/Proc_Posix.thy ===== *)
theory Proc_Posix
  imports Net_Posix Terminal
begin

text \<open>
  The rest of the operating system interface: processes, terminals, addresses of both families,
  memory and threads. It extends the record of socket calls.
\<close>

datatype af = AF_UNSPEC | AF_INET | AF_INET6

text \<open>A socket address: family, address bytes and port.\<close>

datatype sockaddr = SockAddr4 bytes short | SockAddr6 bytes short

fun sockaddr_af :: "sockaddr \<Rightarrow> af" where
  "sockaddr_af (SockAddr4 _ _) = AF_INET"
| "sockaddr_af (SockAddr6 _ _) = AF_INET6"

text \<open>
  \<open>sys_fork\<close> gives the child's number, zero in the child; \<open>sys_forkpty\<close> also the master's
  descriptor. \<open>sys_execvp\<close> says whether the process image was replaced. \<open>sys_blocking f\<close> is
  \<open>fcntl(f, F_SETFL, 0)\<close>. \<open>sys_getsockname\<close> gives the port. \<open>sys_getaddrinfo host service\<close>
  gives the addresses, or an error code; \<open>sys_inet_ntop\<close> the text of an address, or nothing.
  \<open>sys_alloc\<close> says whether an allocation succeeds, \<open>sys_thread_create\<close> whether a thread was
  started.
\<close>

record 'w proc_posix = "'w net_posix" +
  sys_fork :: "'w \<Rightarrow> (errno + nat) \<times> 'w"
  sys_forkpty :: "termios option \<Rightarrow> 'w \<Rightarrow> (errno + nat \<times> c_int) \<times> 'w"
  sys_pipe :: "'w \<Rightarrow> (errno + c_int \<times> c_int) \<times> 'w"
  sys_dup :: "c_int \<Rightarrow> 'w \<Rightarrow> (errno + c_int) \<times> 'w"
  sys_dup2 :: "c_int \<Rightarrow> c_int \<Rightarrow> 'w \<Rightarrow> 'w"
  sys_execvp :: "string list \<Rightarrow> 'w \<Rightarrow> bool \<times> 'w"
  sys_tcgetattr :: "c_int \<Rightarrow> 'w \<Rightarrow> termios option \<times> 'w"
  sys_tcsetattr :: "c_int \<Rightarrow> termios \<Rightarrow> 'w \<Rightarrow> 'w"
  sys_blocking :: "c_int \<Rightarrow> 'w \<Rightarrow> 'w"
  sys_signal_ignore :: "string \<Rightarrow> 'w \<Rightarrow> 'w"
  sys_umask :: "nat \<Rightarrow> 'w \<Rightarrow> 'w"
  sys_chdir :: "string \<Rightarrow> 'w \<Rightarrow> (errno + unit) \<times> 'w"
  sys_cerr :: "string \<Rightarrow> 'w \<Rightarrow> 'w"
  sys_getsockname :: "c_int \<Rightarrow> 'w \<Rightarrow> (errno + short) \<times> 'w"
  sys_getaddrinfo :: "string \<Rightarrow> string \<Rightarrow> 'w \<Rightarrow> (c_int + sockaddr list) \<times> 'w"
  sys_socket_af :: "af \<Rightarrow> 'w \<Rightarrow> (errno + c_int) \<times> 'w"
  sys_bind_sa :: "c_int \<Rightarrow> sockaddr \<Rightarrow> 'w \<Rightarrow> (errno + unit) \<times> 'w"
  sys_connect_sa :: "c_int \<Rightarrow> sockaddr \<Rightarrow> 'w \<Rightarrow> (errno + unit) \<times> 'w"
  sys_reuseaddr :: "c_int \<Rightarrow> 'w \<Rightarrow> 'w"
  sys_accept_from :: "c_int \<Rightarrow> 'w \<Rightarrow> (errno + c_int \<times> sockaddr) \<times> 'w"
  sys_inet_ntop :: "af \<Rightarrow> bytes \<Rightarrow> string option"
  sys_alloc :: "'w \<Rightarrow> bool \<times> 'w"
  sys_thread_create :: "nat \<Rightarrow> 'w \<Rightarrow> bool \<times> 'w"
  sys_thread_join :: "nat \<Rightarrow> 'w \<Rightarrow> 'w"

text \<open>
  The small system of \<open>Posix\<close> with the rest of the calls: no terminal, a child numbered 7 with
  its pipe on descriptors 30 to 33, every allocation and every thread start successful.
\<close>

definition pipe_proc :: "nat \<Rightarrow> pipe_world proc_posix" where
  "pipe_proc quantum = net_posix.extend (pipe_net quantum)
     \<lparr>sys_fork = (\<lambda>w. (Inr 7, w)),
      sys_forkpty = (\<lambda>t w. (Inr (7, 30), w)),
      sys_pipe = (\<lambda>w. (Inr (30, 31), w)),
      sys_dup = (\<lambda>f w. (Inr 32, w)),
      sys_dup2 = (\<lambda>f g w. w),
      sys_execvp = (\<lambda>c w. (True, w)),
      sys_tcgetattr = (\<lambda>f w. (None, w)),
      sys_tcsetattr = (\<lambda>f t w. w),
      sys_blocking = (\<lambda>f w. w),
      sys_signal_ignore = (\<lambda>n w. w),
      sys_umask = (\<lambda>n w. w),
      sys_chdir = (\<lambda>d w. (Inr (), w)),
      sys_cerr = (\<lambda>m w. w),
      sys_getsockname = (\<lambda>f w. (Inr 1080, w)),
      sys_getaddrinfo = (\<lambda>h p w. (Inr [SockAddr4 [127, 0, 0, 1] 80], w)),
      sys_socket_af = (\<lambda>a w. (Inr 11, w)),
      sys_bind_sa = (\<lambda>f a w. (Inr (), w)),
      sys_connect_sa = (\<lambda>f a w. (Inr (), w)),
      sys_reuseaddr = (\<lambda>f w. w),
      sys_accept_from = (\<lambda>f w. (Inr (21, SockAddr4 [127, 0, 0, 1] 5), w)),
      sys_inet_ntop = (\<lambda>a bs. Some (map char_of_byte bs)),
      sys_alloc = (\<lambda>w. (True, w)),
      sys_thread_create = (\<lambda>a w. (True, w)),
      sys_thread_join = (\<lambda>a w. w)\<rparr>"

lemma pipe_proc_posix [simp]:
  "sys_read (pipe_proc q) = sys_read (pipe_os q)" "sys_write (pipe_proc q) = sys_write (pipe_os q)"
  "sys_poll (pipe_proc q) = sys_poll (pipe_os q)" "sys_close (pipe_proc q) = sys_close (pipe_os q)"
  by (simp_all add: pipe_proc_def pipe_net_def net_posix.extend_def posix.extend_def)

lemma pipe_proc_spec:
  "posix_read (pipe_proc q) f pw_in" "posix_write (pipe_proc q) f pw_out" "posix_poll (pipe_proc q)"
  using pipe_os_read [of q f] pipe_os_write [of q f] pipe_os_poll [of q]
  by (simp_all add: posix_read_def posix_write_def posix_poll_def)

end
