(* ===== verification/Tunnel_Local.thy ===== *)
theory Tunnel_Local
  imports Tunnel_Links Magic_Detector Proc_Posix
begin

text \<open>
  \<open>StdioTunnelLocal\<close> (\<open>stdio_tunnel/StdioTunnel.h\<close>, \<open>.cpp\<close>): the end the user starts.
  It runs the connection command, passes its input and output through until the remote side
  announces itself, then sends the connection table and forwards messages. The base class's
  constructor, destructor, \<open>startFinish\<close> and \<open>pollCallback\<close> are here too.
\<close>

section \<open>State\<close>

datatype local_state =
    L_INITIAL | L_SET_STDIO_READ | L_SET_STDIO_WRITE | L_SET_PIPE_READ | L_PASS_THROUGH | L_HAND_SHAKE
  | L_CONNECTED | L_SHUT_DOWN

text \<open>\<open>g_id\<close> is the file's counter of connection numbers.\<close>

record 'w local_tunnel = "'w tunnel" +
  l_state :: local_state
  m_command :: "string list option"
  m_read_fd :: c_int
  m_write_fd :: c_int
  m_force_pipe :: bool
  m_expects_pipe :: bool
  m_connection_specs :: "connection_spec list"
  m_read_buffer :: magic_detector
  m_write_buffer :: sock_buffer
  m_daemon :: bool
  m_silent :: bool
  g_id :: short

type_synonym 'w local_op = "'w local_tunnel \<Rightarrow> 'w local_tunnel res"

section \<open>The base class\<close>

text \<open>
  The constructor. \<open>junk\<close> is what memory holds in \<open>m_is_terminal\<close>, which is set only when
  standard input is a terminal; \<open>m_termios\<close> likewise.
\<close>

definition StdioTunnel_new ::
  "('w, 'o) proc_posix_scheme \<Rightarrow> bool \<Rightarrow> termios \<Rightarrow> c_int \<Rightarrow> c_int \<Rightarrow> 'w \<Rightarrow> 'w tunnel" where
  "StdioTunnel_new os junk junk_termios j1 j2 w =
     (case sys_tcgetattr os STDIN_FD w of
        (tc, w) \<Rightarrow>
          let w = (case tc of None \<Rightarrow> w | Some t \<Rightarrow> sys_tcsetattr os STDIN_FD (cfmakeraw t) w)
          in poller.extend ((Poller_new j1 j2 w)\<lparr>m_callback := True\<rparr>)
               \<lparr>m_read_stream = ReadStream_new, m_write_stream = WriteStream_new,
                m_writer_attached = False, m_writer_fd = 0, m_closed_by_request = False,
                m_termios = (case tc of None \<Rightarrow> junk_termios | Some t \<Rightarrow> t),
                m_is_terminal = (case tc of None \<Rightarrow> junk | Some _ \<Rightarrow> True),
                m_connection_map = [], m_connections = Map.empty, m_links = Map.empty, m_next_obj = 0\<rparr>)"

text \<open>The destructor's calls.\<close>

definition StdioTunnel_destroy ::
  "('w, 'o) proc_posix_scheme \<Rightarrow> ('w, 'a) tunnel_scheme \<Rightarrow> 'w" where
  "StdioTunnel_destroy os s =
     (let w = (if m_is_terminal s then sys_tcsetattr os STDIN_FD (m_termios s) (world s) else world s)
      in sys_blocking os STDOUT_FD (sys_blocking os STDIN_FD w))"

text \<open>\<open>startFinish\<close>, for either kind's \<open>start\<close> and handlers.\<close>

definition StdioTunnel_startFinish ::
  "('w, 'o) posix_scheme \<Rightarrow> ('w, 'a) tunnel_op \<Rightarrow>
     (polled_ref \<Rightarrow> nat \<Rightarrow> ('w, 'a) tunnel_op) \<Rightarrow> ('w, 'a) tunnel_op" where
  "StdioTunnel_startFinish os start polled s =
     bindE (start s) (\<lambda>s.
       if m_closed_by_request s
       then bindE (CustomWriteStream_send (put_short CMD_SHUTDOWN s)) (\<lambda>s.
            bindE (Poller_pollOnce os polled s) (\<lambda>(_, s). Inr s))
       else Inr s)"

definition StdioTunnel_pollCallback ::
  "('w, 'o) net_posix_scheme \<Rightarrow> ('w, 'a) tunnel_scheme \<Rightarrow> ('w, 'a) tunnel_scheme" where
  "StdioTunnel_pollCallback os s = (if sys_signaled os (world s) then Poller_requestFinish s else s)"

section \<open>Construction\<close>

definition StdioTunnelLocal_new :: "'w tunnel \<Rightarrow> 'w local_tunnel" where
  "StdioTunnelLocal_new base = tunnel.extend base
     \<lparr>l_state = L_INITIAL, m_command = None, m_read_fd = -1, m_write_fd = -1, m_force_pipe = False,
      m_expects_pipe = False, m_connection_specs = [],
      m_read_buffer = MagicStringDetector_new m_magic_string, m_write_buffer = SockBuffer_new,
      m_daemon = False, m_silent = False, g_id = 0\<rparr>"

section \<open>The handshake\<close>

text \<open>Errors of a short count, where \<open>errno\<close> keeps what an earlier call left there.\<close>

definition STALE_ERRNO :: errno where "STALE_ERRNO = E_OTHER 0"

definition daemon :: "('w, 'o) proc_posix_scheme \<Rightarrow> ('w, 'a) tunnel_op" where
  "daemon os s =
     (case syscall (sys_fork os) s of
        (Inl e, s) \<Rightarrow> Inl (MyExceptionErrno e)
      | (Inr pid, s) \<Rightarrow>
          if 0 < pid then Inl (CStringExn ''Run in daemon.'')
          else
            let s = on_world (sys_signal_ignore os ''SIGCHLD'') s;
                s = on_world (sys_signal_ignore os ''SIGHUP'') s;
                s = on_world (sys_umask os 0) s
            in case syscall (sys_chdir os ''/'') s of
                 (Inl e, s) \<Rightarrow> Inl (MyExceptionErrno e)
               | (Inr _, s) \<Rightarrow> Inr s)"

text \<open>One line of the connection table: its number and its specification.\<close>

definition announce_connection ::
  "(c_int \<times> nat) \<Rightarrow> ('w, 'a) tunnel_op" where
  "announce_connection kc s =
     bindE (deref_connection (snd kc) s) (\<lambda>t.
       Inr (writing (ConnectionSpec_serialize (m_spec t)) (put_short (tc_id t) s)))"

fun announce_all :: "(c_int \<times> nat) list \<Rightarrow> ('w, 'a) tunnel_op" where
  "announce_all [] s = Inr s"
| "announce_all (kc # kcs) s = bindE (announce_connection kc s) (announce_all kcs)"

definition StdioTunnelLocal_startHandshaking :: "('w, 'o) proc_posix_scheme \<Rightarrow> 'w local_op" where
  "StdioTunnelLocal_startHandshaking os s =
     (let s = s\<lparr>l_state := L_HAND_SHAKE, m_write_buffer := SockBuffer_clear (m_write_buffer s)\<rparr>;
          s = put_short CMD_CREATE s;
          s = put_short (int (length (m_connection_map s))) s
      in bindE (announce_all (m_connection_map s) s) (\<lambda>s.
         bindE (CustomWriteStream_send s) (\<lambda>s.
           let s = Poller_removePolled P_Tunnel STDIN_FD s;
               s = (if m_is_terminal s
                    then on_world (sys_tcsetattr os STDIN_FD (raw_with_signals (m_termios s))) s else s)
           in if m_daemon s
              then daemon os (on_world (sys_cerr os ''Keep running daemon in background ...'') s)
              else Inr s)))"

definition StdioTunnelLocal_remoteInit :: "('w, 'o) proc_posix_scheme \<Rightarrow> string \<Rightarrow> 'w local_op" where
  "StdioTunnelLocal_remoteInit os remote_cmd s =
     (let send_cmd = map byte_of_char (remote_cmd @ [CHR 0x0A])
      in case syscall (sys_write os (m_writer_fd s) send_cmd) s of
           (Inl e, s) \<Rightarrow> Inl (MyExceptionErrno e)
         | (Inr k, s) \<Rightarrow> if k \<noteq> length send_cmd then Inl (MyExceptionErrno STALE_ERRNO) else Inr s)"

section \<open>Polling\<close>

definition StdioTunnelLocal_setPollfd ::
  "pollfd \<Rightarrow> 'w local_tunnel \<Rightarrow> (pollfd \<times> 'w local_tunnel) res" where
  "StdioTunnelLocal_setPollfd ps s =
     (case l_state s of
        L_INITIAL \<Rightarrow> Inr (ps\<lparr>fd := STDIN_FD, events := POLLIN\<rparr>, s\<lparr>l_state := L_SET_STDIO_READ\<rparr>)
      | L_SET_STDIO_READ \<Rightarrow> Inr (ps\<lparr>fd := STDOUT_FD, events := 0\<rparr>, s\<lparr>l_state := L_SET_STDIO_WRITE\<rparr>)
      | L_SET_STDIO_WRITE \<Rightarrow> Inr (ps\<lparr>fd := m_read_fd s, events := POLLIN\<rparr>, s\<lparr>l_state := L_SET_PIPE_READ\<rparr>)
      | L_SET_PIPE_READ \<Rightarrow> Inr (ps\<lparr>fd := m_write_fd s, events := 0\<rparr>, s\<lparr>l_state := L_PASS_THROUGH\<rparr>)
      | _ \<Rightarrow> Inl (MyException ''Bad state''))"

text \<open>
  \<open>m_read_buffer.readData(fd)\<close>: the detector's hook works on the whole tunnel. The fuel bounds
  the blocks of one call.
\<close>

definition detector_hook ::
  "('w, 'o) proc_posix_scheme \<Rightarrow> bytes \<Rightarrow> (magic_detector \<times> 'w local_tunnel) \<times> 'w \<Rightarrow>
     ((magic_detector \<times> 'w local_tunnel) \<times> 'w) res" where
  "detector_hook os bs h =
     (case h of ((d, s), w) \<Rightarrow>
        bindE (MagicStringDetector_processReadData (StdioTunnelLocal_startHandshaking os)
                 (StdioTunnelLocal_remoteInit os) bs d (s\<lparr>world := w\<rparr>))
          (\<lambda>(d, s). Inr ((d, s), world s)))"

definition read_from_pipe ::
  "nat \<Rightarrow> ('w, 'o) proc_posix_scheme \<Rightarrow> 'w local_tunnel \<Rightarrow> (nat \<times> 'w local_tunnel) res" where
  "read_from_pipe fuel os s =
     bindE (SockBuffer_readData fuel os (detector_hook os) (m_read_fd s) (md_buffer (m_read_buffer s))
              (m_read_buffer s, s) (world s))
       (\<lambda>(n, b, (d, s), w). Inr (n, s\<lparr>world := w, m_read_buffer := d\<lparr>md_buffer := b\<rparr>\<rparr>))"

definition read_from_stdin ::
  "nat \<Rightarrow> ('w, 'o) proc_posix_scheme \<Rightarrow> 'w local_tunnel \<Rightarrow> (nat \<times> 'w local_tunnel) res" where
  "read_from_stdin fuel os s =
     bindE (SockBuffer_readData fuel os SockBuffer_processReadData STDIN_FD (m_write_buffer s) () (world s))
       (\<lambda>(n, b, _, w). Inr (n, s\<lparr>world := w, m_write_buffer := b\<rparr>))"

definition write_to_pipe :: "('w, 'o) proc_posix_scheme \<Rightarrow> 'w local_op" where
  "write_to_pipe os s =
     bindE (SockBuffer_writeData os (m_write_fd s) (m_write_buffer s) (world s))
       (\<lambda>(_, b, w). Inr (s\<lparr>world := w, m_write_buffer := b\<rparr>))"

definition write_to_stdout :: "('w, 'o) proc_posix_scheme \<Rightarrow> 'w local_op" where
  "write_to_stdout os s =
     bindE (SockBuffer_writeData os STDOUT_FD (md_buffer (m_read_buffer s)) (world s))
       (\<lambda>(_, b, w). Inr (s\<lparr>world := w, m_read_buffer := (m_read_buffer s)\<lparr>md_buffer := b\<rparr>\<rparr>))"

text \<open>\<open>if (poll_struct.fd == f) body\<close>, with the structure read when the test is made.\<close>

definition when_fd ::
  "nat \<Rightarrow> ('w local_tunnel \<Rightarrow> c_int) \<Rightarrow> (pollfd \<Rightarrow> 'w local_op) \<Rightarrow> 'w local_op" where
  "when_fd pa f body s =
     bindE (Poller_deref pa s) (\<lambda>ps. if fd ps = f s then body ps s else Inr s)"

definition StdioTunnelLocal_passThrough ::
  "nat \<Rightarrow> ('w, 'o) proc_posix_scheme \<Rightarrow> nat \<Rightarrow> 'w local_op" where
  "StdioTunnelLocal_passThrough fuel os pa s =
     bindE (when_fd pa m_read_fd (\<lambda>ps s.
       bindE (read_from_pipe fuel os s) (\<lambda>(n, s).
         if n = 0 then Inl (MyException ''Read side closed'')
         else Inr (if SockBuffer_unsentData (md_buffer (m_read_buffer s))
                   then Poller_setEvents P_Tunnel STDOUT_FD POLLOUT s else s))) s) (\<lambda>s.
     bindE (when_fd pa m_write_fd (\<lambda>ps s.
       if \<not> flag POLLOUT (revents ps) then Inl (MyException ''unexpected revents in write to pipe'')
       else bindE (write_to_pipe os s) (\<lambda>s.
              Inr (if \<not> SockBuffer_unsentData (m_write_buffer s)
                   then Poller_setEvents P_Tunnel (m_write_fd s) 0 s else s))) s) (\<lambda>s.
     bindE (when_fd pa (\<lambda>_. STDIN_FD) (\<lambda>ps s.
       bindE (read_from_stdin fuel os s) (\<lambda>(n, s).
         if n = 0 then Inl (MyException ''Stdin closed'')
         else Inr (if SockBuffer_unsentData (m_write_buffer s)
                   then Poller_setEvents P_Tunnel (m_write_fd s) POLLOUT s else s))) s) (\<lambda>s.
     when_fd pa (\<lambda>_. STDOUT_FD) (\<lambda>ps s.
       if \<not> flag POLLOUT (revents ps) then Inl (MyException ''unexpected revents'')
       else bindE (write_to_stdout os s) (\<lambda>s.
              Inr (if \<not> SockBuffer_unsentData (md_buffer (m_read_buffer s))
                   then Poller_setEvents P_Tunnel STDOUT_FD 0 s else s))) s)))"

definition StdioTunnelLocal_reportError :: "('w, 'o) proc_posix_scheme \<Rightarrow> string \<Rightarrow> 'w local_op" where
  "StdioTunnelLocal_reportError os message s = Inr (on_world (sys_cerr os message) s)"

text \<open>\<open>getReader().fill(poll_struct)\<close>\<close>

definition fill_reader ::
  "('w, 'o) posix_scheme \<Rightarrow> pollfd \<Rightarrow> ('w, 'a) tunnel_op" where
  "fill_reader os ps s =
     bindE (ReadStream_fill os ps (m_read_stream s) (world s)) (\<lambda>(r, w).
       Inr (s\<lparr>m_read_stream := r, world := w\<rparr>))"

text \<open>\<open>getWriter().empty(poll_struct)\<close>, which stores through the reference.\<close>

definition empty_writer ::
  "('w, 'o) posix_scheme \<Rightarrow> nat \<Rightarrow> pollfd \<Rightarrow> ('w, 'a) tunnel_op" where
  "empty_writer os pa ps s =
     bindE (WriteStream_empty os ps (m_write_stream s) (world s)) (\<lambda>(ps', ws, w).
       Inr (Poller_storeEvents pa (events ps') (s\<lparr>m_write_stream := ws, world := w\<rparr>)))"

text \<open>One message from the remote side.\<close>

definition StdioTunnelLocal_message :: "('w, 'o) proc_posix_scheme \<Rightarrow> 'w local_op" where
  "StdioTunnelLocal_message os s =
     bindE (get_short s) (\<lambda>(cmd, s).
       if of_short cmd = CMD_ERROR then
         bindE (reading ReadStream_readString s) (\<lambda>(message, s). StdioTunnelLocal_reportError os message s)
       else if of_short cmd = CMD_CREATE then Inr (s\<lparr>l_state := L_CONNECTED\<rparr>)
       else if of_short cmd = CMD_CONNECTION then
         bindE (get_short s) (\<lambda>(i, s).
           forward_message os (StdioTunnelLocal_reportError os) (of_short i) s)
       else if of_short cmd = CMD_SHUTDOWN then
         Inr ((Poller_requestFinish s)\<lparr>m_closed_by_request := True\<rparr>)
       else Inr s)"

definition StdioTunnelLocal_connected ::
  "('w, 'o) proc_posix_scheme \<Rightarrow> nat \<Rightarrow> 'w local_op" where
  "StdioTunnelLocal_connected os pa s =
     bindE (when_fd pa m_read_fd (\<lambda>ps s.
       if flag (POLLERR OR POLLNVAL OR POLLHUP) (revents ps)
       then Inl (MyException ''Read pipe closed/invalid'')
       else bindE (fill_reader os ps s) (\<lambda>s.
              if ReadStream_available (m_read_stream s) then StdioTunnelLocal_message os s else Inr s)) s) (\<lambda>s.
     bindE (when_fd pa m_write_fd (\<lambda>ps s.
       if flag (POLLERR OR POLLNVAL OR POLLHUP) (revents ps)
       then Inl (MyException ''Write pipe closed/invalid'')
       else bindE (empty_writer os pa ps s) (\<lambda>s.
              Inr (if \<not> WriteStream_pendingWrite (m_write_stream s)
                   then Poller_setEvents P_Tunnel (m_write_fd s) 0 s else s))) s) (\<lambda>s.
     when_fd pa (\<lambda>_. STDOUT_FD) (\<lambda>ps s.
       if SockBuffer_unsentData (md_buffer (m_read_buffer s)) then write_to_stdout os s
       else Inr (Poller_removePolled P_Tunnel STDOUT_FD s)) s))"

definition StdioTunnelLocal_polled ::
  "nat \<Rightarrow> ('w, 'o) proc_posix_scheme \<Rightarrow> nat \<Rightarrow> 'w local_op" where
  "StdioTunnelLocal_polled fuel os pa s =
     (case l_state s of
        L_PASS_THROUGH \<Rightarrow> StdioTunnelLocal_passThrough fuel os pa s
      | L_HAND_SHAKE \<Rightarrow> StdioTunnelLocal_connected os pa s
      | L_CONNECTED \<Rightarrow> StdioTunnelLocal_connected os pa s
      | _ \<Rightarrow> Inr s)"

text \<open>The virtual functions of everything registered with the local side's poller.\<close>

definition local_polled ::
  "nat \<Rightarrow> ('w, 'o) proc_posix_scheme \<Rightarrow> polled_ref \<Rightarrow> nat \<Rightarrow> 'w local_op" where
  "local_polled fuel os p pa s =
     (case p of
        P_Tunnel \<Rightarrow> StdioTunnelLocal_polled fuel os pa s
      | P_Listen c \<Rightarrow> ListenSide_polled os c s
      | P_Link a \<Rightarrow> ConnectionLink_polled os a pa s
      | P_Socks5 \<Rightarrow> Inl (Undefined NullPointer))"

definition tunnel_cleanup ::
  "('w, 'o) posix_scheme \<Rightarrow> polled_ref \<Rightarrow> pollfd \<Rightarrow> ('w, 'a) tunnel_op" where
  "tunnel_cleanup os p ps s =
     (case p of
        P_Tunnel \<Rightarrow> Inr s
      | P_Listen c \<Rightarrow> ListenSide_cleanup os c s
      | P_Link a \<Rightarrow> ConnectionLink_cleanup os a s
      | P_Socks5 \<Rightarrow> Inr (on_world (sys_close os (fd ps)) s))"

section \<open>Starting\<close>

text \<open>In the parent: the two descriptors it keeps. In the child: \<open>None\<close>.\<close>

definition forkpipe ::
  "('w, 'o) proc_posix_scheme \<Rightarrow> 'w \<Rightarrow> (errno + nat \<times> (c_int \<times> c_int) option) \<times> 'w" where
  "forkpipe os w =
     (case sys_pipe os w of
        (Inl e, w) \<Rightarrow> (Inl e, w)
      | (Inr (read0, read1), w) \<Rightarrow>
          (case sys_pipe os w of
             (Inl e, w) \<Rightarrow> (Inl e, w)
           | (Inr (write0, write1), w) \<Rightarrow>
               (case sys_fork os w of
                  (Inl e, w) \<Rightarrow> (Inl e, w)
                | (Inr result, w) \<Rightarrow>
                    if 0 < result
                    then (Inr (result, Some (read0, write1)), sys_close os write0 (sys_close os read1 w))
                    else (Inr (result, None),
                          sys_close os read1 (sys_close os read0 (sys_close os write1 (sys_close os write0
                            (sys_dup2 os read1 1 (sys_dup2 os write0 0 w)))))))))"

definition start_child ::
  "('w, 'o) proc_posix_scheme \<Rightarrow> 'w local_tunnel \<Rightarrow> (nat \<times> 'w local_tunnel) res" where
  "start_child os s =
     (if m_force_pipe s
      then (case syscall (forkpipe os) s of
              (Inl e, s) \<Rightarrow> Inl (MyExceptionErrno e)
            | (Inr (pid, None), s) \<Rightarrow> Inr (pid, s)
            | (Inr (pid, Some (r, wr)), s) \<Rightarrow> Inr (pid, s\<lparr>m_read_fd := r, m_write_fd := wr\<rparr>))
      else
        let termiosptr = (if m_is_terminal s then Some (m_termios s) else None);
            termiosptr = (if m_expects_pipe s \<and> m_is_terminal s
                          then Some (cfmakeraw (m_termios s)) else termiosptr)
        in case syscall (sys_forkpty os termiosptr) s of
             (Inl e, s) \<Rightarrow> Inl (MyExceptionErrno e)
           | (Inr (pid, master), s) \<Rightarrow>
               if pid \<noteq> 0
               then let s = s\<lparr>m_read_fd := master\<rparr>
                    in case syscall (sys_dup os (m_read_fd s)) s of
                         (Inl e, s) \<Rightarrow> Inl (MyExceptionErrno e)
                       | (Inr f, s) \<Rightarrow> Inr (pid, s\<lparr>m_write_fd := f\<rparr>)
               else Inr (pid, s))"

fun create_connections ::
  "('w, 'o) proc_posix_scheme \<Rightarrow> connection_spec list \<Rightarrow> 'w local_op" where
  "create_connections os [] s = Inr s"
| "create_connections os (sp # sps) s =
     bindE (TunnelConnection_CreateConnection os sp True (of_short (g_id s)) (s\<lparr>g_id := g_id s + 1\<rparr>))
       (\<lambda>(pConn, s).
         case pConn of
           None \<Rightarrow> create_connections os sps s
         | Some c \<Rightarrow>
             bindE (deref_connection c s) (\<lambda>t.
               create_connections os sps (assign_connection (tc_id t) c s)))"

text \<open>The four calls of \<open>fcntl\<close>, the first failure throwing.\<close>

fun all_nonblocking :: "('w, 'o) net_posix_scheme \<Rightarrow> c_int list \<Rightarrow> ('w, 'a) tunnel_op" where
  "all_nonblocking os [] s = Inr s"
| "all_nonblocking os (f # fs) s =
     (case syscall (sys_nonblock os f) s of
        (Inl e, s) \<Rightarrow> Inl (MyExceptionErrno e)
      | (Inr _, s) \<Rightarrow> all_nonblocking os fs s)"

definition StdioTunnelLocal_start ::
  "nat \<Rightarrow> nat \<Rightarrow> ('w, 'o) proc_posix_scheme \<Rightarrow> 'w local_op" where
  "StdioTunnelLocal_start fuel rounds os s =
     bindE (start_child os s) (\<lambda>(child_pid, s).
       if child_pid \<noteq> 0
       then
         bindE (create_connections os (m_connection_specs s) s) (\<lambda>s.
         bindE (all_nonblocking os [m_read_fd s, m_write_fd s, STDIN_FD, STDOUT_FD] s) (\<lambda>s.
           let s = s\<lparr>m_writer_attached := True, m_writer_fd := m_write_fd s\<rparr>;
               add = Poller_addPolled (\<lambda>_. StdioTunnelLocal_setPollfd) P_Tunnel
           in bindE (iterE 4 add s)
                (Poller_start rounds os (local_polled fuel os) (StdioTunnel_pollCallback os)
                   (tunnel_cleanup os))))
       else
         (case m_command s of
            None \<Rightarrow> Inl (Undefined NullPointer)
          | Some cmd \<Rightarrow>
              (case syscall (sys_execvp os cmd) s of
                 (True, s) \<Rightarrow> Inl (ExecProcess cmd)
               | (False, s) \<Rightarrow> Inl (ExitProcess (-1)))))"

end
