(* ===== verification/Tunnel_Streams.thy ===== *)
theory Tunnel_Streams
  imports Tunnel_Frame Tunnel_Local
begin

text \<open>
  What both sides do with their own entries of the poller's table and with the two streams between
  them: an entry that was there when a handler was called can still be read through after any frame
  step; reading a packet and emptying the writer keep the table and the streams in order.
\<close>

section \<open>The tunnel's own entries\<close>

lemma poller_map_None: "poller_map s k = None \<longleftrightarrow> k \<notin> set (keys s)"
proof -
  have "entry_map es k = None \<longleftrightarrow> k \<notin> set (map (\<lambda>e. (e_polled e, fd (e_pollfd e))) es)" for es
    by (induction es) auto
  then show ?thesis
    by (simp add: poller_map_def keys_def)
qed

lemma storeEvents_keys [simp]: "keys (Poller_storeEvents pa ev s) = keys s"
  by (simp add: keys_def Poller_storeEvents_def comp_def if_distrib cong: if_cong)

lemma storeEvents_fields [simp]:
  "m_write_stream (Poller_storeEvents pa ev s) = m_write_stream s"
  "m_read_stream (Poller_storeEvents pa ev s) = m_read_stream s"
  "m_writer_fd (Poller_storeEvents pa ev s) = m_writer_fd s"
  "m_writer_attached (Poller_storeEvents pa ev s) = m_writer_attached s"
  "tunnel.more (Poller_storeEvents pa ev s) = tunnel.more s"
  by (simp_all add: Poller_storeEvents_def)

lemma deref_in: "Poller_deref pa s = Inr ps \<Longrightarrow> \<exists>e \<in> set (m_polled s). e_addr e = pa \<and> e_pollfd e = ps"
  by (fastforce simp: Poller_deref_def find_Some_iff split: option.splits)

lemma entry_unique:
  assumes "table_ok s" "e \<in> set (m_polled s)" "e' \<in> set (m_polled s)" "e_addr e = e_addr e'"
  shows "e = e'"
  using assms by (auto simp: table_ok_def addrs_def distinct_map inj_on_def)

lemma storeEvents_same:
  assumes "table_ok s" "Poller_deref pa s = Inr ps"
  shows "Poller_storeEvents pa (events ps) s = s"
proof -
  obtain e where e: "e \<in> set (m_polled s)" "e_addr e = pa" "e_pollfd e = ps"
    using deref_in [OF assms(2)] by blast
  have "(if e_addr x = pa then x\<lparr>e_pollfd := (e_pollfd x)\<lparr>events := events ps\<rparr>\<rparr> else x) = x"
    if "x \<in> set (m_polled s)" for x
    using entry_unique [OF assms(1) e(1) that] e by (cases "e_addr x = pa") auto
  then have "map (\<lambda>x. if e_addr x = pa then x\<lparr>e_pollfd := (e_pollfd x)\<lparr>events := events ps\<rparr>\<rparr> else x)
      (m_polled s) = m_polled s"
    by (simp add: map_idI)
  then show ?thesis
    by (simp add: Poller_storeEvents_def)
qed

text \<open>The entry a handler of the tunnel was called for is still there after any frame step.\<close>

lemma own_entry_kept:
  assumes "tun_core s t" "table_ok s" "table_ok t" "Poller_deref pa s = Inr ps" "has_entry pa P_Tunnel s"
  shows "\<exists>ps'. Poller_deref pa t = Inr ps' \<and> fd ps' = fd ps \<and> revents ps' = revents ps"
proof -
  obtain e where e: "e \<in> set (m_polled s)" "e_addr e = pa" "e_polled e = P_Tunnel"
    using assms(5) by (auto simp: has_entry_def)
  have ps: "e_pollfd e = ps"
    using deref_in [OF assms(4)] entry_unique [OF assms(2) e(1)] e by metis
  obtain e' where e': "e' \<in> set (m_polled t)" "ident e' = ident e"
    using assms(1) e by (force simp: tun_core_def keeps_tunnel_def)
  then have "e_addr e' = pa"
    using e by (simp add: ident_def)
  then have "pa \<in> set (addrs t)"
    using e'(1) by (auto simp: addrs_def)
  then obtain ps' where ps': "Poller_deref pa t = Inr ps'"
    using deref_defined by blast
  have "e_pollfd e' = ps'"
    using deref_in [OF ps'] entry_unique [OF assms(3) e'(1)] \<open>e_addr e' = pa\<close> by metis
  with ps' e'(2) ps show ?thesis
    by (auto simp: ident_def)
qed

text \<open>Frame steps keep the table in order.\<close>

lemma step_table_ok: "poller_step s t \<Longrightarrow> table_ok s \<Longrightarrow> table_ok t"
proof (induction rule: poller_step.induct)
  case (change s' s)
  then have "addrs s' = addrs s"
    by (simp add: addrs_ident)
  with change show ?case by (simp add: table_ok_def)
qed (auto simp: table_ok_def addrs_def less_Suc_eq)

lemma steps_table_ok: "poller_steps s t \<Longrightarrow> table_ok s \<Longrightarrow> table_ok t"
  by (induction rule: rtranclp_induct) (auto intro: step_table_ok)

lemma tun_core_table_ok: "tun_core s t \<Longrightarrow> table_ok s \<Longrightarrow> table_ok t"
  by (rule steps_table_ok) (simp_all add: tun_core_def)

section \<open>Reading and writing the tunnel's own connection\<close>

lemma fill_tame: "ReadStream_fill os ps r w = Inl e \<Longrightarrow> tame e"
  by (auto simp: ReadStream_fill_def ReadStream_fill_header_def ReadStream_fill_body_def exn_simps Let_def
      split: prod.splits sum.splits if_splits)

lemma fill_reader_ok:
  assumes "posix_read os (fd ps) inp"
  shows "frame_ok s (fill_reader os ps s)"
  unfolding fill_reader_def
  by (rule res_ok_bind_value)
    (use fill_step [OF assms] in \<open>auto intro: fill_tame intro!: tun_rel_same\<close>, blast)

lemma empty_tame: "WriteStream_empty os ps ws w = Inl e \<Longrightarrow> tame e"
  by (auto simp: WriteStream_empty_def WritePacket_sendPacket_def exn_simps Let_def
      split: prod.splits sum.splits if_splits)

text \<open>What emptying the writer does to the table: nothing, unless the last packet is gone.\<close>

definition drained :: "('w, 'a) tunnel_scheme \<Rightarrow> ('w, 'a) tunnel_scheme \<Rightarrow> bool" where
  "drained s t \<longleftrightarrow> poller_steps s t \<and> keys t = keys s \<and>
     m_writer_fd t = m_writer_fd s \<and> m_writer_attached t = m_writer_attached s \<and>
     ws_inv (m_write_stream t) \<and> m_read_stream t = m_read_stream s \<and>
     tunnel.more t = tunnel.more s \<and>
     (WriteStream_pendingWrite (m_write_stream t) \<longrightarrow>
        m_polled t = m_polled s \<and> WriteStream_pendingWrite (m_write_stream s))"

lemma empty_pending:
  "WriteStream_empty os ps ws w = Inr (ps', ws', w') \<Longrightarrow> WriteStream_pendingWrite ws' \<Longrightarrow>
     WriteStream_pendingWrite ws"
  by (cases "WriteStream_pendingWrite ws") (simp_all add: WriteStream_empty_def)

lemma empty_writer_ok:
  assumes "posix_write os (fd ps) out" "ws_inv (m_write_stream s)" "table_ok s" "Poller_deref pa s = Inr ps"
  shows "res_ok tame (drained s) (empty_writer os pa ps s)"
  unfolding empty_writer_def
proof (rule res_ok_bind_value, erule empty_tame)
  fix x
  assume "WriteStream_empty os ps (m_write_stream s) (world s) = Inr x"
  moreover obtain ps' ws w where "x = (ps', ws, w)" by (cases x)
  ultimately have e: "WriteStream_empty os ps (m_write_stream s) (world s) = Inr (ps', ws, w)" by simp
  let ?t = "s\<lparr>m_write_stream := ws, world := w\<rparr>"
  let ?u = "Poller_storeEvents pa (events ps') ?t"
  have "poller_step s ?t"
    by (rule poller_step.change) simp_all
  then have "poller_steps s ?u"
    using storeEvents_step by (metis converse_rtranclp_into_rtranclp r_into_rtranclp)
  moreover have "keys ?t = keys s"
    by (simp add: keys_def)
  moreover have "m_polled ?u = m_polled s" if "WriteStream_pendingWrite ws"
  proof -
    have "events ps' = events ps"
      using WriteStream_empty_pollfd(3) [OF e that] .
    then show ?thesis
      using arg_cong [OF storeEvents_same [OF assms(3,4)], of m_polled] by (simp add: Poller_storeEvents_def)
  qed
  ultimately have "drained s ?u"
    using WriteStream_empty_moves [OF assms(1,2) e] empty_pending [OF e] by (simp add: drained_def)
  then show "res_ok tame (drained s) (case x of (ps', ws, w) \<Rightarrow>
      Inr (Poller_storeEvents pa (events ps') (s\<lparr>m_write_stream := ws, world := w\<rparr>)))"
    using \<open>x = (ps', ws, w)\<close> by simp
qed

section \<open>Setting up and cleaning up\<close>

lemma entry_map_requests:
  "map requests es = map requests es' \<Longrightarrow> entry_map es k = entry_map es' k"
  by (induction es es' rule: list_induct2') (auto simp: requests_def)

lemma all_nonblocking_ok:
  "res_ok tame (\<lambda>t. \<exists>w. t = s\<lparr>world := w\<rparr>) (all_nonblocking os fs s)"
proof (induction fs arbitrary: s)
  case Nil
  show ?case by (simp, rule exI [of _ "world s"]) simp
next
  case (Cons f fs)
  show ?case
  proof (cases "sys_nonblock os f (world s)")
    case (Pair x w)
    then show ?thesis
      using Cons.IH [of "s\<lparr>world := w\<rparr>"] by (cases x) (simp_all add: syscall_def)
  qed
qed

lemma cleanup_ok: "frame_ok s (tunnel_cleanup os p ps s)"
  by (cases p)
    (auto simp: tunnel_cleanup_def ListenSide_cleanup_def ConnectionLink_cleanup_def
      intro!: res_ok_bind_value intro: deref_tame)

end
