(* ===== verification/Sblist.thy ===== *)
theory Sblist
  imports Main
begin

text \<open>
  \<open>microsocks/sblist.c\<close>, \<open>sblist.h\<close> and \<open>sblist_delete.c\<close>: a growing array of items
  stored by value. The block of memory is a list of slots, one per item of its capacity; a slot
  nothing has been stored in is \<open>None\<close>. A pointer to an item is its index; allocation may
  fail, which the caller's system decides.
\<close>

section \<open>Operations\<close>

record 'i sblist =
  itemsize :: nat
  blockitems :: nat
  count :: nat
  capa :: nat
  items :: "'i option list"

definition MY_PAGE_SIZE :: nat where "MY_PAGE_SIZE = 4096"

definition sblist_clear :: "'i sblist \<Rightarrow> 'i sblist" where
  "sblist_clear l = l\<lparr>items := [], capa := 0, count := 0\<rparr>"

definition sblist_init :: "nat \<Rightarrow> nat \<Rightarrow> 'i sblist \<Rightarrow> 'i sblist" where
  "sblist_init isz bi l =
     sblist_clear (l\<lparr>blockitems := (if bi \<noteq> 0 then bi else MY_PAGE_SIZE div isz), itemsize := isz\<rparr>)"

text \<open>The fresh block has whatever the allocator left in it; a failed allocation gives a null pointer.\<close>

definition sblist_new :: "bool \<Rightarrow> 'i sblist \<Rightarrow> nat \<Rightarrow> nat \<Rightarrow> 'i sblist option" where
  "sblist_new allocated junk isz bi = (if allocated then Some (sblist_init isz bi junk) else None)"

definition sblist_free_items :: "'i sblist \<Rightarrow> 'i sblist" where
  "sblist_free_items l = sblist_clear l"

definition sblist_getsize :: "'i sblist \<Rightarrow> nat" where
  "sblist_getsize l = count l"

definition sblist_get :: "'i sblist \<Rightarrow> nat \<Rightarrow> nat option" where
  "sblist_get l i = (if i < count l then Some i else None)"

definition sblist_set :: "'i \<Rightarrow> nat \<Rightarrow> 'i sblist \<Rightarrow> bool \<times> 'i sblist" where
  "sblist_set x pos l =
     (if count l \<le> pos then (False, l) else (True, l\<lparr>items := (items l)[pos := Some x]\<rparr>))"

definition sblist_grow_if_needed :: "bool \<Rightarrow> 'i sblist \<Rightarrow> bool \<times> 'i sblist" where
  "sblist_grow_if_needed reallocated l =
     (if count l = capa l
      then if \<not> reallocated then (False, l)
           else (True, l\<lparr>capa := capa l + blockitems l,
                         items := items l @ replicate (blockitems l) None\<rparr>)
      else (True, l))"

definition sblist_add :: "bool \<Rightarrow> 'i \<Rightarrow> 'i sblist \<Rightarrow> bool \<times> 'i sblist" where
  "sblist_add reallocated x l =
     (case sblist_grow_if_needed reallocated l of
        (False, l) \<Rightarrow> (False, l)
      | (True, l) \<Rightarrow> let l = l\<lparr>count := count l + 1\<rparr> in sblist_set x (count l - 1) l)"

text \<open>\<open>memmove\<close> of the slots after the deleted one.\<close>

definition sblist_delete :: "nat \<Rightarrow> 'i sblist \<Rightarrow> 'i sblist" where
  "sblist_delete i l =
     (if count l \<noteq> 0 \<and> i < count l
      then let n = count l - (i + 1)
           in l\<lparr>items := take i (items l) @ take n (drop (i + 1) (items l)) @ drop (i + n) (items l),
                count := count l - 1\<rparr>
      else l)"

section \<open>The list it stores\<close>

definition sblist_inv :: "'i sblist \<Rightarrow> bool" where
  "sblist_inv l \<longleftrightarrow> count l \<le> capa l \<and> length (items l) = capa l \<and> 0 < blockitems l \<and>
     (\<forall>i < count l. items l ! i \<noteq> None)"

definition sblist_abs :: "'i sblist \<Rightarrow> 'i list" where
  "sblist_abs l = map the (take (count l) (items l))"

text \<open>The interface of an array list, which \<open>collect\<close> and the accept handler use.\<close>

locale array_list =
  fixes abs :: "'l \<Rightarrow> 'i list"
    and inv :: "'l \<Rightarrow> bool"
    and add :: "bool \<Rightarrow> 'i \<Rightarrow> 'l \<Rightarrow> bool \<times> 'l"
    and del :: "nat \<Rightarrow> 'l \<Rightarrow> 'l"
    and size :: "'l \<Rightarrow> nat"
  assumes add_ok: "inv l \<Longrightarrow> add ok x l = (True, l') \<Longrightarrow> abs l' = abs l @ [x]"
    and add_total: "inv l \<Longrightarrow> \<exists>l'. add True x l = (True, l')"
    and add_fail: "inv l \<Longrightarrow> add ok x l = (False, l') \<Longrightarrow> abs l' = abs l"
    and inv_add: "inv l \<Longrightarrow> inv (snd (add ok x l))"
    and del_abs: "inv l \<Longrightarrow> i < length (abs l) \<Longrightarrow> abs (del i l) = take i (abs l) @ drop (Suc i) (abs l)"
    and inv_del: "inv l \<Longrightarrow> inv (del i l)"
    and size_abs: "inv l \<Longrightarrow> size l = length (abs l)"
begin

lemma adds_abs:
  "inv l \<Longrightarrow> abs (fold (\<lambda>x l. snd (add True x l)) xs l) = abs l @ xs"
proof (induction xs arbitrary: l)
  case (Cons x xs)
  obtain l' where l': "add True x l = (True, l')"
    using add_total [OF Cons.prems] by blast
  have "inv l'"
    using inv_add [OF Cons.prems, of True x] by (simp add: l')
  then show ?case
    using Cons.IH add_ok [OF Cons.prems l'] by (simp add: l')
qed simp

end

lemma sblist_inv_init: "0 < bi \<or> (0 < isz \<and> isz \<le> MY_PAGE_SIZE) \<Longrightarrow> sblist_inv (sblist_init isz bi l)"
  by (auto simp: sblist_inv_def sblist_init_def sblist_clear_def div_greater_zero_iff)

lemma sblist_abs_init [simp]: "sblist_abs (sblist_init isz bi l) = []"
  by (simp add: sblist_abs_def sblist_init_def sblist_clear_def)

lemma sblist_add_abs:
  assumes "sblist_inv l" "sblist_add ok x l = (True, l')"
  shows "sblist_abs l' = sblist_abs l @ [x]"
  using assms
  by (auto simp: sblist_add_def sblist_grow_if_needed_def sblist_set_def sblist_abs_def sblist_inv_def
      Let_def take_Suc_conv_app_nth take_update_swap list_update_append split: if_splits bool.splits)

lemma sblist_add_inv: "sblist_inv l \<Longrightarrow> sblist_inv (snd (sblist_add ok x l))"
  by (auto simp: sblist_add_def sblist_grow_if_needed_def sblist_set_def sblist_inv_def Let_def
      nth_list_update nth_append less_Suc_eq split: if_splits bool.splits)

lemma sblist_delete_abs:
  assumes "sblist_inv l" "i < count l"
  shows "sblist_abs (sblist_delete i l) = take i (sblist_abs l) @ drop (Suc i) (sblist_abs l)"
proof (cases "i = count l - 1")
  case True
  then show ?thesis
    using assms by (auto simp: sblist_delete_def sblist_abs_def Let_def take_map drop_map)
next
  case False
  then show ?thesis
    using assms
    by (auto simp: sblist_delete_def sblist_abs_def sblist_inv_def Let_def take_map drop_map
        drop_take min_def)
qed

lemma sblist_delete_inv: "sblist_inv l \<Longrightarrow> sblist_inv (sblist_delete i l)"
  by (auto simp: sblist_delete_def sblist_inv_def Let_def nth_append nth_take min_def)

interpretation sbl: array_list sblist_abs sblist_inv sblist_add sblist_delete sblist_getsize
proof (unfold_locales, goal_cases)
  case (2 l x)
  then show ?case
    by (auto simp: sblist_add_def sblist_grow_if_needed_def sblist_set_def Let_def)
next
  case (3 l ok x l')
  then show ?case
    by (auto simp: sblist_add_def sblist_grow_if_needed_def sblist_set_def Let_def split: if_splits bool.splits)
next
  case (5 l i)
  then show ?case
    using sblist_delete_abs by (auto simp: sblist_abs_def sblist_inv_def)
next
  case (7 l)
  then show ?case
    by (auto simp: sblist_abs_def sblist_inv_def sblist_getsize_def)
qed (simp_all add: sblist_add_abs sblist_add_inv sblist_delete_inv)

end
