(* ===== verification/Socks5.thy ===== *)
theory Socks5
  imports Connection_Spec Proc_Posix Sblist
begin

text \<open>
  The built-in socks server of the remote side: \<open>microsocks/server.c\<close>, and
  \<open>Socks5Server\<close> with its client threads from \<open>stdio_tunnel/StdioTunnel.cpp\<close>. A client
  thread is a function on the world; what the server and the threads share are the
  \<open>thread\<close> records, which live on a heap of their own.
\<close>

section \<open>Addresses and the listening socket\<close>

definition SOMAXCONN :: nat where "SOMAXCONN = 4096"

definition resolve ::
  "('w, 'o) proc_posix_scheme \<Rightarrow> string \<Rightarrow> short \<Rightarrow> 'w \<Rightarrow> (c_int + sockaddr list) \<times> 'w" where
  "resolve os host port w = sys_getaddrinfo os host (show_nat (unat port)) w"

text \<open>\<open>AF_UNSPEC\<close> in the result union is \<open>None\<close>.\<close>

definition resolve_sa ::
  "('w, 'o) proc_posix_scheme \<Rightarrow> string \<Rightarrow> short \<Rightarrow> 'w \<Rightarrow> ((c_int \<times> sockaddr option) \<times> 'w) res" where
  "resolve_sa os host port w =
     (case resolve os host port w of
        (Inl ret, w) \<Rightarrow> Inr ((ret, None), w)
      | (Inr [], w) \<Rightarrow> Inl (Undefined NullPointer)
      | (Inr (ai # _), w) \<Rightarrow> Inr ((0, Some ai), w))"

definition bindtoip ::
  "('w, 'o) proc_posix_scheme \<Rightarrow> c_int \<Rightarrow> sockaddr option \<Rightarrow> 'w \<Rightarrow> c_int \<times> 'w" where
  "bindtoip os f bindaddr w =
     (case bindaddr of
        None \<Rightarrow> (0, w)
      | Some sa \<Rightarrow> (case sys_bind_sa os f sa w of (Inl _, w) \<Rightarrow> (-1, w) | (Inr _, w) \<Rightarrow> (0, w)))"

record client =
  cl_addr :: "sockaddr option"
  cl_fd :: c_int

definition server_waitclient :: "('w, 'o) proc_posix_scheme \<Rightarrow> c_int \<Rightarrow> 'w \<Rightarrow> (c_int \<times> client) \<times> 'w" where
  "server_waitclient os server_fd w =
     (case sys_accept_from os server_fd w of
        (Inl _, w) \<Rightarrow> ((-1, \<lparr>cl_addr = None, cl_fd = -1\<rparr>), w)
      | (Inr (f, sa), w) \<Rightarrow> ((0, \<lparr>cl_addr = Some sa, cl_fd = f\<rparr>), w))"

text \<open>The loop over the addresses: the first socket that can be bound.\<close>

fun server_bind :: "('w, 'o) proc_posix_scheme \<Rightarrow> sockaddr list \<Rightarrow> 'w \<Rightarrow> c_int option \<times> 'w" where
  "server_bind os [] w = (None, w)"
| "server_bind os (p # ps) w =
     (case sys_socket_af os (sockaddr_af p) w of
        (Inl _, w) \<Rightarrow> server_bind os ps w
      | (Inr listenfd, w) \<Rightarrow>
          (case sys_bind_sa os listenfd p (sys_reuseaddr os listenfd w) of
             (Inl _, w) \<Rightarrow> server_bind os ps (sys_close os listenfd w)
           | (Inr _, w) \<Rightarrow> (Some listenfd, w)))"

text \<open>The result code, and the descriptor stored in the server when it is zero.\<close>

definition server_setup ::
  "('w, 'o) proc_posix_scheme \<Rightarrow> string \<Rightarrow> short \<Rightarrow> 'w \<Rightarrow> (c_int \<times> c_int option) \<times> 'w" where
  "server_setup os listenip port w =
     (case resolve os listenip port w of
        (Inl _, w) \<Rightarrow> ((-1, None), w)
      | (Inr ainfo, w) \<Rightarrow>
          (case server_bind os ainfo w of
             (None, w) \<Rightarrow> ((-2, None), w)
           | (Some listenfd, w) \<Rightarrow>
               (case sys_listen os listenfd SOMAXCONN w of
                  (Inl _, w) \<Rightarrow> ((-3, None), sys_close os listenfd w)
                | (Inr _, w) \<Rightarrow> ((0, Some listenfd), w))))"

section \<open>The protocol\<close>

datatype socksstate = SS_1_CONNECTED | SS_2_NEED_AUTH | SS_3_AUTHED

definition AM_NO_AUTH :: byte where "AM_NO_AUTH = 0"
definition EC_SUCCESS :: c_int where "EC_SUCCESS = 0"
definition EC_GENERAL_FAILURE :: c_int where "EC_GENERAL_FAILURE = 1"
definition EC_NOT_ALLOWED :: c_int where "EC_NOT_ALLOWED = 2"
definition EC_NET_UNREACHABLE :: c_int where "EC_NET_UNREACHABLE = 3"
definition EC_HOST_UNREACHABLE :: c_int where "EC_HOST_UNREACHABLE = 4"
definition EC_CONN_REFUSED :: c_int where "EC_CONN_REFUSED = 5"
definition EC_TTL_EXPIRED :: c_int where "EC_TTL_EXPIRED = 6"
definition EC_COMMAND_NOT_SUPPORTED :: c_int where "EC_COMMAND_NOT_SUPPORTED = 7"
definition EC_ADDRESSTYPE_NOT_SUPPORTED :: c_int where "EC_ADDRESSTYPE_NOT_SUPPORTED = 8"

lemmas ec_codes = EC_SUCCESS_def EC_GENERAL_FAILURE_def EC_NOT_ALLOWED_def EC_NET_UNREACHABLE_def
  EC_HOST_UNREACHABLE_def EC_CONN_REFUSED_def EC_TTL_EXPIRED_def EC_COMMAND_NOT_SUPPORTED_def
  EC_ADDRESSTYPE_NOT_SUPPORTED_def

text \<open>The label \<open>eval_errno\<close>: the failure code for an error number.\<close>

definition eval_errno :: "errno \<Rightarrow> c_int" where
  "eval_errno e =
     (case e of
        ETIMEDOUT \<Rightarrow> - EC_TTL_EXPIRED
      | EPROTOTYPE \<Rightarrow> - EC_ADDRESSTYPE_NOT_SUPPORTED
      | EPROTONOSUPPORT \<Rightarrow> - EC_ADDRESSTYPE_NOT_SUPPORTED
      | EAFNOSUPPORT \<Rightarrow> - EC_ADDRESSTYPE_NOT_SUPPORTED
      | ECONNREFUSED \<Rightarrow> - EC_CONN_REFUSED
      | ENETDOWN \<Rightarrow> - EC_NET_UNREACHABLE
      | ENETUNREACH \<Rightarrow> - EC_NET_UNREACHABLE
      | EHOSTUNREACH \<Rightarrow> - EC_HOST_UNREACHABLE
      | _ \<Rightarrow> - EC_GENERAL_FAILURE)"

text \<open>A byte of the request buffer; beyond the bytes received its content is indeterminate.\<close>

definition buf_at :: "bytes \<Rightarrow> nat \<Rightarrow> byte res" where
  "buf_at buf i = (if i < length buf then Inr (buf ! i) else Inl (Undefined BadIterator))"

definition buf_slice :: "bytes \<Rightarrow> nat \<Rightarrow> nat \<Rightarrow> bytes res" where
  "buf_slice buf i n =
     (if i + n \<le> length buf then Inr (take n (drop i buf)) else Inl (Undefined BadIterator))"

text \<open>The text in a block of characters up to its first zero.\<close>

definition c_string :: "bytes \<Rightarrow> string" where
  "c_string bs = map char_of_byte (takeWhile (\<lambda>b. b \<noteq> 0) bs)"

text \<open>
  The first half of \<open>connect_socks_target\<close>: the name and port asked for, or the negative code.
  \<open>buf\<close> is the \<open>n\<close> bytes received.
\<close>

definition socks_target_addr ::
  "('w, 'o) proc_posix_scheme \<Rightarrow> af \<Rightarrow> nat \<Rightarrow> bytes \<Rightarrow> (c_int + string \<times> nat) res" where
  "socks_target_addr os fam minlen buf =
     (if length buf < minlen then Inr (Inl (- EC_GENERAL_FAILURE))
      else bindE (buf_slice buf 4 (if fam = AF_INET6 then 16 else 4)) (\<lambda>ip.
             case sys_inet_ntop os fam ip of
               None \<Rightarrow> Inr (Inl (- EC_GENERAL_FAILURE))
             | Some name \<Rightarrow> Inr (Inr (name, minlen))))"

definition socks_target ::
  "('w, 'o) proc_posix_scheme \<Rightarrow> bytes \<Rightarrow> (c_int + string \<times> short) res" where
  "socks_target os buf =
     (if length buf < 5 then Inr (Inl (- EC_GENERAL_FAILURE))
      else
        bindE (buf_at buf 0) (\<lambda>b0. if b0 \<noteq> 5 then Inr (Inl (- EC_GENERAL_FAILURE)) else
        bindE (buf_at buf 1) (\<lambda>b1. if b1 \<noteq> 1 then Inr (Inl (- EC_COMMAND_NOT_SUPPORTED)) else
        bindE (buf_at buf 2) (\<lambda>b2. if b2 \<noteq> 0 then Inr (Inl (- EC_GENERAL_FAILURE)) else
        bindE (buf_at buf 3) (\<lambda>b3.
        bindE
          (if b3 = 4 then socks_target_addr os AF_INET6 (4 + 2 + 16) buf
           else if b3 = 1 then socks_target_addr os AF_INET (4 + 4 + 2) buf
           else if b3 = 3 then
             bindE (buf_at buf 4) (\<lambda>len.
               let l = unat len in
               if length buf < 4 + 2 + l + 1 then Inr (Inl (- EC_GENERAL_FAILURE))
               else bindE (buf_slice buf (4 + 1) l) (\<lambda>name. Inr (Inr (c_string name, 4 + 2 + l + 1))))
           else Inr (Inl (- EC_ADDRESSTYPE_NOT_SUPPORTED)))
          (\<lambda>r. case r of
             Inl code \<Rightarrow> Inr (Inl code)
           | Inr (name, minlen) \<Rightarrow>
               bindE (buf_at buf (minlen - 2)) (\<lambda>hi.
               bindE (buf_at buf (minlen - 1)) (\<lambda>lo.
                 Inr (Inr (name, push_bit 8 (ucast hi) OR ucast lo))))))))))"

definition connect_socks_target ::
  "('w, 'o) proc_posix_scheme \<Rightarrow> bytes \<Rightarrow> 'w \<Rightarrow> (c_int \<times> 'w) res" where
  "connect_socks_target os buf w =
     bindE (socks_target os buf) (\<lambda>r.
       case r of
         Inl code \<Rightarrow> Inr (code, w)
       | Inr (name, port) \<Rightarrow>
           (case resolve os name port w of
              (Inl _, w) \<Rightarrow> Inr (- EC_GENERAL_FAILURE, w)
            | (Inr [], w) \<Rightarrow> Inl (Undefined NullPointer)
            | (Inr (remote # _), w) \<Rightarrow>
                (case sys_socket_af os (sockaddr_af remote) w of
                   (Inl e, w) \<Rightarrow> Inr (eval_errno e, w)
                 | (Inr f, w) \<Rightarrow>
                     (case sys_connect_sa os f remote w of
                        (Inl e, w) \<Rightarrow> Inr (eval_errno e, sys_close os f w)
                      | (Inr _, w) \<Rightarrow> Inr (f, w)))))"

text \<open>\<open>write(fd, buf, n) != n\<close>\<close>

definition write_all :: "('w, 'o) posix_scheme \<Rightarrow> c_int \<Rightarrow> bytes \<Rightarrow> 'w \<Rightarrow> bool \<times> 'w" where
  "write_all os f bs w =
     (case sys_write os f bs w of (Inl _, w) \<Rightarrow> (False, w) | (Inr k, w) \<Rightarrow> (k = length bs, w))"

definition socks_reply :: "c_int \<Rightarrow> bytes" where
  "socks_reply ret = [5, (if ret < 0 then word_of_int (- ret) else word_of_int EC_SUCCESS), 0, 1, 0, 0, 0, 0, 0, 0]"

text \<open>The receive loop; the fuel bounds its turns, and two are always enough (below).\<close>

fun socks5_loop ::
  "nat \<Rightarrow> ('w, 'o) proc_posix_scheme \<Rightarrow> c_int \<Rightarrow> socksstate \<Rightarrow> 'w \<Rightarrow> (c_int \<times> 'w) res" where
  "socks5_loop 0 os f st w = Inl OutOfFuel"
| "socks5_loop (Suc n) os f st w =
     (case sys_read os f 1024 w of
        (Inl _, w) \<Rightarrow> Inr (-1, w)
      | (Inr [], w) \<Rightarrow> Inr (-1, w)
      | (Inr buf, w) \<Rightarrow>
          (case st of
             SS_1_CONNECTED \<Rightarrow>
               (case write_all os f [5, AM_NO_AUTH] w of
                  (False, w) \<Rightarrow> Inr (-1, w)
                | (True, w) \<Rightarrow> socks5_loop n os f SS_3_AUTHED w)
           | SS_2_NEED_AUTH \<Rightarrow>
               (case write_all os f [1, word_of_int EC_SUCCESS] w of
                  (False, w) \<Rightarrow> Inr (-1, w)
                | (True, w) \<Rightarrow> socks5_loop n os f SS_3_AUTHED w)
           | SS_3_AUTHED \<Rightarrow>
               bindE (connect_socks_target os buf w) (\<lambda>(ret, w).
                 case write_all os f (socks_reply ret) w of
                   (False, w) \<Rightarrow> Inr (-1, w)
                 | (True, w) \<Rightarrow> Inr (if ret < 0 then -1 else ret, w))))"

definition socks5_handshake :: "('w, 'o) proc_posix_scheme \<Rightarrow> c_int \<Rightarrow> 'w \<Rightarrow> (c_int \<times> 'w) res" where
  "socks5_handshake os f w = socks5_loop 2 os f SS_1_CONNECTED w"

section \<open>Copying\<close>

text \<open>\<open>MIN(16 * 1024, THREAD_STACK_SIZE / 2)\<close> with the stack size of glibc systems.\<close>

definition COPY_SIZE :: nat where "COPY_SIZE = 16384"

text \<open>The inner loop: everything read is written, or the connection ends (\<open>False\<close>).\<close>

fun copy_write :: "nat \<Rightarrow> ('w, 'o) posix_scheme \<Rightarrow> c_int \<Rightarrow> bytes \<Rightarrow> 'w \<Rightarrow> (bool \<times> 'w) res" where
  "copy_write n os f [] w = Inr (True, w)"
| "copy_write 0 os f (b # bs) w = Inl OutOfFuel"
| "copy_write (Suc n) os f (b # bs) w =
     (case sys_write os f (b # bs) w of
        (Inl _, w) \<Rightarrow> Inr (False, w)
      | (Inr m, w) \<Rightarrow> copy_write n os f (drop m (b # bs)) w)"

text \<open>The poll structures handed to \<open>poll\<close>; \<open>revents\<close> is what the last call left there.\<close>

fun copyloop ::
  "nat \<Rightarrow> ('w, 'o) posix_scheme \<Rightarrow> c_int \<Rightarrow> c_int \<Rightarrow> pollfd list \<Rightarrow> 'w \<Rightarrow> 'w res" where
  "copyloop 0 os fd1 fd2 fds w = Inl OutOfFuel"
| "copyloop (Suc n) os fd1 fd2 fds w =
     (case sys_poll os fds (60 * 15 * 1000) w of
        (Inl e, w) \<Rightarrow> if e = EINTR \<or> e = EAGAIN then copyloop n os fd1 fd2 fds w else Inr w
      | (Inr (0, fds), w) \<Rightarrow> Inr w
      | (Inr (Suc k, fds), w) \<Rightarrow>
          let infd = (if flag POLLIN (revents (fds ! 0)) then fd1 else fd2);
              outfd = (if infd = fd2 then fd1 else fd2)
          in case sys_read os infd COPY_SIZE w of
               (Inl _, w) \<Rightarrow> Inr w
             | (Inr buf, w) \<Rightarrow>
                 if length buf = 0 then Inr w
                 else bindE (copy_write n os outfd buf w) (\<lambda>(ok, w).
                        if ok then copyloop n os fd1 fd2 fds w else Inr w))"

definition copyloop_fds :: "c_int \<Rightarrow> c_int \<Rightarrow> pollfd list" where
  "copyloop_fds fd1 fd2 =
     [\<lparr>fd = fd1, events = POLLIN, revents = 0\<rparr>, \<lparr>fd = fd2, events = POLLIN, revents = 0\<rparr>]"

section \<open>Threads\<close>

record socks_thread =
  st_client :: client
  st_done :: bool

text \<open>The body of a thread: the world after it; its \<open>done\<close> flag is set at the very end.\<close>

definition socks5_clientthread ::
  "nat \<Rightarrow> ('w, 'o) proc_posix_scheme \<Rightarrow> socks_thread \<Rightarrow> 'w \<Rightarrow> (socks_thread \<times> 'w) res" where
  "socks5_clientthread fuel os t w =
     bindE (socks5_handshake os (cl_fd (st_client t)) w) (\<lambda>(remotefd, w).
     bindE (if remotefd \<noteq> -1
            then bindE (copyloop fuel os (cl_fd (st_client t)) remotefd
                          (copyloop_fds (cl_fd (st_client t)) remotefd) w)
                   (\<lambda>w. Inr (sys_close os remotefd w))
            else Inr w) (\<lambda>w.
       Inr (t\<lparr>st_done := True\<rparr>, sys_close os (cl_fd (st_client t)) w)))"

record socks5_server =
  srv_fd :: c_int
  m_threads :: "nat sblist"
  srv_threads :: "nat \<rightharpoonup> socks_thread"
  srv_next :: nat

definition Socks5Server_new :: "socks5_server" where
  "Socks5Server_new =
     \<lparr>srv_fd = 0,
      m_threads = sblist_init 8 8 \<lparr>itemsize = 0, blockitems = 0, count = 0, capa = 0, items = []\<rparr>,
      srv_threads = Map.empty, srv_next = 0\<rparr>"

function Socks5Server_collect_from ::
  "('w, 'o) proc_posix_scheme \<Rightarrow> nat \<Rightarrow> socks5_server \<Rightarrow> 'w \<Rightarrow> (socks5_server \<times> 'w) res" where
  "Socks5Server_collect_from os i v w =
     (if i < sblist_getsize (m_threads v)
      then (case items (m_threads v) ! i of
              None \<Rightarrow> Inl (Undefined NullPointer)
            | Some a \<Rightarrow>
                (case srv_threads v a of
                   None \<Rightarrow> Inl (Undefined UseAfterFree)
                 | Some t \<Rightarrow>
                     if st_done t
                     then Socks5Server_collect_from os i
                            (v\<lparr>m_threads := sblist_delete i (m_threads v),
                               srv_threads := (srv_threads v)(a := None)\<rparr>)
                            (sys_thread_join os a w)
                     else Socks5Server_collect_from os (i + 1) v w))
      else Inr (v, w))"
  by pat_completeness auto
termination
  by (relation "measure (\<lambda>(os, i, v, w). sblist_getsize (m_threads v) - i)")
    (auto simp: sblist_getsize_def sblist_delete_def)

declare Socks5Server_collect_from.simps [simp del]

definition Socks5Server_collect ::
  "('w, 'o) proc_posix_scheme \<Rightarrow> socks5_server \<Rightarrow> 'w \<Rightarrow> (socks5_server \<times> 'w) res" where
  "Socks5Server_collect os v w = Socks5Server_collect_from os 0 v w"

definition Socks5Server_polled ::
  "('w, 'o) proc_posix_scheme \<Rightarrow> socks5_server \<Rightarrow> 'w \<Rightarrow> (socks5_server \<times> 'w) res" where
  "Socks5Server_polled os v w =
     bindE (Socks5Server_collect os v w) (\<lambda>(v, w).
       case sys_alloc os w of
         (False, w) \<Rightarrow> Inr (v, w)
       | (True, w) \<Rightarrow>
           (case server_waitclient os (srv_fd v) w of
              ((ret, c), w) \<Rightarrow>
                if ret \<noteq> 0 then Inr (v, w)
                else
                  let curr = srv_next v;
                      v = v\<lparr>srv_next := Suc curr,
                            srv_threads := (srv_threads v)(curr \<mapsto> \<lparr>st_client = c, st_done = False\<rparr>)\<rparr>
                  in case (if count (m_threads v) = capa (m_threads v) then sys_alloc os w else (True, w)) of
                       (reallocated, w) \<Rightarrow>
                         (case sblist_add reallocated curr (m_threads v) of
                            (False, l) \<Rightarrow>
                              Inr (v\<lparr>m_threads := l, srv_threads := (srv_threads v)(curr := None)\<rparr>,
                                   sys_close os (cl_fd c) w)
                          | (True, l) \<Rightarrow>
                              Inr (v\<lparr>m_threads := l\<rparr>, snd (sys_thread_create os curr w)))))"

definition Socks5Server_setPollfd :: "socks5_server \<Rightarrow> pollfd \<Rightarrow> pollfd" where
  "Socks5Server_setPollfd v ps = ps\<lparr>fd := srv_fd v, events := POLLIN\<rparr>"

definition Socks5Server_cleanup :: "('w, 'o) posix_scheme \<Rightarrow> pollfd \<Rightarrow> 'w \<Rightarrow> 'w" where
  "Socks5Server_cleanup os ps w = sys_close os (fd ps) w"

end
