(* ===== verification/Tunnel_Remote.thy ===== *)
theory Tunnel_Remote
  imports Tunnel_Local Socks5
begin

text \<open>
  \<open>StdioTunnelRemote\<close> (\<open>stdio_tunnel/StdioTunnel.h\<close>, \<open>.cpp\<close>): the end the connection
  command starts with \<open>-r\<close>. It announces itself, receives the connection table, opens its
  side of every connection and forwards messages.
\<close>

section \<open>State\<close>

datatype remote_state = R_INITIAL | R_SET_STDIO_READ | R_HANDSHAKING | R_CONNECTED | R_SHUT_DOWN

record 'w remote_tunnel = "'w tunnel" +
  r_state :: remote_state
  m_socks5_server :: "socks5_server option"

type_synonym 'w remote_op = "'w remote_tunnel \<Rightarrow> 'w remote_tunnel res"

definition StdioTunnelRemote_new :: "'w tunnel \<Rightarrow> 'w remote_tunnel" where
  "StdioTunnelRemote_new base = tunnel.extend base \<lparr>r_state = R_INITIAL, m_socks5_server = None\<rparr>"

definition StdioTunnelRemote_reportError :: "string \<Rightarrow> 'w remote_op" where
  "StdioTunnelRemote_reportError message s =
     CustomWriteStream_send (writing (WriteStream_writeString message) (put_short CMD_ERROR s))"

definition StdioTunnelRemote_setPollfd ::
  "pollfd \<Rightarrow> 'w remote_tunnel \<Rightarrow> (pollfd \<times> 'w remote_tunnel) res" where
  "StdioTunnelRemote_setPollfd ps s =
     (case r_state s of
        R_INITIAL \<Rightarrow> Inr (ps\<lparr>fd := STDIN_FD, events := POLLIN\<rparr>, s\<lparr>r_state := R_SET_STDIO_READ\<rparr>)
      | R_SET_STDIO_READ \<Rightarrow> Inr (ps\<lparr>fd := STDOUT_FD, events := 0\<rparr>, s\<lparr>r_state := R_HANDSHAKING\<rparr>)
      | _ \<Rightarrow> Inl (MyException ''Bad state''))"

section \<open>The handshake\<close>

text \<open>
  A socks specification gets the built-in server: the specification that is used from there on
  connects to it on this host.
\<close>

definition start_socks5 ::
  "('w, 'o) proc_posix_scheme \<Rightarrow> connection_spec \<Rightarrow> 'w remote_tunnel \<Rightarrow>
     (connection_spec \<times> 'w remote_tunnel) res" where
  "start_socks5 os spec s =
     (if m_socks5_server s \<noteq> None then Inl (MyException ''should the only one socks5 connection'')
      else
        let spec = spec\<lparr>m_connect_host := ''localhost''\<rparr>;
            s = on_world (sys_signal_ignore os ''SIGPIPE'') s
        in case syscall (server_setup os (m_connect_host spec) (to_short (m_connect_port spec))) s of
             ((ret, f), s) \<Rightarrow>
               if ret \<noteq> 0 then Inl (MyException ''failed to starup socks5 server'')
               else
                 (case f of
                    None \<Rightarrow> Inl (Undefined NullPointer)
                  | Some f \<Rightarrow>
                      let s = s\<lparr>m_socks5_server := Some (Socks5Server_new\<lparr>srv_fd := f\<rparr>)\<rparr>
                      in case syscall (sys_nonblock os f) s of
                           (Inl e, s) \<Rightarrow> Inl (MyExceptionErrno e)
                         | (Inr _, s) \<Rightarrow>
                             (case syscall (sys_getsockname os f) s of
                                (Inl e, s) \<Rightarrow> Inl (MyException ''failed to get socks5 server port'')
                              | (Inr port, s) \<Rightarrow>
                                  bindE (Poller_addPolled
                                      (\<lambda>_ ps s. case m_socks5_server s of
                                         None \<Rightarrow> Inl (Undefined NullPointer)
                                       | Some v \<Rightarrow> Inr (Socks5Server_setPollfd v ps, s)) P_Socks5 s)
                                    (\<lambda>s. Inr (spec\<lparr>m_connect_port := uint port\<rparr>, s)))))"

text \<open>One line of the connection table.\<close>

definition receive_connection :: "('w, 'o) proc_posix_scheme \<Rightarrow> 'w remote_op" where
  "receive_connection os s =
     bindE (get_short s) (\<lambda>(i, s).
     bindE (reading ConnectionSpec_deserialize s) (\<lambda>(spec, s).
     bindE (if ConnectionSpec_isSocks5 spec then start_socks5 os spec s else Inr (spec, s)) (\<lambda>(spec, s).
     bindE (TunnelConnection_CreateConnection os spec False (of_short i) s) (\<lambda>(pConn, s).
       Inr (case pConn of None \<Rightarrow> s | Some c \<Rightarrow> assign_connection (of_short i) c s)))))"

definition StdioTunnelRemote_handshake :: "('w, 'o) proc_posix_scheme \<Rightarrow> c_int \<Rightarrow> 'w remote_op" where
  "StdioTunnelRemote_handshake os command s =
     (if command \<noteq> CMD_CREATE then Inl (MyException ''Unexpected handshake command'')
      else bindE (get_short s) (\<lambda>(count, s).
           bindE (iterE (nat (of_short count)) (receive_connection os) s) (\<lambda>s.
             CustomWriteStream_send (put_short CMD_CREATE (s\<lparr>r_state := R_CONNECTED\<rparr>)))))"

section \<open>Polling\<close>

definition StdioTunnelRemote_message :: "('w, 'o) proc_posix_scheme \<Rightarrow> 'w remote_op" where
  "StdioTunnelRemote_message os s =
     bindE (get_short s) (\<lambda>(command, s).
       case r_state s of
         R_HANDSHAKING \<Rightarrow> StdioTunnelRemote_handshake os (of_short command) s
       | R_CONNECTED \<Rightarrow>
           if of_short command = CMD_SHUTDOWN then
             Inr ((Poller_requestFinish s)\<lparr>m_closed_by_request := True\<rparr>)
           else if of_short command \<noteq> CMD_CONNECTION then
             Inl (MyException (''Unexpected command: '' @ show_int (of_short command)))
           else bindE (get_short s) (\<lambda>(i, s).
                  forward_message os StdioTunnelRemote_reportError (of_short i) s)
       | _ \<Rightarrow> Inr s)"

definition StdioTunnelRemote_polled ::
  "('w, 'o) proc_posix_scheme \<Rightarrow> nat \<Rightarrow> 'w remote_op" where
  "StdioTunnelRemote_polled os pa s =
     bindE (Poller_deref pa s) (\<lambda>ps.
     bindE
       (if fd ps = STDIN_FD
        then if flag (POLLHUP OR POLLNVAL OR POLLERR) (revents ps) then Inl (MyException ''Stdin closed'')
             else if \<not> flag POLLIN (revents ps) then Inl (MyException ''Bad poll'')
             else bindE (fill_reader os ps s) (\<lambda>s.
                    if ReadStream_available (m_read_stream s) then StdioTunnelRemote_message os s else Inr s)
        else Inr s) (\<lambda>s.
     bindE (Poller_deref pa s) (\<lambda>ps.
       if fd ps = STDOUT_FD
       then if flag (POLLIN OR POLLHUP OR POLLERR OR POLLNVAL) (revents ps)
            then Inr (Poller_requestFinish (s\<lparr>r_state := R_SHUT_DOWN\<rparr>))
            else bindE (empty_writer os pa ps s) (\<lambda>s.
                   Inr (if \<not> WriteStream_pendingWrite (m_write_stream s)
                        then Poller_setEvents P_Tunnel STDOUT_FD 0 s else s))
       else Inr s)))"

text \<open>The virtual functions of everything registered with the remote side's poller.\<close>

definition remote_polled ::
  "('w, 'o) proc_posix_scheme \<Rightarrow> polled_ref \<Rightarrow> nat \<Rightarrow> 'w remote_op" where
  "remote_polled os p pa s =
     (case p of
        P_Tunnel \<Rightarrow> StdioTunnelRemote_polled os pa s
      | P_Listen c \<Rightarrow> ListenSide_polled os c s
      | P_Link a \<Rightarrow> ConnectionLink_polled os a pa s
      | P_Socks5 \<Rightarrow>
          (case m_socks5_server s of
             None \<Rightarrow> Inl (Undefined NullPointer)
           | Some v \<Rightarrow>
               bindE (Socks5Server_polled os v (world s)) (\<lambda>(v, w).
                 Inr (s\<lparr>m_socks5_server := Some v, world := w\<rparr>))))"

definition StdioTunnelRemote_start :: "nat \<Rightarrow> ('w, 'o) proc_posix_scheme \<Rightarrow> 'w remote_op" where
  "StdioTunnelRemote_start rounds os s =
     (case syscall (sys_write os STDOUT_FD (map byte_of_char m_magic_string)) s of
        (Inl e, s) \<Rightarrow> Inl (MyExceptionErrno e)
      | (Inr k, s) \<Rightarrow>
          if k \<noteq> length m_magic_string then Inl (MyExceptionErrno STALE_ERRNO)
          else bindE (all_nonblocking os [STDIN_FD, STDOUT_FD] s) (\<lambda>s.
                 let s = s\<lparr>m_writer_attached := True, m_writer_fd := STDOUT_FD\<rparr>;
                     add = Poller_addPolled (\<lambda>_. StdioTunnelRemote_setPollfd) P_Tunnel
                 in bindE (iterE 2 add s)
                      (Poller_start rounds os (remote_polled os) (StdioTunnel_pollCallback os)
                         (tunnel_cleanup os))))"

end
