(* ===== verification/Remote_Safety.thy ===== *)
theory Remote_Safety
  imports Tunnel_Streams Tunnel_Remote
begin

text \<open>
  The remote side as a program on the event loop: an invariant every handler keeps, whatever the
  other side sends and whatever the sockets do, and its consequences for whole runs of the loop.
\<close>

section \<open>The handlers of the remote side\<close>

text \<open>
  The writer is attached to standard output, which stays registered; while a packet waits, the
  poller watches for a chance to write it; both streams are in order.
\<close>

definition remote_inv :: "'w remote_tunnel \<Rightarrow> bool" where
  "remote_inv s \<longleftrightarrow> attached s \<and> awake s \<and> m_writer_fd s = STDOUT_FD \<and>
     ws_inv (m_write_stream s) \<and> rs_inv (m_read_stream s)"

lemma remote_inv_core: "remote_inv s \<Longrightarrow> tun_core s t \<Longrightarrow> remote_inv t"
  using tun_core_attached [of s t] by (auto simp: remote_inv_def tun_core_def)

lemma reportError_ok: "frame_ok s (StdioTunnelRemote_reportError m s)"
  unfolding StdioTunnelRemote_reportError_def
  by (rule frame_ok_trans [OF tun_rel_trans [OF tun_rel_put(6) tun_rel_put(9)] tun_rel_send])

lemma deserialize_ok: "res_ok tame (\<lambda>(_, t). tun_rel s t) (reading ConnectionSpec_deserialize s)"
proof (rule reading_ok)
  have "tame e" if "ReadStream_readShort r = Inl e" for r e
    using that by (auto simp: ReadStream_readShort_def split: list.splits)
  moreover have "tame e" if "ReadStream_readString r = Inl e" for r e
    using that by (auto simp: ReadStream_readString_def ReadStream_readLong_def exn_simps split: list.splits if_splits)
  ultimately show "tame e" if "ConnectionSpec_deserialize r = Inl e" for r e
    using that unfolding ConnectionSpec_deserialize_def by (auto simp: bindE_eq_Inl)
  have sh: "rs_inv r'" if "ReadStream_readShort r = Inr (x, r')" "rs_inv r" for r x r'
    using that by (auto simp: ReadStream_readShort_def rs_inv_def split: list.splits)
  have st: "rs_inv r'" if "ReadStream_readString r = Inr (x, r')" "rs_inv r" for r x r'
    using that by (auto simp: ReadStream_readString_def ReadStream_readLong_def exn_simps rs_inv_def
        split: list.splits if_splits)
  show "rs_inv r'" if "ConnectionSpec_deserialize r = Inr (x, r')" "rs_inv r" for r x r'
    using that unfolding ConnectionSpec_deserialize_def by (auto simp: bindE_eq_Inr dest!: sh st)
qed

lemma start_socks5_ok: "res_ok tame (\<lambda>(_, t). tun_core s t) (start_socks5 os spec s)"
proof -
  have same: "tun_core u (u\<lparr>m_socks5_server := v\<rparr>)" for u :: "'a remote_tunnel" and v
    by (rule tun_core_same) simp_all
  have add: "res_ok tame (\<lambda>(_, t). tun_core s t) (bindE (Poller_addPolled
      (\<lambda>_ ps s. case m_socks5_server s of None \<Rightarrow> Inl (Undefined NullPointer)
        | Some v \<Rightarrow> Inr (Socks5Server_setPollfd v ps, s)) P_Socks5 u) (\<lambda>s. Inr (sp, s)))"
    if "tun_core s u" for u sp
    by (rule core_bind [OF that frame_core [OF tun_rel_addPolled]]) (auto split: option.splits)
  show ?thesis
    unfolding start_socks5_def Let_def
    by (intro res_ok_if core_syscall_pairE [where s = s] res_ok_prod res_ok_option res_ok_sum add)
      (auto intro: tun_core_trans [OF _ same] tun_rel_core)
qed

lemma open_connection_ok:
  assumes "tun_core s u"
  shows "core_ok s (bindE (if ConnectionSpec_isSocks5 sp then start_socks5 os sp u else Inr (sp, u))
      (\<lambda>(spec, s). bindE (TunnelConnection_CreateConnection os spec False i s)
        (\<lambda>(pConn, s). Inr (case pConn of None \<Rightarrow> s | Some c \<Rightarrow> assign_connection i c s))))"
proof -
  have 1: "res_ok tame (\<lambda>(_, t). tun_core u t)
      (if ConnectionSpec_isSocks5 sp then start_socks5 os sp u else Inr (sp, u))"
    by (simp add: start_socks5_ok)
  show ?thesis
    by (rule core_bind_pair [OF assms 1], simp, erule core_bind_pair [OF _ frame_core_pair [OF CreateConnection_ok]])
      (auto intro: tun_core_trans [OF _ tun_rel_core [OF assign_connection_ok]] split: option.splits)
qed

lemma receive_connection_ok: "core_ok s (receive_connection os s)"
  unfolding receive_connection_def
  by (rule core_bind_pair [OF tun_core_refl frame_core_pair [OF get_short_ok]], simp only: prod.case,
      erule core_bind_pair [OF _ frame_core_pair [OF deserialize_ok]], simp only: prod.case, erule open_connection_ok)

lemma send_core: "tun_core s t \<Longrightarrow> core_ok s (CustomWriteStream_send (put_short x t))"
  by (rule core_ok_trans [OF _ frame_core [OF frame_ok_trans [OF tun_rel_put(6) tun_rel_send]]])

lemma handshake_ok: "core_ok s (StdioTunnelRemote_handshake os cmd s)"
  unfolding StdioTunnelRemote_handshake_def
proof (intro res_ok_if, simp, rule core_bind_pair [OF tun_core_refl frame_core_pair [OF get_short_ok]], simp)
  fix n u
  assume u: "tun_core s u"
  have it: "core_ok s (iterE n (receive_connection os) u)" for n
    by (rule res_ok_iterE [where Q = "tun_core s", OF _ u]) (rule core_ok_trans [OF _ receive_connection_ok])
  have "tun_core v (v\<lparr>r_state := x\<rparr>)" for v :: "'a remote_tunnel" and x
    by (rule tun_core_same) simp_all
  then show "core_ok s (bindE (iterE (nat (of_short n)) (receive_connection os) u)
      (\<lambda>s. CustomWriteStream_send (put_short CMD_CREATE (s\<lparr>r_state := R_CONNECTED\<rparr>))))"
    by (intro res_ok_bind [OF it] send_core) (blast intro: tun_core_trans)
qed

lemma remote_message_ok: "core_ok s (StdioTunnelRemote_message os s)"
proof -
  have fin: "tun_core u ((Poller_requestFinish u)\<lparr>m_closed_by_request := True\<rparr>)" for u :: "'a remote_tunnel"
    by (rule tun_core_same) (simp_all add: Poller_requestFinish_def)
  have fwd: "core_ok s (bindE (get_short u) (\<lambda>(i, s). forward_message os StdioTunnelRemote_reportError (of_short i) s))"
    if "tun_core s u" for u
    by (rule core_bind_pair [OF that frame_core_pair [OF get_short_ok]])
      (auto intro: core_ok_trans [OF _ frame_core [OF forward_message_ok [OF reportError_ok]]])
  show ?thesis
    unfolding StdioTunnelRemote_message_def
    by (rule core_bind_pair [OF tun_core_refl frame_core_pair [OF get_short_ok]])
      (auto split: remote_state.splits intro: fwd core_ok_trans [OF _ handshake_ok] tun_core_trans [OF _ fin])
qed

lemma remote_requestFinish_ok: "tun_core s (Poller_requestFinish (s\<lparr>r_state := x\<rparr>))"
  by (rule tun_core_same) (simp_all add: Poller_requestFinish_def)

text \<open>Standard output: after \<open>empty\<close>, the request for \<open>POLLOUT\<close> is dropped only when nothing waits.\<close>

lemma drained_inv:
  assumes "remote_inv s" "drained s t"
  defines "u \<equiv> if \<not> WriteStream_pendingWrite (m_write_stream t) then Poller_setEvents P_Tunnel STDOUT_FD 0 t else t"
  shows "remote_inv u \<and> poller_steps s u"
proof -
  have steps: "poller_steps s u"
    using assms(2) setEvents_step [of t P_Tunnel STDOUT_FD 0]
    by (auto simp: u_def drained_def intro: rtranclp.rtrancl_into_rtrancl)
  have "keys u = keys s"
    using assms(2) by (simp add: u_def drained_def)
  then have "attached u"
    using assms by (auto simp: u_def remote_inv_def drained_def attached_def poller_map_None)
  moreover have "awake u"
  proof (cases "WriteStream_pendingWrite (m_write_stream t)")
    case True
    then have "poller_map t = poller_map s"
      using assms(2) by (simp add: drained_def poller_map_def fun_eq_iff)
    with True show ?thesis
      using assms by (auto simp: u_def remote_inv_def drained_def awake_def wants_out_def)
  qed (simp add: u_def awake_def wants_out_def)
  ultimately show ?thesis
    using assms steps by (simp add: u_def remote_inv_def drained_def)
qed

lemma stdin_part_ok:
  assumes "posix_read os STDIN_FD inp" "fd ps = STDIN_FD"
  shows "core_ok s (if flag (POLLHUP OR POLLNVAL OR POLLERR) (revents ps) then Inl (MyException ''Stdin closed'')
     else if \<not> flag POLLIN (revents ps) then Inl (MyException ''Bad poll'')
     else bindE (fill_reader os ps s) (\<lambda>s.
            if ReadStream_available (m_read_stream s) then StdioTunnelRemote_message os s else Inr s))"
proof -
  have "posix_read os (fd ps) inp"
    using assms by simp
  from frame_core [OF fill_reader_ok [OF this]] show ?thesis
    by (intro res_ok_if res_ok_bind [of tame "tun_core s"])
      (auto intro: core_ok_trans [OF _ remote_message_ok])
qed

lemma remote_tunnel_polled_ok:
  assumes "posix_read os STDIN_FD inp" "posix_write os STDOUT_FD out"
    and "remote_inv s" "table_ok s" "has_entry pa P_Tunnel s"
  shows "res_ok tame (\<lambda>t. remote_inv t \<and> poller_steps s t) (StdioTunnelRemote_polled os pa s)"
proof -
  have "pa \<in> set (addrs s)"
    using assms(5) by (auto simp: has_entry_def addrs_def)
  then obtain ps where ps: "Poller_deref pa s = Inr ps"
    using deref_defined by blast
  let ?out = "\<lambda>s. bindE (Poller_deref pa s) (\<lambda>ps.
       if fd ps = STDOUT_FD
       then if flag (POLLIN OR POLLHUP OR POLLERR OR POLLNVAL) (revents ps)
            then Inr (Poller_requestFinish (s\<lparr>r_state := R_SHUT_DOWN\<rparr>))
            else bindE (empty_writer os pa ps s) (\<lambda>s.
                   Inr (if \<not> WriteStream_pendingWrite (m_write_stream s)
                        then Poller_setEvents P_Tunnel STDOUT_FD 0 s else s))
       else Inr s)"
  have rel: "remote_inv t \<and> poller_steps s t" if "tun_core s t" for t
    using remote_inv_core [OF assms(3) that] that by (simp add: tun_core_def)
  show ?thesis
  proof (cases "fd ps = STDIN_FD")
    case True
    have next_part: "res_ok tame (\<lambda>t. remote_inv t \<and> poller_steps s t) (?out t)" if t: "tun_core s t" for t
    proof -
      obtain ps' where "Poller_deref pa t = Inr ps'" "fd ps' = fd ps"
        using own_entry_kept [OF t assms(4) tun_core_table_ok [OF t assms(4)] ps assms(5)] by blast
      then show ?thesis
        using True rel [OF t] by (simp add: STDIN_FD_def STDOUT_FD_def)
    qed
    show ?thesis
      unfolding StdioTunnelRemote_polled_def
      by (simp only: ps bindE_Inr True refl if_True, rule res_ok_bind [OF stdin_part_ok [OF assms(1) True]],
          rule next_part)
  next
    case False
    show ?thesis
    proof (cases "fd ps = STDOUT_FD \<and> \<not> flag (POLLIN OR POLLHUP OR POLLERR OR POLLNVAL) (revents ps)")
      case True
      have "res_ok tame (drained s) (empty_writer os pa ps s)"
        using assms True ps by (intro empty_writer_ok) (auto simp: remote_inv_def)
      then have "res_ok tame (\<lambda>t. remote_inv t \<and> poller_steps s t) (bindE (empty_writer os pa ps s) (\<lambda>s.
          Inr (if \<not> WriteStream_pendingWrite (m_write_stream s) then Poller_setEvents P_Tunnel STDOUT_FD 0 s else s)))"
        by (rule res_ok_bind) (use drained_inv [OF assms(3)] in simp)
      then show ?thesis
        using True False by (simp add: StdioTunnelRemote_polled_def ps)
    next
      case 2: False
      then show ?thesis
        using False rel [OF remote_requestFinish_ok] rel [OF tun_core_refl]
        by (auto simp: StdioTunnelRemote_polled_def ps)
    qed
  qed
qed

lemma collect_tame: "Socks5Server_collect_from os i v w = Inl e \<Longrightarrow> tame e"
  by (induction os i v w rule: Socks5Server_collect_from.induct)
    (subst (asm) (2) Socks5Server_collect_from.simps, auto split: if_splits option.splits)

lemma socks5_polled_tame: "Socks5Server_polled os v w = Inl e \<Longrightarrow> tame e"
proof (rule res_ok_InlD [where P = "\<lambda>_. True"])
  show "res_ok tame (\<lambda>_. True) (Socks5Server_polled os v w)"
    unfolding Socks5Server_polled_def Socks5Server_collect_def bool.case_eq_if
    by (rule res_ok_bind_value, erule collect_tame) (intro ok_rules; simp)
qed

lemma remote_polled_ok:
  assumes "posix_read os STDIN_FD inp" "posix_write os STDOUT_FD out"
    and "remote_inv s" "table_ok s" "has_entry pa p s"
  shows "res_ok tame (\<lambda>t. remote_inv t \<and> poller_steps s t) (remote_polled os p pa s)"
proof -
  have core: "res_ok tame (\<lambda>t. remote_inv t \<and> poller_steps s t) r" if "core_ok s r" for r
    by (rule res_ok_mono [OF that]) (use remote_inv_core [OF assms(3)] in \<open>auto simp: tun_core_def\<close>)
  have pa: "pa \<in> set (addrs s)"
    using assms(5) by (auto simp: has_entry_def addrs_def)
  show ?thesis
  proof (cases p)
    case P_Tunnel
    then show ?thesis
      using remote_tunnel_polled_ok [OF assms(1-4)] assms(5) by (simp add: remote_polled_def)
  next
    case P_Socks5
    have "tun_core s (s\<lparr>m_socks5_server := v, world := w\<rparr>)" for v w
      by (rule tun_core_same) simp_all
    then have "core_ok s (remote_polled os p pa s)"
      using P_Socks5
      by (auto simp: remote_polled_def intro!: res_ok_bind_value intro: socks5_polled_tame split: option.splits)
    then show ?thesis by (rule core)
  qed (use pa in \<open>auto simp: remote_polled_def intro!: core frame_core intro: ListenSide_polled_ok ConnectionLink_polled_ok\<close>)
qed

text \<open>Standard input and output behave as byte streams.\<close>

definition stdio_ok :: "('w, 'o) posix_scheme \<Rightarrow> bool" where
  "stdio_ok os \<longleftrightarrow> (\<exists>inp. posix_read os STDIN_FD inp) \<and> (\<exists>out. posix_write os STDOUT_FD out)"

lemma remote_inv_table:
  assumes "remote_inv s" "map requests es = map requests (m_polled s)"
  shows "remote_inv (s\<lparr>m_orig_size := n, m_pollfds_size := z, world := w, m_index := i, m_polled := es\<rparr>)"
  using assms entry_map_requests [OF assms(2)]
  by (auto simp: remote_inv_def attached_def awake_def wants_out_def poller_map_def)

interpretation rp: event_program "remote_polled os" "\<lambda>s. stdio_ok os \<and> remote_inv s" tame for os
  by unfold_locales
    (auto simp: stdio_ok_def remote_inv_table elim!: res_ok_mono [OF remote_polled_ok])

section \<open>Starting up\<close>

text \<open>The two registrations of \<open>start\<close>.\<close>

lemma remote_registered:
  assumes "m_polled s = []" "r_state s = R_INITIAL" "m_write_stream s = WriteStream_new"
    "m_read_stream s = ReadStream_new"
  shows "res_ok tame (\<lambda>t. remote_inv t \<and> table_ok t)
    (iterE 2 (Poller_addPolled (\<lambda>_. StdioTunnelRemote_setPollfd) P_Tunnel)
       (s\<lparr>m_writer_attached := True, m_writer_fd := STDOUT_FD\<rparr>))"
  using assms ws_inv_new rs_inv_new
  by (simp add: numeral_2_eq_2 Poller_addPolled_def StdioTunnelRemote_setPollfd_def remote_inv_def attached_def
      awake_def wants_out_def poller_map_def table_ok_def addrs_def STDIN_FD_def STDOUT_FD_def WriteStream_new_def
      WriteStream_pendingWrite_def)

lemma remote_cleanup_ok:
  assumes "remote_inv s" "table_ok s"
  shows "res_ok tame (\<lambda>t. remote_inv t \<and> table_ok t) (tunnel_cleanup os p ps s)"
  by (rule res_ok_mono [OF frame_core [OF cleanup_ok]]) (use assms remote_inv_core tun_core_table_ok in blast)+

lemma callback_ok:
  "remote_inv s \<Longrightarrow> remote_inv (StdioTunnel_pollCallback os s)"
  "table_ok t \<Longrightarrow> table_ok (StdioTunnel_pollCallback os t)"
  by (auto simp: StdioTunnel_pollCallback_def Poller_requestFinish_def table_ok_def addrs_def remote_inv_def
      attached_def awake_def wants_out_def poller_map_def)

section \<open>Properties\<close>

text \<open>C8: The remote side, started on any system whose standard streams behave as byte streams, runs
  any number of rounds without ever using a reference to an entry that has been erased, whatever
  the local side sends and whatever the sockets do; and at the end of every run a packet that still
  waits has \<open>POLLOUT\<close> requested for it. The only other way a run of the model stops is its
  bound on the rounds.\<close>

theorem remote_start_safe:
  assumes "posix_poll os" "stdio_ok os"
    and "s = StdioTunnelRemote_new (StdioTunnel_new os junk junk_termios j1 j2 w)"
  shows "case StdioTunnelRemote_start rounds os s of
      Inl e \<Rightarrow> e \<noteq> Undefined DanglingPollfd
    | Inr t \<Rightarrow> WriteStream_pendingWrite (m_write_stream t) \<longrightarrow>
        (\<exists>ev. poller_map t (P_Tunnel, STDOUT_FD) = Some ev \<and> flag POLLOUT ev)"
proof -
  let ?E = "\<lambda>e. tame e \<or> e = OutOfFuel"
  let ?I = "\<lambda>s. stdio_ok os \<and> remote_inv s"
  let ?add = "Poller_addPolled (\<lambda>_. StdioTunnelRemote_setPollfd) P_Tunnel"
  have start: "res_ok ?E (\<lambda>t. ?I t \<and> table_ok t)
      (Poller_start rounds os (remote_polled os) (StdioTunnel_pollCallback os) (tunnel_cleanup os) t)"
    if "remote_inv t \<and> table_ok t" for t
    using that assms(2) callback_ok
    by (intro rp.start_ok [OF assms(1)]) (auto intro: res_ok_mono [OF remote_cleanup_ok])
  have rest: "res_ok ?E (\<lambda>t. ?I t \<and> table_ok t) (bindE (all_nonblocking os [STDIN_FD, STDOUT_FD] (s\<lparr>world := v\<rparr>)) (\<lambda>s.
      bindE (iterE 2 ?add (s\<lparr>m_writer_attached := True, m_writer_fd := STDOUT_FD\<rparr>))
        (Poller_start rounds os (remote_polled os) (StdioTunnel_pollCallback os) (tunnel_cleanup os))))" for v
  proof (rule res_ok_bind [OF res_ok_mono [OF all_nonblocking_ok]])
    fix t
    assume "\<exists>w. t = s\<lparr>world := v, world := w\<rparr>"
    then have "m_polled t = []" "r_state t = R_INITIAL" "m_write_stream t = WriteStream_new"
      "m_read_stream t = ReadStream_new"
      by (auto simp: assms(3) StdioTunnelRemote_new_def StdioTunnel_new_def Let_def tunnel.extend_def
          poller.extend_def Poller_new_def split: prod.splits)
    from res_ok_mono [OF remote_registered [OF this], where F = ?E]
    show "res_ok ?E (\<lambda>t. ?I t \<and> table_ok t) (bindE (iterE 2 ?add (t\<lparr>m_writer_attached := True, m_writer_fd := STDOUT_FD\<rparr>))
        (Poller_start rounds os (remote_polled os) (StdioTunnel_pollCallback os) (tunnel_cleanup os)))"
      by (rule res_ok_bind [OF _ start]) blast+
  qed auto
  have "res_ok ?E (\<lambda>t. ?I t \<and> table_ok t) (StdioTunnelRemote_start rounds os s)"
    unfolding StdioTunnelRemote_start_def Let_def syscall_def
    by (cases "sys_write os STDOUT_FD (map byte_of_char m_magic_string) (world s)")
      (auto intro!: rest [unfolded conj_assoc] res_ok_sum simp del: all_nonblocking.simps)
  then show ?thesis
    by (auto simp: res_ok_def tame_def remote_inv_def awake_def wants_out_def split: sum.splits)
qed

definition demo_termios :: termios where
  "demo_termios = \<lparr>c_iflag = 0, c_oflag = 0, c_lflag = 0, c_cflag = 0\<rparr>"

lemma pipe_proc_stdio_ok: "stdio_ok (pipe_proc q)"
  unfolding stdio_ok_def using pipe_proc_spec(1,2) by blast

theorem remote_start_safe_witness:
  "case StdioTunnelRemote_start 3 (pipe_proc 40)
      (StdioTunnelRemote_new (StdioTunnel_new (pipe_proc 40) False demo_termios 0 0 (demo_world [0, 0]))) of
      Inl e \<Rightarrow> e = MyException ''End of file in ReadStream::fill'' \<and> e \<noteq> Undefined DanglingPollfd
    | Inr t \<Rightarrow> False"
proof -
  let ?r = "StdioTunnelRemote_start 3 (pipe_proc 40)
      (StdioTunnelRemote_new (StdioTunnel_new (pipe_proc 40) False demo_termios 0 0 (demo_world [0, 0])))"
  have "case ?r of Inl e \<Rightarrow> e = MyException ''End of file in ReadStream::fill'' | Inr t \<Rightarrow> False"
    by code_simp
  with remote_start_safe [OF pipe_proc_spec(3) pipe_proc_stdio_ok refl, of 3 40 False demo_termios 0 0 "demo_world [0, 0]"]
  show ?thesis
    by (simp split: sum.splits)
qed

end
