(* ===== verification/Cmdline.thy ===== *)
theory Cmdline
  imports Tunnel_Remote
begin

text \<open>
  The command line: \<open>StdioTunnel::CreateTunnel\<close>, \<open>StdioTunnelLocal::configure\<close> and
  \<open>main\<close> of \<open>stdio_tunnel/StdioTunnel.cpp\<close>. The arguments are the strings
  \<open>argv[1]\<close> up to \<open>argv[argc - 1]\<close>; the null pointer after them is the end of the list.
\<close>

section \<open>Which side\<close>

text \<open>\<open>arg[0] == '-' && arg[1] != '\0'\<close>\<close>

definition is_option :: "string \<Rightarrow> bool" where
  "is_option arg \<longleftrightarrow> string_at arg 0 = CHR ''-'' \<and> string_at arg 1 \<noteq> CHR 0x00"

record scan_result =
  sc_local :: bool
  sc_version :: bool
  sc_trace :: bool

text \<open>
  The option loop of \<open>CreateTunnel\<close>. An option with an argument of its own skips the next
  word when nothing is glued to it.
\<close>

function CreateTunnel_scan :: "string list \<Rightarrow> scan_result \<Rightarrow> scan_result res" where
  "CreateTunnel_scan [] r = Inr r"
| "CreateTunnel_scan (arg # rest) r =
     (if is_option arg
      then let c = string_at arg 1 in
        if c = CHR ''l'' then CreateTunnel_scan rest (r\<lparr>sc_local := True\<rparr>)
        else if c = CHR ''r'' then CreateTunnel_scan rest (r\<lparr>sc_local := False\<rparr>)
        else if c = CHR ''D'' then CreateTunnel_scan rest (r\<lparr>sc_trace := True\<rparr>)
        else if c = CHR ''V'' then CreateTunnel_scan rest (r\<lparr>sc_version := True\<rparr>)
        else if c \<in> {CHR ''L'', CHR ''R'', CHR ''p'', CHR ''c''}
        then CreateTunnel_scan (if string_at arg 2 = CHR 0x00 then tl rest else rest) r
        else if c = CHR ''-'' then Inr r
        else if c \<in> {CHR ''T'', CHR ''t'', CHR ''d'', CHR ''s''} then CreateTunnel_scan rest r
        else Inl (MyException ''Unknown option'')
      else Inr r)"
  by pat_completeness auto
termination
  by (relation "measure (\<lambda>(args, r). length args)") auto

section \<open>Configuration of the local side\<close>

text \<open>
  The loop of \<open>configure\<close>, with the count of socks specifications. It ends at the connection
  command, which is the rest of the arguments.
\<close>

function configure_loop ::
  "('w, 'o) proc_posix_scheme \<Rightarrow> string list \<Rightarrow> nat \<Rightarrow> 'w local_tunnel \<Rightarrow> (nat \<times> 'w local_tunnel) res" where
  "configure_loop os [] n s = Inr (n, s)"
| "configure_loop os (arg # rest) n s =
     (if is_option arg
      then
        let long_arg = (string_at arg 2 \<noteq> CHR 0x00 \<or> rest = []);
            value = (if long_arg then drop 2 arg else hd rest);
            rest' = (if long_arg then rest else tl rest);
            c = string_at arg 1
        in if c = CHR ''R'' then
             (case parseConnection LISTEN value of
                Inl e \<Rightarrow> Inl e
              | Inr sp \<Rightarrow> configure_loop os rest' n (s\<lparr>m_connection_specs := m_connection_specs s @ [sp]\<rparr>))
           else if c = CHR ''L'' then
             (case parseConnection CONNECT value of
                Inl e \<Rightarrow> Inl e
              | Inr sp \<Rightarrow>
                  let s = s\<lparr>m_connection_specs := m_connection_specs s @ [sp]\<rparr>;
                      n = (if ConnectionSpec_isSocks5 sp then n + 1 else n)
                  in if m_silent s
                     then (case ConnectionSpec_bindStatus os sp (world s) of
                             (trybind, err, w) \<Rightarrow>
                               if trybind < 0
                               then Inl (MyExceptionErrno (case err of None \<Rightarrow> STALE_ERRNO | Some e \<Rightarrow> e))
                               else if trybind = 1 then Inl (CStringExn ''Already run in background.'')
                               else configure_loop os rest' n (s\<lparr>world := w\<rparr>))
                     else configure_loop os rest' n s)
           else if c = CHR ''T'' then configure_loop os rest n (s\<lparr>m_force_pipe := True\<rparr>)
           else if c = CHR ''t'' then configure_loop os rest n (s\<lparr>m_expects_pipe := True\<rparr>)
           else if c = CHR ''d'' then configure_loop os rest n (s\<lparr>m_daemon := True\<rparr>)
           else if c = CHR ''s'' then configure_loop os rest n (s\<lparr>m_silent := True\<rparr>)
           else if c = CHR ''p'' then
             configure_loop os rest' n
               (s\<lparr>m_read_buffer := MagicStringDetector_setLoginPattern value (m_read_buffer s)\<rparr>)
           else if c = CHR ''c'' then
             configure_loop os rest' n
               (s\<lparr>m_read_buffer := MagicStringDetector_setRemoteCmd value (m_read_buffer s)\<rparr>)
           else if c = CHR ''-'' then Inr (n, s\<lparr>m_command := Some rest\<rparr>)
           else configure_loop os rest n s
      else Inr (n, s\<lparr>m_command := Some (arg # rest)\<rparr>))"
  by pat_completeness auto
termination
  by (relation "measure (\<lambda>(os, args, n, s). length args)") auto

declare configure_loop.simps(2) [simp del]

definition StdioTunnelLocal_configure ::
  "('w, 'o) proc_posix_scheme \<Rightarrow> string list \<Rightarrow> 'w local_op" where
  "StdioTunnelLocal_configure os args s =
     bindE (configure_loop os args 0 s) (\<lambda>(socks5_spec_count, s).
       if length (m_connection_specs s) = 0 then Inl (MyException ''No connections defined'')
       else if m_command s = None \<or> m_command s = Some []
       then Inl (MyException ''No connection command defined'')
       else if 1 < socks5_spec_count then Inl (MyException ''at most one socks 5 connection spec'')
       else Inr s)"

text \<open>\<open>StdioTunnel::configure\<close>, which the remote side inherits, does nothing.\<close>

datatype 'w any_tunnel = AnyLocal "'w local_tunnel" | AnyRemote "'w remote_tunnel"

text \<open>\<open>base\<close> is the constructed base object; \<open>CreateTunnel\<close> chooses and configures the side.\<close>

definition StdioTunnel_CreateTunnel ::
  "('w, 'o) proc_posix_scheme \<Rightarrow> string list \<Rightarrow> 'w tunnel \<Rightarrow> 'w any_tunnel res" where
  "StdioTunnel_CreateTunnel os args base =
     bindE (CreateTunnel_scan args \<lparr>sc_local = True, sc_version = False, sc_trace = False\<rparr>) (\<lambda>r.
       if sc_version r \<and> length args = 1 then Inl (CStringExn [])
       else if sc_local r
       then bindE (StdioTunnelLocal_configure os args (StdioTunnelLocal_new base)) (\<lambda>t. Inr (AnyLocal t))
       else Inr (AnyRemote (StdioTunnelRemote_new base)))"

section \<open>The program\<close>

text \<open>The \<open>catch\<close> clauses of \<open>main\<close>: what a thrown value gives as exit code.\<close>

definition main_catch :: "exn \<Rightarrow> c_int res" where
  "main_catch e =
     (case e of
        CStringExn _ \<Rightarrow> Inr 0
      | MyException _ \<Rightarrow> Inr 1
      | MyExceptionErrno _ \<Rightarrow> Inr 1
      | ExitProcess code \<Rightarrow> Inr code
      | _ \<Rightarrow> Inl e)"

text \<open>A \<open>MyException\<close> out of \<open>CreateTunnel\<close> prints the usage and becomes an empty C string.\<close>

definition usage_catch :: "exn \<Rightarrow> exn" where
  "usage_catch e =
     (case e of MyException _ \<Rightarrow> CStringExn [] | MyExceptionErrno _ \<Rightarrow> CStringExn [] | _ \<Rightarrow> e)"

definition tunnel_startFinish ::
  "nat \<Rightarrow> nat \<Rightarrow> ('w, 'o) proc_posix_scheme \<Rightarrow> 'w any_tunnel \<Rightarrow> 'w any_tunnel res" where
  "tunnel_startFinish fuel rounds os t =
     (case t of
        AnyLocal s \<Rightarrow>
          bindE (StdioTunnel_startFinish os (StdioTunnelLocal_start fuel rounds os) (local_polled fuel os) s)
            (\<lambda>s. Inr (AnyLocal s))
      | AnyRemote s \<Rightarrow>
          bindE (StdioTunnel_startFinish os (StdioTunnelRemote_start rounds os) (remote_polled os) s)
            (\<lambda>s. Inr (AnyRemote s)))"

definition main_program ::
  "nat \<Rightarrow> nat \<Rightarrow> ('w, 'o) proc_posix_scheme \<Rightarrow> string list \<Rightarrow> 'w tunnel \<Rightarrow> c_int res" where
  "main_program fuel rounds os args base =
     (case StdioTunnel_CreateTunnel os args base of
        Inl e \<Rightarrow> main_catch (usage_catch e)
      | Inr t \<Rightarrow>
          (case tunnel_startFinish fuel rounds os t of
             Inl e \<Rightarrow> main_catch e
           | Inr _ \<Rightarrow> Inr 0))"

section \<open>What \<open>main\<close> prints\<close>

text \<open>The usage, with the line end of standard error.\<close>

definition usage_text :: "string \<Rightarrow> string" where
  "usage_text endl =
     endl @ ''Usage: StdioTunnel [-D] [-l] [-d] [-s] [-T|-t] <-L|-R <connection spec>>... [-p login-pattern] ''
     @ ''[-c remote-cmd] connection-command [args...]'' @ endl @ endl
     @ ''or (on the remote side)'' @ endl @ endl @ ''StdioTunnel [-D] -r'' @ endl @ endl
     @ ''or (print version)'' @ endl @ endl @ ''StdioTunnel -V'' @ endl @ endl
     @ ''where connection_spec = <listen port>:<connect host>:<connect port>[:ap]'' @ endl
     @ ''a remote socks 5 connection_spec is write as -l -L <listen port>::0'' @ endl"

text \<open>
  What the \<open>catch\<close> clauses print: a C string if there is one, and what an exception says of itself,
  which is the argument \<open>what\<close>.
\<close>

definition main_prints :: "string \<Rightarrow> (exn \<Rightarrow> string) \<Rightarrow> exn \<Rightarrow> string" where
  "main_prints endl what e =
     (case e of
        CStringExn s \<Rightarrow> (if s = [] then [] else s @ endl)
      | MyException _ \<Rightarrow> what e @ endl
      | MyExceptionErrno _ \<Rightarrow> what e @ endl
      | _ \<Rightarrow> [])"

definition usage_prints :: "string \<Rightarrow> exn \<Rightarrow> string" where
  "usage_prints endl e =
     (case e of MyException _ \<Rightarrow> usage_text endl | MyExceptionErrno _ \<Rightarrow> usage_text endl | _ \<Rightarrow> [])"

text \<open>\<open>main\<close> with what it prints itself; a process that is replaced or undefined prints nothing here.\<close>

definition main_report ::
  "string \<Rightarrow> (exn \<Rightarrow> string) \<Rightarrow> nat \<Rightarrow> nat \<Rightarrow> ('w, 'o) proc_posix_scheme \<Rightarrow> string list \<Rightarrow> 'w tunnel \<Rightarrow> string \<times> c_int res" where
  "main_report endl what fuel rounds os args base =
     (case StdioTunnel_CreateTunnel os args base of
        Inl e \<Rightarrow> (usage_prints endl e @ main_prints endl what (usage_catch e), main_catch (usage_catch e))
      | Inr t \<Rightarrow>
          (case tunnel_startFinish fuel rounds os t of
             Inl e \<Rightarrow> (main_prints endl what e, main_catch e)
           | Inr _ \<Rightarrow> (''Normal exit'' @ endl, Inr 0)))"

section \<open>Signals\<close>

text \<open>
  The flag of the signal handler, beside the rest of the world. Such a world is an instance of the
  parameter \<open>'w\<close>, on which \<open>sys_signaled\<close> is \<open>g_signaled\<close>; the handler can run inside any system call.
\<close>

record 'w signaled_world =
  g_signaled :: bool
  process_world :: 'w

definition signalHandler :: "c_int \<Rightarrow> 'w signaled_world \<Rightarrow> 'w signaled_world" where
  "signalHandler sig w = w\<lparr>g_signaled := True\<rparr>"

end
