(* ===== verification/Local_Safety.thy ===== *)
theory Local_Safety
  imports Tunnel_Streams Cmdline
begin

text \<open>
  The local side as a program on the event loop: an invariant that every handler keeps, while the
  output of the connection command passes through, during the handshake that the announcement
  starts in the middle of a read, and once the tunnel is up.
\<close>

section \<open>The invariant\<close>

definition no_dangle :: "exn \<Rightarrow> bool" where
  "no_dangle e \<longleftrightarrow> e \<noteq> Undefined DanglingPollfd"

lemma tame_no_dangle: "tame e \<Longrightarrow> no_dangle e"
  by (simp add: tame_def no_dangle_def)

lemma no_dangle_simps [simp]:
  "no_dangle (MyException m)" "no_dangle (MyExceptionErrno e)" "no_dangle (CStringExn m)" "no_dangle OutOfFuel"
  "no_dangle (Undefined NullPointer)"
  by (simp_all add: no_dangle_def)

text \<open>What does not depend on the buffer between the command and standard output.\<close>

definition lbase :: "'w local_tunnel \<Rightarrow> bool" where
  "lbase s \<longleftrightarrow> attached s \<and> m_writer_fd s = m_write_fd s \<and>
     distinct [m_read_fd s, m_write_fd s, STDIN_FD, STDOUT_FD] \<and>
     ws_inv (m_write_stream s) \<and> rs_inv (m_read_stream s) \<and> sb_inv (m_write_buffer s)"

definition lcore :: "'w local_tunnel \<Rightarrow> bool" where
  "lcore s \<longleftrightarrow> lbase s \<and> l_state s \<in> {L_PASS_THROUGH, L_HAND_SHAKE, L_CONNECTED} \<and>
     (l_state s = L_PASS_THROUGH \<longrightarrow> poller_map s (P_Tunnel, STDOUT_FD) \<noteq> None \<and>
        (SockBuffer_unsentData (m_write_buffer s) \<longrightarrow> wants_out s (m_write_fd s))) \<and>
     (l_state s \<noteq> L_PASS_THROUGH \<longrightarrow> awake s)"

definition local_inv :: "'w local_tunnel \<Rightarrow> bool" where
  "local_inv s \<longleftrightarrow> lcore s \<and> sb_inv (md_buffer (m_read_buffer s)) \<and>
     (SockBuffer_unsentData (md_buffer (m_read_buffer s)) \<longrightarrow> wants_out s STDOUT_FD)"

text \<open>The entry at \<open>pa\<close> is the tunnel's, for descriptor \<open>f\<close>.\<close>

definition own :: "nat \<Rightarrow> c_int \<Rightarrow> 'w local_tunnel \<Rightarrow> bool" where
  "own pa f s \<longleftrightarrow> (\<exists>e \<in> set (m_polled s). e_addr e = pa \<and> e_polled e = P_Tunnel \<and> fd (e_pollfd e) = f)"

lemma own_deref:
  assumes "table_ok s" "own pa f s"
  shows "\<exists>ps. Poller_deref pa s = Inr ps \<and> fd ps = f"
proof -
  obtain e where e: "e \<in> set (m_polled s)" "e_addr e = pa" "fd (e_pollfd e) = f"
    using assms(2) by (auto simp: own_def)
  then obtain ps where ps: "Poller_deref pa s = Inr ps"
    using deref_defined [of pa s] by (auto simp: addrs_def)
  with e show ?thesis
    using deref_in [OF ps] entry_unique [OF assms(1) e(1)] by metis
qed

lemma deref_own:
  assumes "table_ok s" "Poller_deref pa s = Inr ps" "has_entry pa P_Tunnel s"
  shows "own pa (fd ps) s"
proof -
  obtain e where e: "e \<in> set (m_polled s)" "e_addr e = pa" "e_pollfd e = ps"
    using deref_in [OF assms(2)] by blast
  moreover obtain e' where "e' \<in> set (m_polled s)" "e_addr e' = pa" "e_polled e' = P_Tunnel"
    using assms(3) by (auto simp: has_entry_def)
  ultimately have "e_polled e = P_Tunnel"
    using entry_unique [OF assms(1)] by metis
  with e show ?thesis
    by (auto simp: own_def)
qed

lemma own_core:
  assumes "tun_core s t" "own pa f s"
  shows "own pa f t"
proof -
  obtain e where e: "e \<in> set (m_polled s)" "e_addr e = pa" "e_polled e = P_Tunnel" "fd (e_pollfd e) = f"
    using assms(2) by (auto simp: own_def)
  then have "ident e \<in> ident ` set (m_polled t)"
    using assms(1) by (simp add: tun_core_def keeps_tunnel_def)
  then obtain e' where "e' \<in> set (m_polled t)" "ident e = ident e'"
    by blast
  with e show ?thesis
    by (auto simp: own_def ident_def)
qed

text \<open>What the two sides add to the tunnel is one part of the record.\<close>

lemma more_fields:
  assumes "tunnel.more t = tunnel.more (s :: 'w local_tunnel)"
  shows "l_state t = l_state s" "m_read_fd t = m_read_fd s" "m_write_fd t = m_write_fd s"
    "m_write_buffer t = m_write_buffer s" "m_read_buffer t = m_read_buffer s" "g_id t = g_id s"
    "m_connection_specs t = m_connection_specs s" "m_command t = m_command s"
  using assms by (cases s; cases t; simp)+

lemma lbase_rel:
  assumes "lbase s" "tun_rel s t"
  shows "lbase t"
  using assms tun_core_attached [of s t] more_fields [of t s]
  by (auto simp: lbase_def tun_rel_def tun_core_def)

lemma lcore_rel:
  assumes "lcore s" "tun_rel s t"
  shows "lcore t"
  using assms lbase_rel [OF _ assms(2)] more_fields [of t s]
  by (auto simp: lcore_def lbase_def tun_rel_def tun_core_def)

lemma local_inv_rel:
  assumes "local_inv s" "tun_rel s t"
  shows "local_inv t"
  using assms lcore_rel [of s t] more_fields [of t s]
  by (auto simp: local_inv_def tun_rel_def tun_core_def)

section \<open>The handshake inside a read\<close>

text \<open>
  What holds while the command's output is being read: the entry the handler was called for is
  there, standard output is still registered, and, outside the handshake itself, the invariant's
  core.
\<close>

definition reads :: "nat \<Rightarrow> 'w local_tunnel \<Rightarrow> 'w local_tunnel \<Rightarrow> bool" where
  "reads pa s t \<longleftrightarrow> lbase t \<and> poller_steps s t \<and> own pa (m_read_fd s) t \<and>
     m_read_fd t = m_read_fd s \<and> m_write_fd t = m_write_fd s \<and> poller_map t (P_Tunnel, STDOUT_FD) \<noteq> None"

definition mid :: "nat \<Rightarrow> 'w local_tunnel \<Rightarrow> 'w local_tunnel \<Rightarrow> bool" where
  "mid pa s t \<longleftrightarrow> reads pa s t \<and> lcore t"

lemma reads_rel:
  assumes "reads pa s t" "tun_rel t u"
  shows "reads pa s u"
proof -
  have "poller_steps t u" "poller_map u (P_Tunnel, STDOUT_FD) \<noteq> None"
    using assms by (auto simp: tun_rel_def tun_core_def reads_def)
  moreover have "lbase u"
    using assms lbase_rel by (auto simp: reads_def)
  ultimately show ?thesis
    using assms own_core [of t u] more_fields [of u t] by (auto simp: reads_def tun_rel_def)
qed

lemma mid_rel: "mid pa s t \<Longrightarrow> tun_rel t u \<Longrightarrow> mid pa s u"
  using reads_rel lcore_rel by (auto simp: mid_def)

lemma mid_world: "mid pa s t \<Longrightarrow> mid pa s (t\<lparr>world := w\<rparr>)"
  by (erule mid_rel) blast

lemma mid_remove:
  assumes "mid pa s t" "f \<notin> {m_read_fd s, m_write_fd s, STDOUT_FD}"
  shows "mid pa s (Poller_removePolled P_Tunnel f t)"
proof -
  let ?u = "Poller_removePolled P_Tunnel f t"
  have map: "poller_map ?u (P_Tunnel, g) = poller_map t (P_Tunnel, g)" if "g \<noteq> f" for g
    using that by (simp add: removePolled_map_other)
  have more: "tunnel.more ?u = tunnel.more t" by simp
  note fields = more_fields [OF more]
  have wr: "m_writer_fd t = m_write_fd s"
    using assms(1) by (simp add: mid_def reads_def lbase_def)
  have t: "lbase t" "m_read_fd t = m_read_fd s" "m_write_fd t = m_write_fd s"
    using assms(1) by (simp_all add: mid_def reads_def)
  have base: "lbase ?u"
    using t assms(2) wr map [of "m_write_fd s"] by (simp add: lbase_def attached_def fields)
  have "own pa (m_read_fd s) ?u"
  proof -
    obtain e where "e \<in> set (m_polled t)" "e_addr e = pa" "e_polled e = P_Tunnel" "fd (e_pollfd e) = m_read_fd s"
      using assms(1) by (auto simp: mid_def reads_def own_def)
    moreover from this have "e \<in> set (m_polled ?u)"
      using assms(2) by (intro removePolled_keeps_entry) auto
    ultimately show ?thesis by (auto simp: own_def)
  qed
  moreover have "poller_steps s ?u"
    using assms(1) removePolled_step [of t P_Tunnel f] by (auto simp: mid_def reads_def intro: rtranclp_trans)
  ultimately have "reads pa s ?u"
    using assms map [of STDOUT_FD] base t by (simp add: mid_def reads_def fields)
  moreover have "lcore ?u"
    using assms wr map [of STDOUT_FD] map [of "m_write_fd s"] base t
    by (simp add: mid_def lcore_def wants_out_def awake_def fields)
  ultimately show ?thesis by (simp add: mid_def)
qed

lemma announce_ok: "frame_ok s (announce_all kcs s)"
proof (induction kcs arbitrary: s)
  case (Cons kc kcs)
  have "tun_rel u (writing (ConnectionSpec_serialize sp) u)" for sp and u :: "('a, 'b) tunnel_scheme"
    by (rule tun_rel_same)
      (simp_all add: writing_def ConnectionSpec_serialize_def WriteStream_writeShort_def WriteStream_writeString_def
        WriteStream_writeLong_def Let_def)
  then have "frame_ok s (announce_connection kc s)"
    unfolding announce_connection_def
    by (intro res_ok_bind_value) (auto intro: deref_tame tun_rel_trans [OF tun_rel_put(6)])
  then show ?case
    by (simp, rule frame_bind [OF tun_rel_refl]) (rule frame_ok_trans [OF _ Cons.IH])
qed simp

lemma daemon_ok: "frame_ok s (daemon os s)"
proof -
  have w: "tun_rel s (on_world f u)" if "tun_rel s u" for f and u :: "('a, 'b) tunnel_scheme"
    using that by (rule tun_rel_trans) blast
  show ?thesis
    unfolding daemon_def Let_def
    by (intro syscall_pairE [where s = s] tun_rel_refl res_ok_sum res_ok_if w; simp)
qed

lemma send_awake: "attached s \<Longrightarrow> res_ok tame (\<lambda>t. tun_rel s t \<and> awake t) (CustomWriteStream_send s)"
proof -
  assume a: "attached s"
  have "poller_map (writing WriteStream_send s) = poller_map s"
    by (simp add: fun_eq_iff poller_map_def writing_def)
  then show ?thesis
    using a tun_rel_send [of s]
    by (auto simp: CustomWriteStream_send_def attached_def awake_def wants_out_def setEvents_map writing_def)
qed

lemma startHandshaking_ok:
  assumes "mid pa s t"
  shows "res_ok no_dangle (mid pa s) (StdioTunnelLocal_startHandshaking os t)"
proof -
  define t1 where "t1 = t\<lparr>l_state := L_HAND_SHAKE, m_write_buffer := SockBuffer_clear (m_write_buffer t)\<rparr>"
  let ?P = "\<lambda>u. reads pa s u \<and> l_state u = L_HAND_SHAKE"
  have "poller_step t t1"
    by (rule poller_step.change) (simp_all add: t1_def)
  then have "?P t1"
    using assms
    by (auto simp: t1_def mid_def reads_def lbase_def attached_def own_def poller_map_def
        intro: rtranclp.rtrancl_into_rtrancl)
  then have P: "?P u" if "tun_rel t1 u" for u
    using that reads_rel [of pa s t1 u] more_fields [of u t1] by (auto simp: tun_rel_def)
  have last: "res_ok no_dangle (mid pa s)
      (if m_daemon u then daemon os (on_world (sys_cerr os msg) u) else Inr u)" if "mid pa s u" for u msg
    using that
    by (auto intro!: res_ok_mono [OF daemon_ok] intro: tame_no_dangle mid_rel [OF mid_rel [OF _ tun_rel_put(4)]])
  have cut: "mid pa s (let u = Poller_removePolled P_Tunnel STDIN_FD u in
      if m_is_terminal u then on_world (sys_tcsetattr os STDIN_FD (raw_with_signals (m_termios u))) u else u)"
    if "mid pa s u" for u
  proof -
    have "mid pa s (Poller_removePolled P_Tunnel STDIN_FD u)"
      by (rule mid_remove [OF that]) (use that in \<open>auto simp: mid_def reads_def lbase_def\<close>)
    then show ?thesis
      by (auto simp: Let_def intro: mid_rel [OF _ tun_rel_put(4)])
  qed
  have send: "res_ok no_dangle (mid pa s) (CustomWriteStream_send u)" if "tun_rel t1 u" for u
  proof (rule res_ok_mono [OF send_awake])
    show "attached u"
      using P [OF that] by (simp add: reads_def lbase_def)
    fix v
    assume "tun_rel u v \<and> awake v"
    then show "mid pa s v"
      using P [OF tun_rel_trans [OF that, of v]] by (auto simp: mid_def lcore_def reads_def)
  qed (rule tame_no_dangle)
  let ?u = "put_short (int (length (m_connection_map (put_short CMD_CREATE t1)))) (put_short CMD_CREATE t1)"
  have "res_ok no_dangle (tun_rel t1) (announce_all (m_connection_map ?u) ?u)"
    by (rule res_ok_mono [OF frame_ok_trans [OF tun_rel_trans [OF tun_rel_put(6) tun_rel_put(6)] announce_ok]])
      (auto intro: tame_no_dangle)
  then show ?thesis
    unfolding StdioTunnelLocal_startHandshaking_def Let_def t1_def [symmetric]
    by (rule res_ok_bind) (rule res_ok_bind [OF send], assumption, rule last, drule cut, simp add: Let_def)
qed

lemma remoteInit_ok: "mid pa s t \<Longrightarrow> res_ok no_dangle (mid pa s) (StdioTunnelLocal_remoteInit os c t)"
  unfolding StdioTunnelLocal_remoteInit_def Let_def
  by (rule syscall_pairE [OF tun_rel_refl], intro res_ok_sum res_ok_if) (auto intro: mid_rel)

lemma detector_ok:
  assumes "\<And>s. J s \<Longrightarrow> res_ok E J (sh s)" "\<And>c s. J s \<Longrightarrow> res_ok E J (ri c s)"
  shows "J s \<Longrightarrow> res_ok E (\<lambda>(d, s). J s) (MagicStringDetector_processReadData sh ri bs d s)"
proof -
  have login: "res_ok E (\<lambda>(d, s). J s) (MagicStringDetector_login ri b d s)" if "J s" for b d s
    using that assms(2) [of s]
    by (auto simp: MagicStringDetector_login_def Let_def intro!: res_ok_bind [of E J])
  show "J s \<Longrightarrow> res_ok E (\<lambda>(d, s). J s) (MagicStringDetector_processReadData sh ri bs d s)"
  proof (induction bs arbitrary: d s)
    case (Cons b bs)
    have rest: "res_ok E (\<lambda>(d, s). J s) (bindE (MagicStringDetector_login ri b d s)
        (\<lambda>(d, s). MagicStringDetector_processReadData sh ri bs d s))" for d
      by (rule res_ok_bind [OF login [OF Cons.prems]]) (auto intro: Cons.IH)
    have "res_ok E (\<lambda>(d, s). J s) (bindE (sh s) (\<lambda>s. Inr (d, s)))" for d :: magic_detector
      by (rule res_ok_bind [OF assms(1) [OF Cons.prems]]) simp
    with rest show ?case
      by (simp add: Let_def)
  qed simp
qed

lemma readLoop_ok:
  assumes "\<And>bs h w. J h \<Longrightarrow> res_ok E (\<lambda>(h, w). J h) (process bs (h, w))"
    and "\<And>e. E (MyExceptionErrno e)" "E OutOfFuel"
  shows "J h \<Longrightarrow> res_ok E (\<lambda>(n, b', h, w). J h \<and> (\<exists>bs. b' = SockBuffer_pushOnBuffer bs b))
    (SockBuffer_readLoop n os process f t b h w)"
proof (induction n arbitrary: t b h w)
  case 0
  then show ?case using assms(3) by simp
next
  case (Suc n)
  have r: "res_ok E (\<lambda>_. True) (SockBuffer_read1 os f w)"
    unfolding SockBuffer_read1_def by (intro ok_rules) (auto intro: assms(2))
  have next_turn: "res_ok E (\<lambda>(n, b', h, w). J h \<and> (\<exists>bs. b' = SockBuffer_pushOnBuffer bs b))
      (let s = b\<lparr>sb_queue := sb_queue b @ bs\<rparr>; read_total = t + length bs
       in if length bs = SockBuffer_BUFFER_SIZE then SockBuffer_readLoop n os process f read_total s h w
          else Inr (read_total, s, h, w))" if "J h" for bs h w
  proof -
    let ?b = "b\<lparr>sb_queue := sb_queue b @ bs\<rparr>"
    have "SockBuffer_pushOnBuffer cs ?b = SockBuffer_pushOnBuffer (bs @ cs) b" for cs
      by (simp add: SockBuffer_pushOnBuffer_def)
    then have "\<exists>bs. SockBuffer_pushOnBuffer cs ?b = SockBuffer_pushOnBuffer bs b" for cs
      by blast
    then have "res_ok E (\<lambda>(n, b', h, w). J h \<and> (\<exists>bs. b' = SockBuffer_pushOnBuffer bs b))
        (SockBuffer_readLoop n os process f (t + length bs) ?b h w)"
      by (intro res_ok_mono [OF Suc.IH [OF that, where w = w and t = "t + length bs" and b = ?b]]) auto
    moreover have "\<exists>bs. ?b = SockBuffer_pushOnBuffer bs b"
      by (auto simp: SockBuffer_pushOnBuffer_def)
    ultimately show ?thesis
      using that by (cases "length bs = SockBuffer_BUFFER_SIZE") (simp_all only: Let_def if_True if_False, simp_all)
  qed
  show ?case
    by (simp only: SockBuffer_readLoop.simps, rule res_ok_bind [OF r], clarify,
        rule res_ok_bind [OF assms(1) [OF Suc.prems]], clarify, rule next_turn)
qed

lemma read_from_pipe_ok:
  assumes "mid pa s s" "sb_inv (md_buffer (m_read_buffer s))"
  shows "res_ok no_dangle (\<lambda>(n, t). mid pa s t \<and> sb_inv (md_buffer (m_read_buffer t)))
    (read_from_pipe fuel os s)"
proof -
  have hook: "res_ok no_dangle (\<lambda>(h, w). mid pa s (snd h)) (detector_hook os bs (h, w))"
    if "mid pa s (snd h)" for bs h w
  proof -
    obtain d t where h: "h = (d, t)" by fastforce
    have "res_ok no_dangle (\<lambda>(d, t). mid pa s t) (MagicStringDetector_processReadData
        (StdioTunnelLocal_startHandshaking os) (StdioTunnelLocal_remoteInit os) bs d (t\<lparr>world := w\<rparr>))"
      by (rule detector_ok [OF startHandshaking_ok remoteInit_ok]) (use that h mid_world in auto)
    then show ?thesis
      by (auto simp: detector_hook_def h elim!: res_ok_bind)
  qed
  have buf: "mid pa s (t\<lparr>world := w, m_read_buffer := d\<rparr>)" if "mid pa s t" for t w d
  proof -
    let ?u = "t\<lparr>world := w, m_read_buffer := d\<rparr>"
    have "poller_step t ?u"
      by (rule poller_step.change) simp_all
    then have "poller_steps s ?u"
      using that by (auto simp: mid_def reads_def intro: rtranclp.rtrancl_into_rtrancl)
    moreover have "lbase ?u = lbase t" "lcore ?u = lcore t" "own pa f ?u = own pa f t"
      "poller_map ?u k = poller_map t k" for f k
      by (simp_all add: lbase_def lcore_def attached_def awake_def wants_out_def poller_map_def own_def)
    ultimately show ?thesis
      using that by (simp add: mid_def reads_def)
  qed
  have "res_ok no_dangle (\<lambda>(n, b', h, w). mid pa s (snd h) \<and>
      (\<exists>bs. b' = SockBuffer_pushOnBuffer bs (md_buffer (m_read_buffer s))))
      (SockBuffer_readData fuel os (detector_hook os) (m_read_fd s) (md_buffer (m_read_buffer s))
              (m_read_buffer s, s) (world s))"
    unfolding SockBuffer_readData_def
    by (rule readLoop_ok [where J = "\<lambda>h. mid pa s (snd h)"]) (use assms(1) hook in simp_all)
  then show ?thesis
    unfolding read_from_pipe_def
    by (rule res_ok_bind) (use assms(2) buf in auto)
qed

section \<open>The handler of the tunnel's own entries\<close>

definition after :: "nat \<Rightarrow> c_int \<Rightarrow> 'w local_tunnel \<Rightarrow> 'w local_tunnel \<Rightarrow> bool" where
  "after pa f s t \<longleftrightarrow> local_inv t \<and> poller_steps s t \<and> own pa f t \<and>
     m_read_fd t = m_read_fd s \<and> m_write_fd t = m_write_fd s"

text \<open>One test of the handler's chain.\<close>

lemma when_fd_eq:
  assumes "table_ok s" "own pa f s"
  shows "\<exists>ps. fd ps = f \<and> when_fd pa g body s = (if f = g s then body ps s else Inr s)"
proof -
  obtain ps where "Poller_deref pa s = Inr ps" "fd ps = f"
    using own_deref [OF assms] by blast
  then show ?thesis
    by (intro exI [of _ ps]) (simp add: when_fd_def)
qed

lemma when_skip:
  assumes "after pa f s t" "table_ok s" "f \<noteq> g t"
  shows "when_fd pa g body t = Inr t"
proof -
  have "table_ok t"
    using assms by (auto simp: after_def intro: steps_table_ok)
  then show ?thesis
    using when_fd_eq [of t pa f g body] assms(1,3) by (auto simp: after_def)
qed

text \<open>Requests of the tunnel itself.\<close>

lemma own_ident: "own pa f u \<longleftrightarrow> (\<exists>r. (pa, P_Tunnel, f, r) \<in> set (map ident (m_polled u)))"
  unfolding own_def ident_def set_map image_iff by simp metis

lemma own_setEvents [simp]: "own pa f (Poller_setEvents p g ev t) = own pa f t"
  by (simp only: own_ident setEvents_idents)

lemma own_storeEvents [simp]: "own pa f (Poller_storeEvents pb ev t) = own pa f t"
proof -
  have "map ident (m_polled (Poller_storeEvents pb ev t)) = map ident (m_polled t)"
    by (simp add: Poller_storeEvents_def ident_def)
  then show ?thesis by (simp only: own_ident)
qed

lemma local_fields_setEvents [simp]:
  fixes t :: "'w local_tunnel"
  shows "l_state (Poller_setEvents p g ev t) = l_state t" "m_read_fd (Poller_setEvents p g ev t) = m_read_fd t"
  "m_write_fd (Poller_setEvents p g ev t) = m_write_fd t"
  "m_write_buffer (Poller_setEvents p g ev t) = m_write_buffer t"
  "m_read_buffer (Poller_setEvents p g ev t) = m_read_buffer t"
  by (simp_all add: more_fields [of "Poller_setEvents p g ev t" t])

lemma lbase_setEvents [simp]: "lbase t \<Longrightarrow> lbase (Poller_setEvents P_Tunnel g ev t)"
  by (auto simp: lbase_def attached_def setEvents_map)

lemma steps_setEvents: "poller_steps s t \<Longrightarrow> poller_steps s (Poller_setEvents p g ev t)"
  by (erule rtranclp.rtrancl_into_rtrancl) (rule setEvents_step)

lemma wants_out_setEvents:
  "wants_out (Poller_setEvents P_Tunnel g ev t) f =
     (if f = g \<and> poller_map t (P_Tunnel, g) \<noteq> None then flag POLLOUT ev else wants_out t f)"
  by (auto simp: wants_out_def setEvents_map)

text \<open>Standard output: asking for more is always right, asking for nothing when nothing waits.\<close>

lemma local_inv_stdout:
  assumes "lcore t" "sb_inv (md_buffer (m_read_buffer t))"
    and "poller_map t (P_Tunnel, STDOUT_FD) \<noteq> None \<and> flag POLLOUT ev \<or>
      \<not> SockBuffer_unsentData (md_buffer (m_read_buffer t))"
  shows "local_inv (Poller_setEvents P_Tunnel STDOUT_FD ev t)"
proof -
  have w: "m_write_fd t \<noteq> STDOUT_FD" "m_writer_fd t \<noteq> STDOUT_FD"
    using assms(1) by (auto simp: lcore_def lbase_def)
  have "lcore (Poller_setEvents P_Tunnel STDOUT_FD ev t)"
    using assms(1) w by (auto simp: lcore_def wants_out_setEvents awake_def setEvents_map)
  then show ?thesis
    using assms by (auto simp: local_inv_def wants_out_setEvents)
qed

text \<open>The pipe to the command while its input passes through.\<close>

lemma local_inv_pipe:
  assumes "local_inv t" "l_state t = L_PASS_THROUGH" "flag POLLOUT ev \<or> \<not> SockBuffer_unsentData (m_write_buffer t)"
  shows "local_inv (Poller_setEvents P_Tunnel (m_write_fd t) ev t)"
proof -
  have w: "m_write_fd t \<noteq> STDOUT_FD" "poller_map t (P_Tunnel, m_write_fd t) \<noteq> None"
    using assms(1) by (auto simp: local_inv_def lcore_def lbase_def attached_def)
  have "lcore (Poller_setEvents P_Tunnel (m_write_fd t) ev t)"
    using assms w by (auto simp: local_inv_def lcore_def wants_out_setEvents setEvents_map)
  then show ?thesis
    using assms w by (auto simp: local_inv_def wants_out_setEvents)
qed

lemma writeData_ok:
  assumes "posix_write os f out" "sb_inv b"
  shows "res_ok tame (\<lambda>(n, b', w'). sb_inv b' \<and> (SockBuffer_unsentData b' \<longrightarrow> SockBuffer_unsentData b))
    (SockBuffer_writeData os f b w)"
proof (cases "SockBuffer_writeData os f b w")
  case (Inl e)
  then show ?thesis
    by (auto simp: SockBuffer_writeData_def Let_def split: prod.splits sum.splits)
next
  case (Inr x)
  obtain k b' w' where "x = (k, b', w')" by (cases x)
  then show ?thesis
    using writeData_moves [OF assms, of w k b' w'] Inr assms(2) by (auto simp: unsentData_iff)
qed

lemma own_now: "local_inv s \<Longrightarrow> own pa f s \<Longrightarrow> after pa f s s"
  by (simp add: after_def)

text \<open>The four parts of \<open>passThrough\<close>.\<close>

lemma pass_read_ok:
  fixes s :: "'w local_tunnel"
  assumes "local_inv s" "l_state s = L_PASS_THROUGH" "own pa (m_read_fd s) s"
  shows "res_ok no_dangle (after pa (m_read_fd s) s) (bindE (read_from_pipe fuel os s) (\<lambda>(n, s).
         if n = 0 then Inl (MyException ''Read side closed'')
         else Inr (if SockBuffer_unsentData (md_buffer (m_read_buffer s))
                   then Poller_setEvents P_Tunnel STDOUT_FD POLLOUT s else s)))"
proof (rule res_ok_bind [OF read_from_pipe_ok])
  show "mid pa s s" "sb_inv (md_buffer (m_read_buffer s))"
    using assms by (auto simp: mid_def reads_def local_inv_def lcore_def)
  fix x :: "nat \<times> 'w local_tunnel"
  assume "case x of (n, t) \<Rightarrow> mid pa s t \<and> sb_inv (md_buffer (m_read_buffer t))"
  then obtain n t where x: "x = (n, t)" and t: "mid pa s t" "sb_inv (md_buffer (m_read_buffer t))"
    by (cases x) auto
  have "local_inv (if SockBuffer_unsentData (md_buffer (m_read_buffer t))
                   then Poller_setEvents P_Tunnel STDOUT_FD POLLOUT t else t)"
    using t by (auto simp: mid_def reads_def local_inv_def [of t] intro: local_inv_stdout)
  then show "res_ok no_dangle (after pa (m_read_fd s) s) (case x of (n, s) \<Rightarrow>
         if n = 0 then Inl (MyException ''Read side closed'')
         else Inr (if SockBuffer_unsentData (md_buffer (m_read_buffer s))
                   then Poller_setEvents P_Tunnel STDOUT_FD POLLOUT s else s))"
    using t x by (auto simp: after_def mid_def reads_def steps_setEvents)
qed

text \<open>Changes of the two buffers.\<close>

lemma steps_buffers:
  "poller_steps s t \<Longrightarrow> poller_steps s (t\<lparr>world := w, m_write_buffer := b\<rparr>)"
  "poller_steps s t \<Longrightarrow> poller_steps s (t\<lparr>world := w, m_read_buffer := d\<rparr>)"
  by (erule rtranclp.rtrancl_into_rtrancl, rule poller_step.change, simp_all)+

lemma buffers_frame [simp]:
  "attached (s\<lparr>world := w, m_write_buffer := b\<rparr>) = attached s"
  "awake (s\<lparr>world := w, m_write_buffer := b\<rparr>) = awake s"
  "wants_out (s\<lparr>world := w, m_write_buffer := b\<rparr>) f = wants_out s f"
  "poller_map (s\<lparr>world := w, m_write_buffer := b\<rparr>) k = poller_map s k"
  "own pa f (s\<lparr>world := w, m_write_buffer := b\<rparr>) = own pa f s"
  "attached (s\<lparr>world := w, m_read_buffer := d\<rparr>) = attached s"
  "awake (s\<lparr>world := w, m_read_buffer := d\<rparr>) = awake s"
  "wants_out (s\<lparr>world := w, m_read_buffer := d\<rparr>) f = wants_out s f"
  "poller_map (s\<lparr>world := w, m_read_buffer := d\<rparr>) k = poller_map s k"
  "own pa f (s\<lparr>world := w, m_read_buffer := d\<rparr>) = own pa f s"
  by (simp_all add: attached_def awake_def wants_out_def poller_map_def own_def)

lemma local_inv_buffers:
  "local_inv s \<Longrightarrow> sb_inv b \<Longrightarrow> (SockBuffer_unsentData b \<longrightarrow> SockBuffer_unsentData (m_write_buffer s)) \<Longrightarrow>
     local_inv (s\<lparr>world := w, m_write_buffer := b\<rparr>)"
  "local_inv s \<Longrightarrow> sb_inv b \<Longrightarrow>
     (SockBuffer_unsentData b \<longrightarrow> SockBuffer_unsentData (md_buffer (m_read_buffer s))) \<Longrightarrow>
     local_inv (s\<lparr>world := w, m_read_buffer := (m_read_buffer s)\<lparr>md_buffer := b\<rparr>\<rparr>)"
  by (simp_all add: local_inv_def lcore_def lbase_def)

lemma write_to_pipe_ok:
  assumes "posix_write os (m_write_fd s) out" "local_inv s"
  shows "res_ok no_dangle (\<lambda>t. \<exists>w b. t = s\<lparr>world := w, m_write_buffer := b\<rparr> \<and> local_inv t) (write_to_pipe os s)"
proof -
  have "sb_inv (m_write_buffer s)"
    using assms(2) by (simp add: local_inv_def lcore_def lbase_def)
  from res_ok_mono [OF writeData_ok [OF assms(1) this, of "world s"], where F = no_dangle]
  show ?thesis
    unfolding write_to_pipe_def
    by (rule res_ok_bind) (use local_inv_buffers(1) [OF assms(2)] in \<open>auto intro: tame_no_dangle, blast+\<close>)
qed

lemma write_to_stdout_ok:
  assumes "posix_write os STDOUT_FD out" "local_inv s"
  shows "res_ok no_dangle (\<lambda>t. \<exists>w d. t = s\<lparr>world := w, m_read_buffer := d\<rparr> \<and> local_inv t) (write_to_stdout os s)"
proof -
  have "sb_inv (md_buffer (m_read_buffer s))"
    using assms(2) by (simp add: local_inv_def)
  from res_ok_mono [OF writeData_ok [OF assms(1) this, of "world s"], where F = no_dangle]
  show ?thesis
    unfolding write_to_stdout_def
    by (rule res_ok_bind) (use local_inv_buffers(2) [OF assms(2)] in \<open>auto intro: tame_no_dangle, blast+\<close>)
qed

lemma read_from_stdin_ok:
  assumes "local_inv s"
  shows "res_ok no_dangle (\<lambda>(n, t). \<exists>w bs. t = s\<lparr>world := w,
      m_write_buffer := SockBuffer_pushOnBuffer bs (m_write_buffer s)\<rparr>) (read_from_stdin fuel os s)"
proof -
  have "res_ok no_dangle (\<lambda>(n, b', h, w). True \<and> (\<exists>bs. b' = SockBuffer_pushOnBuffer bs (m_write_buffer s)))
      (SockBuffer_readData fuel os SockBuffer_processReadData STDIN_FD (m_write_buffer s) () (world s))"
    unfolding SockBuffer_readData_def
    by (rule readLoop_ok) (simp_all add: SockBuffer_processReadData_def)
  then show ?thesis
    unfolding read_from_stdin_def by (rule res_ok_bind) (clarsimp, blast)
qed

lemma pass_pipe_ok:
  assumes "posix_write os (m_write_fd s) out" "local_inv s" "l_state s = L_PASS_THROUGH" "own pa f s"
  shows "res_ok no_dangle (after pa f s) (if \<not> flag POLLOUT (revents ps)
       then Inl (MyException ''unexpected revents in write to pipe'')
       else bindE (write_to_pipe os s) (\<lambda>s.
              Inr (if \<not> SockBuffer_unsentData (m_write_buffer s)
                   then Poller_setEvents P_Tunnel (m_write_fd s) 0 s else s)))"
proof (intro res_ok_if, simp, rule res_ok_bind [OF write_to_pipe_ok [OF assms(1,2)]])
  fix t
  assume "\<exists>w b. t = s\<lparr>world := w, m_write_buffer := b\<rparr> \<and> local_inv t"
  then obtain w b where t: "t = s\<lparr>world := w, m_write_buffer := b\<rparr>" "local_inv t"
    by blast
  then have "own pa f t" "poller_steps s t" "l_state t = L_PASS_THROUGH" "m_read_fd t = m_read_fd s"
    "m_write_fd t = m_write_fd s"
    using assms(3,4) steps_buffers(1) [where s = s and t = s] by auto
  with t(2) show "res_ok no_dangle (after pa f s) (Inr (if \<not> SockBuffer_unsentData (m_write_buffer t)
                   then Poller_setEvents P_Tunnel (m_write_fd t) 0 t else t))"
    using local_inv_pipe [of t 0] steps_setEvents [of s t] by (auto simp: after_def)
qed

lemma pass_stdin_ok:
  fixes s :: "'w local_tunnel"
  assumes "local_inv s" "l_state s = L_PASS_THROUGH" "own pa f s"
  shows "res_ok no_dangle (after pa f s) (bindE (read_from_stdin fuel os s) (\<lambda>(n, s).
         if n = 0 then Inl (MyException ''Stdin closed'')
         else Inr (if SockBuffer_unsentData (m_write_buffer s)
                   then Poller_setEvents P_Tunnel (m_write_fd s) POLLOUT s else s)))"
proof (rule res_ok_bind [OF read_from_stdin_ok [OF assms(1)]], clarify)
  fix n w bs
  let ?t = "s\<lparr>world := w, m_write_buffer := SockBuffer_pushOnBuffer bs (m_write_buffer s)\<rparr>"
  have reg: "poller_map s (P_Tunnel, m_write_fd s) \<noteq> None"
    using assms(1) by (auto simp: local_inv_def lcore_def lbase_def attached_def)
  have "local_inv (if SockBuffer_unsentData (m_write_buffer ?t)
      then Poller_setEvents P_Tunnel (m_write_fd ?t) POLLOUT ?t else ?t)"
    using assms(1,2) reg
    by (auto simp: local_inv_def lcore_def lbase_def wants_out_setEvents attached_def setEvents_map)
  then show "res_ok no_dangle (after pa f s) (if n = 0 then Inl (MyException ''Stdin closed'')
         else Inr (if SockBuffer_unsentData (m_write_buffer ?t)
                   then Poller_setEvents P_Tunnel (m_write_fd ?t) POLLOUT ?t else ?t))"
    using assms(3) steps_buffers(1) [of s s] steps_setEvents [of s ?t] by (auto simp: after_def)
qed

lemma pass_stdout_ok:
  assumes "posix_write os STDOUT_FD out" "local_inv s" "own pa f s"
  shows "res_ok no_dangle (after pa f s) (if \<not> flag POLLOUT (revents ps)
       then Inl (MyException ''unexpected revents'')
       else bindE (write_to_stdout os s) (\<lambda>s.
              Inr (if \<not> SockBuffer_unsentData (md_buffer (m_read_buffer s))
                   then Poller_setEvents P_Tunnel STDOUT_FD 0 s else s)))"
proof (intro res_ok_if, simp, rule res_ok_bind [OF write_to_stdout_ok [OF assms(1,2)]])
  fix t
  assume "\<exists>w d. t = s\<lparr>world := w, m_read_buffer := d\<rparr> \<and> local_inv t"
  then obtain w d where t: "t = s\<lparr>world := w, m_read_buffer := d\<rparr>" "local_inv t"
    by blast
  then have "own pa f t" "poller_steps s t" "m_read_fd t = m_read_fd s" "m_write_fd t = m_write_fd s"
    using assms(3) steps_buffers(2) [where s = s and t = s] by auto
  with t(2) show "res_ok no_dangle (after pa f s) (Inr (if \<not> SockBuffer_unsentData (md_buffer (m_read_buffer t))
                   then Poller_setEvents P_Tunnel STDOUT_FD 0 t else t))"
    using local_inv_stdout [of t 0] steps_setEvents [of s t] by (auto simp: after_def local_inv_def [of t])
qed

text \<open>Every descriptor behaves as a byte stream.\<close>

definition fds_ok :: "('w, 'o) posix_scheme \<Rightarrow> bool" where
  "fds_ok os \<longleftrightarrow> (\<forall>f. (\<exists>inp. posix_read os f inp) \<and> (\<exists>out. posix_write os f out))"

text \<open>A chain of tests of which at most one applies.\<close>

lemma when_take:
  assumes "table_ok s" "own pa (g s) s" "\<And>ps. fd ps = g s \<Longrightarrow> Poller_deref pa s = Inr ps \<Longrightarrow> res_ok E P (body ps s)"
  shows "res_ok E P (when_fd pa g body s)"
proof -
  obtain ps where "Poller_deref pa s = Inr ps" "fd ps = g s"
    using own_deref [OF assms(1,2)] by blast
  then show ?thesis
    using assms(3) [of ps] by (simp add: when_fd_def)
qed

lemma local_fds: "local_inv s \<Longrightarrow> distinct [m_read_fd s, m_write_fd s, STDIN_FD, STDOUT_FD]"
  by (simp add: local_inv_def lcore_def lbase_def)

text \<open>
  One test of the chain: \<open>seen\<close> are the descriptors tested so far; only a test that applies
  changes the state.
\<close>

definition chain :: "nat \<Rightarrow> c_int \<Rightarrow> 'w local_tunnel \<Rightarrow> c_int set \<Rightarrow> 'w local_tunnel \<Rightarrow> bool" where
  "chain pa f s seen t \<longleftrightarrow> after pa f s t \<and> (f \<notin> seen \<longrightarrow> t = s)"

lemma chain_step:
  assumes "chain pa f s seen t" "table_ok s" "g t = g s" "g s \<notin> seen"
    and "\<And>ps. f = g s \<Longrightarrow> fd ps = f \<Longrightarrow> Poller_deref pa s = Inr ps \<Longrightarrow> res_ok no_dangle (after pa f s) (body ps s)"
  shows "res_ok no_dangle (chain pa f s (insert (g s) seen)) (when_fd pa g body t)"
proof (cases "f = g s")
  case True
  then have t: "t = s" "own pa (g s) s"
    using assms(1,4) by (auto simp: chain_def after_def)
  have "res_ok no_dangle (after pa f s) (when_fd pa g body s)"
    by (rule when_take [where g = g, OF assms(2) t(2)]) (use True assms(5) in auto)
  then show ?thesis
    unfolding t(1) by (rule res_ok_mono) (auto simp: chain_def True)
next
  case False
  then show ?thesis
    using assms(1,3) when_skip [OF _ assms(2), of pa f t g] by (auto simp: chain_def)
qed

lemma passThrough_ok:
  assumes "fds_ok os" "local_inv s" "l_state s = L_PASS_THROUGH" "table_ok s" "own pa f s"
  shows "res_ok no_dangle (\<lambda>t. local_inv t \<and> poller_steps s t) (StdioTunnelLocal_passThrough fuel os pa s)"
proof -
  note d = local_fds [OF assms(2)]
  have now: "chain pa f s {} s"
    using own_now [OF assms(2,5)] by (simp add: chain_def)
  have fds: "m_read_fd t = m_read_fd s" "m_write_fd t = m_write_fd s" if "chain pa f s seen t" for t seen
    using that by (auto simp: chain_def after_def)
  obtain out1 out2 where out: "posix_write os (m_write_fd s) out1" "posix_write os STDOUT_FD out2"
    using assms(1) unfolding fds_ok_def by meson
  have "res_ok no_dangle (chain pa f s {STDOUT_FD, STDIN_FD, m_write_fd s, m_read_fd s})
      (StdioTunnelLocal_passThrough fuel os pa s)"
    unfolding StdioTunnelLocal_passThrough_def
  proof (rule res_ok_bind [OF chain_step [OF now assms(4)]], goal_cases)
    case (3 ps)
    then show ?case using pass_read_ok [OF assms(2,3)] assms(5) by simp
  next
    case (4 t)
    show ?case
    proof (rule res_ok_bind [OF chain_step [OF 4 assms(4)]], goal_cases)
      case (3 ps)
      show ?case by (rule pass_pipe_ok [OF out(1) assms(2,3,5)])
    next
      case (4 t)
      show ?case
      proof (rule res_ok_bind [OF chain_step [OF 4 assms(4)]], goal_cases)
        case (3 ps)
        show ?case by (rule pass_stdin_ok [OF assms(2,3,5)])
      next
        case (4 t)
        show ?case
          by (rule chain_step [OF 4 assms(4)], simp, use d in simp, rule pass_stdout_ok [OF out(2) assms(2,5)])
      qed (use d in auto)
    qed (use d fds [OF 4] in auto)
  qed simp_all
  then show ?thesis
    by (rule res_ok_mono) (auto simp: chain_def after_def)
qed

text \<open>One message of the remote side: a frame step, after which the tunnel may count as connected.\<close>

lemma message_ok:
  "res_ok tame (\<lambda>t. tun_rel s t \<or> (\<exists>u. tun_rel s u \<and> t = u\<lparr>l_state := L_CONNECTED\<rparr>))
     (StdioTunnelLocal_message os s)"
proof -
  have fin: "tun_rel u ((Poller_requestFinish u)\<lparr>m_closed_by_request := True\<rparr>)" for u :: "'a local_tunnel"
    by (rule tun_rel_same) (simp_all add: Poller_requestFinish_def)
  have rep: "frame_ok u (StdioTunnelLocal_reportError os m u)" for m and u :: "'a local_tunnel"
    by (simp add: StdioTunnelLocal_reportError_def tun_rel_put(4))
  have fwd: "frame_ok s (bindE (get_short u) (\<lambda>(i, s).
      forward_message os (StdioTunnelLocal_reportError os) (of_short i) s))" if "tun_rel s u" for u
    by (rule frame_bind_pair [OF that get_short_ok])
      (auto intro: frame_ok_trans [OF _ forward_message_ok [OF rep]])
  have err: "frame_ok s (bindE (reading ReadStream_readString u) (\<lambda>(m, s). StdioTunnelLocal_reportError os m s))"
    if "tun_rel s u" for u
    by (rule frame_bind_pair [OF that readString_ok]) (auto intro: frame_ok_trans [OF _ rep])
  show ?thesis
    unfolding StdioTunnelLocal_message_def
    by (rule frame_bind_pair [OF tun_rel_refl get_short_ok], simp only: prod.case, intro res_ok_if)
      (auto intro: tun_rel_trans [OF _ fin] res_ok_mono [OF fwd] res_ok_mono [OF err])
qed

lemma connected_read_ok:
  assumes "posix_read os (fd ps) inp" "local_inv s" "l_state s \<noteq> L_PASS_THROUGH" "own pa f s"
  shows "res_ok no_dangle (after pa f s) (if flag (POLLERR OR POLLNVAL OR POLLHUP) (revents ps)
       then Inl (MyException ''Read pipe closed/invalid'')
       else bindE (fill_reader os ps s) (\<lambda>s.
              if ReadStream_available (m_read_stream s) then StdioTunnelLocal_message os s else Inr s))"
proof (intro res_ok_if, simp, rule res_ok_mono)
  have rel: "after pa f s t" if "tun_rel s t" for t
    using local_inv_rel [OF assms(2) that] own_core [OF tun_rel_core [OF that] assms(4)] that more_fields [of t s]
    by (auto simp: after_def tun_rel_def tun_core_def)
  let ?Q = "\<lambda>t. tun_rel s t \<or> (\<exists>u. tun_rel s u \<and> t = u\<lparr>l_state := L_CONNECTED\<rparr>)"
  have "res_ok tame ?Q (StdioTunnelLocal_message os t)" if "tun_rel s t" for t
    by (rule res_ok_mono [OF message_ok]) (use that tun_rel_trans in \<open>blast+\<close>)
  then show "res_ok tame ?Q (bindE (fill_reader os ps s) (\<lambda>s.
      if ReadStream_available (m_read_stream s) then StdioTunnelLocal_message os s else Inr s))"
    by (intro res_ok_bind [OF fill_reader_ok [OF assms(1)]]) auto
  fix t
  assume "?Q t"
  moreover have "after pa f s (u\<lparr>l_state := L_CONNECTED\<rparr>)" if "tun_rel s u" for u
  proof -
    have "poller_step u (u\<lparr>l_state := L_CONNECTED\<rparr>)"
      by (rule poller_step.change) simp_all
    then have "poller_steps s (u\<lparr>l_state := L_CONNECTED\<rparr>)"
      using rel [OF that] by (auto simp: after_def intro: rtranclp.rtrancl_into_rtrancl)
    moreover have "l_state u \<noteq> L_PASS_THROUGH"
      using that assms(3) more_fields(1) [of u s] by (simp add: tun_rel_def)
    moreover have "attached (u\<lparr>l_state := L_CONNECTED\<rparr>) = attached u" "awake (u\<lparr>l_state := L_CONNECTED\<rparr>) = awake u"
      "wants_out (u\<lparr>l_state := L_CONNECTED\<rparr>) g = wants_out u g" "own pa f (u\<lparr>l_state := L_CONNECTED\<rparr>) = own pa f u" for g
      by (simp_all add: attached_def awake_def wants_out_def poller_map_def own_def)
    ultimately show ?thesis
      using rel [OF that]
      by (simp add: after_def local_inv_def lcore_def lbase_def)
  qed
  ultimately show "after pa f s t"
    using rel by blast
qed (rule tame_no_dangle)

text \<open>Emptying the writer stores through the reference of one entry only.\<close>

lemma storeEvents_map_other:
  assumes "table_ok s" "own pa f s" "k \<noteq> (P_Tunnel, f)"
  shows "poller_map (Poller_storeEvents pa ev s) k = poller_map s k"
proof -
  have "(e_polled e, fd (e_pollfd e)) = (P_Tunnel, f)" if "e \<in> set (m_polled s)" "e_addr e = pa" for e
  proof -
    obtain e' where "e' \<in> set (m_polled s)" "e_addr e' = pa" "e_polled e' = P_Tunnel" "fd (e_pollfd e') = f"
      using assms(2) by (auto simp: own_def)
    with that show ?thesis
      using entry_unique [OF assms(1), of e e'] by simp
  qed
  then have "entry_map (map (\<lambda>e. if e_addr e = pa then e\<lparr>e_pollfd := (e_pollfd e)\<lparr>events := ev\<rparr>\<rparr> else e) es) k =
      entry_map es k" if "set es \<subseteq> set (m_polled s)" for es
    using that assms(3) by (induction es) auto
  then show ?thesis
    by (simp add: poller_map_def Poller_storeEvents_def)
qed

lemma empty_writer_other:
  assumes "empty_writer os pa ps s = Inr t" "table_ok s" "own pa f s"
  shows "own pa f t" "k \<noteq> (P_Tunnel, f) \<Longrightarrow> poller_map t k = poller_map s k"
proof -
  obtain ev ws w where t: "t = Poller_storeEvents pa ev (s\<lparr>m_write_stream := ws, world := w\<rparr>)"
    using assms(1) by (auto simp: empty_writer_def exn_simps)
  let ?s = "s\<lparr>m_write_stream := ws, world := w\<rparr>"
  have s: "table_ok ?s" "own pa f ?s" "poller_map ?s k = poller_map s k"
    using assms(2,3) by (simp_all add: table_ok_def addrs_def own_def poller_map_def)
  show "own pa f t"
    using s(2) by (simp add: t)
  show "poller_map t k = poller_map s k" if "k \<noteq> (P_Tunnel, f)"
    using storeEvents_map_other [OF s(1,2) that] s(3) by (simp add: t)
qed

lemma drained_local:
  assumes "local_inv s" "l_state s \<noteq> L_PASS_THROUGH" "drained s t" "own pa (m_write_fd s) t"
    and "\<And>k. k \<noteq> (P_Tunnel, m_write_fd s) \<Longrightarrow> poller_map t k = poller_map s k"
  shows "after pa (m_write_fd s) s (if \<not> WriteStream_pendingWrite (m_write_stream t)
     then Poller_setEvents P_Tunnel (m_write_fd t) 0 t else t)"
proof -
  have more: "tunnel.more t = tunnel.more s"
    using assms(3) by (simp add: drained_def)
  note fields = more_fields [OF more]
  have base: "lbase t"
    using assms(1,3)
    by (auto simp: local_inv_def lcore_def lbase_def drained_def attached_def poller_map_None fields)
  have out: "wants_out t STDOUT_FD = wants_out s STDOUT_FD" "m_write_fd s \<noteq> STDOUT_FD"
    using assms(1) assms(5) [of "(P_Tunnel, STDOUT_FD)"]
    by (auto simp: wants_out_def local_inv_def lcore_def lbase_def)
  show ?thesis
  proof (cases "WriteStream_pendingWrite (m_write_stream t)")
    case True
    then have "poller_map t = poller_map s" "WriteStream_pendingWrite (m_write_stream s)" "m_writer_fd t = m_writer_fd s"
      using assms(3) by (auto simp: drained_def poller_map_def fun_eq_iff)
    then have "awake t"
      using assms(1,2) by (auto simp: local_inv_def lcore_def awake_def wants_out_def)
    then have "local_inv t"
      using assms(1,2) base out by (auto simp: local_inv_def lcore_def fields)
    then show ?thesis
      using True assms(3,4) by (simp add: after_def fields drained_def)
  next
    case False
    let ?u = "Poller_setEvents P_Tunnel (m_write_fd t) 0 t"
    have "awake ?u"
      using False by (simp add: awake_def)
    moreover have "wants_out ?u STDOUT_FD = wants_out s STDOUT_FD"
      using out by (auto simp: wants_out_setEvents fields)
    ultimately have "local_inv ?u"
      using assms(1,2) base by (auto simp: local_inv_def lcore_def fields)
    then show ?thesis
      using False assms(3,4) by (simp add: after_def fields drained_def steps_setEvents)
  qed
qed

lemma connected_write_ok:
  assumes "posix_write os (fd ps) out" "local_inv s" "l_state s \<noteq> L_PASS_THROUGH" "table_ok s"
    and "own pa (m_write_fd s) s" "Poller_deref pa s = Inr ps"
  shows "res_ok no_dangle (after pa (m_write_fd s) s) (if flag (POLLERR OR POLLNVAL OR POLLHUP) (revents ps)
       then Inl (MyException ''Write pipe closed/invalid'')
       else bindE (empty_writer os pa ps s) (\<lambda>s.
              Inr (if \<not> WriteStream_pendingWrite (m_write_stream s)
                   then Poller_setEvents P_Tunnel (m_write_fd s) 0 s else s)))"
proof (intro res_ok_if, simp, rule res_ok_bind_value)
  have ok: "res_ok tame (drained s) (empty_writer os pa ps s)"
    using assms by (intro empty_writer_ok) (auto simp: local_inv_def lcore_def lbase_def)
  show "no_dangle e" if "empty_writer os pa ps s = Inl e" for e
    using res_ok_InlD [OF ok that] by (rule tame_no_dangle)
  show "res_ok no_dangle (after pa (m_write_fd s) s) (Inr (if \<not> WriteStream_pendingWrite (m_write_stream t)
      then Poller_setEvents P_Tunnel (m_write_fd t) 0 t else t))" if t: "empty_writer os pa ps s = Inr t" for t
    unfolding res_ok_Inr
    by (rule drained_local [OF assms(2,3) res_ok_InrD [OF ok t] empty_writer_other(1) [OF t assms(4,5)]])
      (rule empty_writer_other(2) [OF t assms(4,5)])
qed

text \<open>Standard output once the tunnel is up: what is left is written, then its entry is dropped.\<close>

lemma connected_stdout_ok:
  assumes "posix_write os STDOUT_FD out" "local_inv s" "l_state s \<noteq> L_PASS_THROUGH"
  shows "res_ok no_dangle (\<lambda>t. local_inv t \<and> poller_steps s t)
     (if SockBuffer_unsentData (md_buffer (m_read_buffer s)) then write_to_stdout os s
      else Inr (Poller_removePolled P_Tunnel STDOUT_FD s))"
proof (intro res_ok_if)
  show "res_ok no_dangle (\<lambda>t. local_inv t \<and> poller_steps s t) (write_to_stdout os s)"
    by (rule res_ok_mono [OF write_to_stdout_ok [OF assms(1,2)]]) (use steps_buffers(2) [where s = s and t = s] in auto)
  let ?u = "Poller_removePolled P_Tunnel STDOUT_FD s"
  assume "\<not> SockBuffer_unsentData (md_buffer (m_read_buffer s))"
  moreover have more: "tunnel.more ?u = tunnel.more s" by simp
  note fields = more_fields [OF more]
  have w: "m_writer_fd s \<noteq> STDOUT_FD" "m_write_fd s \<noteq> STDOUT_FD"
    using assms(2) by (auto simp: local_inv_def lcore_def lbase_def)
  then have "lbase ?u" "awake ?u"
    using assms(2,3)
    by (auto simp: local_inv_def lcore_def lbase_def attached_def awake_def wants_out_def removePolled_map_other fields)
  ultimately show "res_ok no_dangle (\<lambda>t. local_inv t \<and> poller_steps s t) (Inr ?u)"
    using assms(2,3) removePolled_step [of s P_Tunnel STDOUT_FD]
    by (auto simp: local_inv_def lcore_def fields)
qed

lemma connected_ok:
  assumes "fds_ok os" "local_inv s" "l_state s \<noteq> L_PASS_THROUGH" "table_ok s" "own pa f s"
  shows "res_ok no_dangle (\<lambda>t. local_inv t \<and> poller_steps s t) (StdioTunnelLocal_connected os pa s)"
proof -
  note d = local_fds [OF assms(2)]
  have now: "chain pa f s {} s"
    using own_now [OF assms(2,5)] by (simp add: chain_def)
  have fds: "m_read_fd t = m_read_fd s" "m_write_fd t = m_write_fd s" if "chain pa f s seen t" for t seen
    using that by (auto simp: chain_def after_def)
  have rd: "\<exists>inp. posix_read os g inp" and wr: "\<exists>out. posix_write os g out" for g
    using assms(1) by (simp_all add: fds_ok_def)
  show ?thesis
    unfolding StdioTunnelLocal_connected_def
  proof (rule res_ok_bind [OF chain_step [OF now assms(4)]], goal_cases)
    case (3 ps)
    obtain inp where "posix_read os (fd ps) inp" using rd by blast
    then show ?case by (rule connected_read_ok [OF _ assms(2,3,5)])
  next
    case (4 t)
    show ?case
    proof (rule res_ok_bind [OF chain_step [OF 4 assms(4)]], goal_cases)
      case (3 ps)
      obtain out where out: "posix_write os (fd ps) out" using wr by blast
      show ?case
        using connected_write_ok [OF out assms(2,3,4) _ 3(3)] assms(5) 3(1) by (simp only:)
    next
      case (4 t)
      have t: "after pa f s t" "table_ok t" "own pa f t"
        using 4 assms(4) by (auto simp: chain_def after_def intro: steps_table_ok)
      obtain out where out: "posix_write os STDOUT_FD out" using wr by blast
      show ?case
      proof (cases "f = STDOUT_FD")
        case True
        then have "t = s"
          using 4 d by (auto simp: chain_def)
        show ?thesis
          unfolding \<open>t = s\<close>
          by (rule when_take [OF assms(4)]) (use assms(5) True connected_stdout_ok [OF out assms(2,3)] in \<open>simp_all only:\<close>)
      next
        case False
        then show ?thesis
          using when_skip [OF t(1) assms(4), of "\<lambda>_. STDOUT_FD"] t(1) by (simp add: after_def)
      qed
    qed (use d fds [OF 4] in auto)
  qed simp_all
qed

lemma local_polled_ok:
  assumes "fds_ok os" "local_inv s" "table_ok s" "has_entry pa p s"
  shows "res_ok no_dangle (\<lambda>t. local_inv t \<and> poller_steps s t) (local_polled fuel os p pa s)"
proof -
  have frame: "res_ok no_dangle (\<lambda>t. local_inv t \<and> poller_steps s t) r" if "frame_ok s r" for r
    by (rule res_ok_mono [OF that])
      (use local_inv_rel [OF assms(2)] tame_no_dangle in \<open>auto simp: tun_rel_def tun_core_def\<close>)
  have pa: "pa \<in> set (addrs s)"
    using assms(4) by (auto simp: has_entry_def addrs_def)
  obtain ps where ps: "Poller_deref pa s = Inr ps"
    using deref_defined [OF pa] by blast
  show ?thesis
  proof (cases p)
    case P_Tunnel
    then have own: "own pa (fd ps) s"
      using deref_own [OF assms(3) ps] assms(4) by simp
    have "l_state s \<in> {L_PASS_THROUGH, L_HAND_SHAKE, L_CONNECTED}"
      using assms(2) by (simp add: local_inv_def lcore_def)
    then show ?thesis
      using P_Tunnel passThrough_ok [OF assms(1,2) _ assms(3) own] connected_ok [OF assms(1,2) _ assms(3) own]
      by (auto simp: local_polled_def StdioTunnelLocal_polled_def)
  next
    case P_Socks5
    then show ?thesis by (simp add: local_polled_def)
  qed (use pa in \<open>auto simp: local_polled_def intro!: frame intro: ListenSide_polled_ok ConnectionLink_polled_ok\<close>)
qed

lemma local_inv_table:
  assumes "local_inv s" "map requests es = map requests (m_polled s)"
  shows "local_inv (s\<lparr>m_orig_size := n, m_pollfds_size := z, world := w, m_index := i, m_polled := es\<rparr>)"
  using assms entry_map_requests [OF assms(2)]
  by (auto simp: local_inv_def lcore_def lbase_def attached_def awake_def wants_out_def poller_map_def)

interpretation lp: event_program "local_polled fuel os" "\<lambda>s. fds_ok os \<and> local_inv s" no_dangle for fuel os
  by unfold_locales (auto simp: local_inv_table elim!: res_ok_mono [OF local_polled_ok])

section \<open>Starting up\<close>

text \<open>Before the tunnel's own entries are registered.\<close>

definition ready :: "'w local_tunnel \<Rightarrow> bool" where
  "ready s \<longleftrightarrow> (\<forall>f. poller_map s (P_Tunnel, f) = None) \<and> table_ok s \<and> ws_inv (m_write_stream s) \<and>
     rs_inv (m_read_stream s) \<and> l_state s = L_INITIAL \<and> m_write_buffer s = SockBuffer_new \<and>
     md_buffer (m_read_buffer s) = SockBuffer_new"

lemma ready_fields [simp]:
  "ready (s\<lparr>world := w\<rparr>) = ready s" "ready (s\<lparr>g_id := i\<rparr>) = ready s" "ready (s\<lparr>m_read_fd := f\<rparr>) = ready s"
  "ready (s\<lparr>m_write_fd := f\<rparr>) = ready s" "ready (s\<lparr>m_connection_specs := cs\<rparr>) = ready s"
  "ready (s\<lparr>m_force_pipe := b\<rparr>) = ready s" "ready (s\<lparr>m_expects_pipe := b\<rparr>) = ready s"
  "ready (s\<lparr>m_daemon := b\<rparr>) = ready s" "ready (s\<lparr>m_silent := b\<rparr>) = ready s" "ready (s\<lparr>m_command := c\<rparr>) = ready s"
  "ready (s\<lparr>m_read_buffer := MagicStringDetector_setLoginPattern p (m_read_buffer s)\<rparr>) = ready s"
  "ready (s\<lparr>m_read_buffer := MagicStringDetector_setRemoteCmd p (m_read_buffer s)\<rparr>) = ready s"
  by (simp_all add: ready_def poller_map_def table_ok_def addrs_def MagicStringDetector_setLoginPattern_def
      MagicStringDetector_setRemoteCmd_def)

lemma configure_loop_ready: "ready s \<Longrightarrow> res_ok (\<lambda>_. True) (\<lambda>(_, t). ready t) (configure_loop os args n s)"
proof (induction args arbitrary: n s rule: length_induct)
  case (1 args)
  show ?case
  proof (cases args)
    case (Cons arg rest)
    have IH: "res_ok (\<lambda>_. True) (\<lambda>(_, t). ready t) (configure_loop os xs n s)"
      if "length xs \<le> length rest" "ready s" for xs n s
      using 1(1) that Cons by (simp add: less_Suc_eq_le)
    show ?thesis
      using 1(2) unfolding Cons configure_loop.simps(2) Let_def
      by (intro res_ok_if res_ok_sum res_ok_prod) (auto intro!: IH)
  qed (use 1 in simp)
qed

lemma configured_ready:
  assumes "StdioTunnelLocal_configure os args (StdioTunnelLocal_new (StdioTunnel_new os junk junk_termios j1 j2 w)) = Inr s"
  shows "ready s"
proof -
  have "ready (StdioTunnelLocal_new (StdioTunnel_new os junk junk_termios j1 j2 w))"
    by (auto simp: ready_def StdioTunnelLocal_new_def StdioTunnel_new_def Let_def tunnel.extend_def
        poller.extend_def Poller_new_def poller_map_def table_ok_def addrs_def ws_inv_new rs_inv_new
        MagicStringDetector_new_def split: prod.splits)
  then show ?thesis
    using assms configure_loop_ready [of _ os args 0]
    by (fastforce simp: StdioTunnelLocal_configure_def exn_simps split: if_splits dest: res_ok_InrD)
qed

text \<open>
  New descriptors are none of those in use: neither the two standard ones nor, for the second of
  two calls, those of the first.
\<close>

definition fresh_fds :: "('w, 'o) proc_posix_scheme \<Rightarrow> bool" where
  "fresh_fds os \<longleftrightarrow>
     (\<forall>w r0 r1 v w0 w1 u. sys_pipe os w = (Inr (r0, r1), v) \<longrightarrow> sys_pipe os v = (Inr (w0, w1), u) \<longrightarrow>
        distinct [r0, w1, STDIN_FD, STDOUT_FD]) \<and>
     (\<forall>t w pid m v f u. sys_forkpty os t w = (Inr (pid, m), v) \<longrightarrow> sys_dup os m v = (Inr f, u) \<longrightarrow>
        distinct [m, f, STDIN_FD, STDOUT_FD])"

definition apart :: "'w local_tunnel \<Rightarrow> bool" where
  "apart s \<longleftrightarrow> distinct [m_read_fd s, m_write_fd s, STDIN_FD, STDOUT_FD]"

lemma ready_rel: "ready s \<Longrightarrow> tun_rel s t \<Longrightarrow> ready t"
  using tun_core_table_ok [of s t] more_fields [of t s] by (auto simp: ready_def tun_rel_def tun_core_def)

lemma create_connections_ok:
  "ready s \<and> apart s \<Longrightarrow> res_ok tame (\<lambda>t. ready t \<and> apart t) (create_connections os sps s)"
proof (induction sps arbitrary: s)
  case (Cons sp sps)
  let ?s = "s\<lparr>g_id := g_id s + 1\<rparr>"
  have rest: "res_ok tame (\<lambda>t. ready t \<and> apart t) (create_connections os sps t)" if "tun_rel ?s t" for t
    using Cons.prems that ready_rel [of ?s t] more_fields [of t ?s] by (intro Cons.IH) (simp add: tun_rel_def apart_def)
  show ?case
    by (simp only: create_connections.simps, rule frame_bind_pair [OF tun_rel_refl CreateConnection_ok],
        simp only: prod.case, intro res_ok_option res_ok_bind_value)
      (auto intro!: rest deref_tame elim: tun_rel_trans [OF _ assign_connection_ok])
qed simp

lemma local_registered:
  assumes "ready s" "apart s"
  shows "res_ok tame (\<lambda>t. local_inv t \<and> table_ok t)
    (iterE 4 (Poller_addPolled (\<lambda>_. StdioTunnelLocal_setPollfd) P_Tunnel)
       (s\<lparr>m_writer_attached := True, m_writer_fd := m_write_fd s\<rparr>))"
  using assms
  by (simp add: eval_nat_numeral Poller_addPolled_def StdioTunnelLocal_setPollfd_def ready_def)
    (auto simp: local_inv_def lcore_def lbase_def attached_def poller_map_def entry_map_append table_ok_def addrs_def
      less_Suc_eq unsentData_iff apart_def)

lemma start_child_ok:
  assumes "fresh_fds os" "ready s"
  shows "res_ok tame (\<lambda>(pid, t). ready t \<and> (pid \<noteq> 0 \<longrightarrow> apart t)) (start_child os s)"
proof -
  have pipe: "distinct [r, wr, STDIN_FD, STDOUT_FD] \<and> 0 < pid"
    if "forkpipe os w = (Inr (pid, Some (r, wr)), v)" for w pid r wr v
    using that assms(1)
    by (auto simp: forkpipe_def fresh_fds_def split: prod.splits sum.splits if_splits)
  have child: "pid = 0" if "forkpipe os w = (Inr (pid, None), v)" for w pid v
    using that by (auto simp: forkpipe_def split: prod.splits sum.splits if_splits)
  show ?thesis
  proof (cases "m_force_pipe s")
    case True
    obtain x v where x: "forkpipe os (world s) = (x, v)" by fastforce
    consider (err) e where "x = Inl e" | (child) pid where "x = Inr (pid, None)"
      | (parent) pid r wr where "x = Inr (pid, Some (r, wr))"
      by (metis obj_sumE option.exhaust prod.exhaust)
    then show ?thesis
      by cases (use True x pipe [of "world s"] child [of "world s"] assms(2) in
          \<open>auto simp: start_child_def syscall_def apart_def\<close>)
  next
    case False
    define t where "t = (if m_expects_pipe s \<and> m_is_terminal s then Some (cfmakeraw (m_termios s))
      else if m_is_terminal s then Some (m_termios s) else None)"
    obtain x v where x: "sys_forkpty os t (world s) = (x, v)" by fastforce
    consider (err) e where "x = Inl e" | (both) pid m where "x = Inr (pid, m)"
      by (metis obj_sumE prod.exhaust)
    then show ?thesis
    proof cases
      case both
      obtain y u where y: "sys_dup os m v = (y, u)" by fastforce
      have "distinct [m, f, STDIN_FD, STDOUT_FD]" if "y = Inr f" for f
        using assms(1) x y both that unfolding fresh_fds_def by blast
      then show ?thesis
        using False x y both assms(2)
        by (cases y) (auto simp: start_child_def syscall_def apart_def Let_def simp flip: t_def)
    qed (use False x in \<open>simp add: start_child_def syscall_def Let_def flip: t_def\<close>)
  qed
qed

lemma local_callback_ok:
  "local_inv s \<Longrightarrow> local_inv (StdioTunnel_pollCallback os s)"
  "table_ok t \<Longrightarrow> table_ok (StdioTunnel_pollCallback os t)"
  by (auto simp: StdioTunnel_pollCallback_def Poller_requestFinish_def table_ok_def addrs_def local_inv_def lcore_def
      lbase_def attached_def awake_def wants_out_def poller_map_def)

lemma local_cleanup_ok:
  assumes "local_inv s" "table_ok s"
  shows "res_ok no_dangle (\<lambda>t. local_inv t \<and> table_ok t) (tunnel_cleanup os p ps s)"
  by (rule res_ok_mono [OF cleanup_ok])
    (use assms local_inv_rel tun_core_table_ok tun_rel_core tame_no_dangle in blast)+

lemma local_start_ok:
  assumes "posix_poll os" "fds_ok os" "fresh_fds os" "ready s"
  shows "res_ok no_dangle (\<lambda>t. local_inv t \<and> table_ok t) (StdioTunnelLocal_start fuel rounds os s)"
proof -
  let ?add = "Poller_addPolled (\<lambda>_. StdioTunnelLocal_setPollfd) P_Tunnel"
  let ?run = "Poller_start rounds os (local_polled fuel os) (StdioTunnel_pollCallback os) (tunnel_cleanup os)"
  have run: "res_ok no_dangle (\<lambda>t. local_inv t \<and> table_ok t) (?run t)" if "local_inv t \<and> table_ok t" for t
  proof (rule res_ok_mono)
    show "res_ok (\<lambda>e. no_dangle e \<or> e = OutOfFuel) (\<lambda>t. (fds_ok os \<and> local_inv t) \<and> table_ok t) (?run t)"
      using that assms(2) local_callback_ok
      by (intro lp.start_ok [OF assms(1)]) (auto intro: res_ok_mono [OF local_cleanup_ok])
  qed auto
  have reg: "res_ok no_dangle (\<lambda>t. local_inv t \<and> table_ok t)
      (bindE (iterE 4 ?add (t\<lparr>m_writer_attached := True, m_writer_fd := m_write_fd t\<rparr>)) ?run)"
    if "ready t \<and> apart t" for t
    by (rule res_ok_bind [OF res_ok_mono [OF local_registered run]]) (use that tame_no_dangle in auto)
  have nonblock: "res_ok no_dangle (\<lambda>t. ready t \<and> apart t) (all_nonblocking os fs t)"
    if "ready t \<and> apart t" for t fs
    by (rule res_ok_mono [OF all_nonblocking_ok]) (use that tame_no_dangle in \<open>auto simp: apart_def\<close>)
  have parent: "res_ok no_dangle (\<lambda>t. local_inv t \<and> table_ok t)
      (bindE (create_connections os (m_connection_specs t) t) (\<lambda>s.
       bindE (all_nonblocking os [m_read_fd s, m_write_fd s, STDIN_FD, STDOUT_FD] s) (\<lambda>s.
         bindE (iterE 4 ?add (s\<lparr>m_writer_attached := True, m_writer_fd := m_write_fd s\<rparr>)) ?run)))"
    if "ready t \<and> apart t" for t
    by (rule res_ok_bind [OF res_ok_mono [OF create_connections_ok [OF that]]], assumption, erule tame_no_dangle,
        rule res_ok_bind [OF nonblock], assumption, rule reg)
  show ?thesis
    unfolding StdioTunnelLocal_start_def Let_def
    by (rule res_ok_bind [OF res_ok_mono [OF start_child_ok [OF assms(3,4)]]], assumption, erule tame_no_dangle,
        simp only: split_paired_all prod.case, intro res_ok_if parent res_ok_option)
      (auto simp: syscall_def no_dangle_def split: prod.splits bool.splits)
qed

section \<open>Properties\<close>

text \<open>C9: The local side, constructed, configured from any command line and started on a system whose
  descriptors behave as byte streams and whose new descriptors are not in use already, runs any
  number of rounds without using a reference to an entry that has been erased, although the
  announcement of the remote side makes a handler remove an entry in the middle of a read. At the
  end of every run output of the command not yet written has \<open>POLLOUT\<close> requested for standard output; before the
  handshake input not yet passed on has it requested for the pipe to the command, and from the handshake on packets
  not yet sent have. Nothing is said of a packet that a client queues before the handshake:
  \<open>passThrough\<close> may withdraw \<open>POLLOUT\<close> from the pipe while that packet waits, so that it goes out with the first
  packet of the handshake.\<close>

theorem local_start_safe:
  assumes "posix_poll os" "fds_ok os" "fresh_fds os"
    and "StdioTunnelLocal_configure os args (StdioTunnelLocal_new (StdioTunnel_new os junk junk_termios j1 j2 w)) = Inr s"
  shows "case StdioTunnelLocal_start fuel rounds os s of
      Inl e \<Rightarrow> e \<noteq> Undefined DanglingPollfd
    | Inr t \<Rightarrow>
        (SockBuffer_unsentData (md_buffer (m_read_buffer t)) \<longrightarrow> wants_out t STDOUT_FD) \<and>
        (if l_state t = L_PASS_THROUGH then SockBuffer_unsentData (m_write_buffer t) \<longrightarrow> wants_out t (m_write_fd t)
         else WriteStream_pendingWrite (m_write_stream t) \<longrightarrow> wants_out t (m_write_fd t))"
  using local_start_ok [OF assms(1-3) configured_ready [OF assms(4)], of fuel rounds]
  by (auto simp: res_ok_def no_dangle_def local_inv_def lcore_def lbase_def awake_def split: sum.splits)

text \<open>
  A system on which a signal arrives once all input has been read, and a run on it: one round in
  which a client, standard input and the command are read from.
\<close>

definition signal_os :: "pipe_world proc_posix" where
  "signal_os = (pipe_proc 2)\<lparr>sys_signaled := \<lambda>w. pw_in w = []\<rparr>"

definition demo_local :: "pipe_world local_tunnel res" where
  "demo_local = StdioTunnelLocal_configure signal_os [''-L7:h:9'', ''c'']
     (StdioTunnelLocal_new (StdioTunnel_new signal_os False \<lparr>c_iflag = 0, c_oflag = 0, c_lflag = 0, c_cflag = 0\<rparr> 0 0
        (demo_world [65, 66, 67])))"

lemma signal_os_spec: "posix_poll signal_os" "fds_ok signal_os" "fresh_fds signal_os"
proof -
  have os: "sys_read signal_os = sys_read (pipe_proc 2)" "sys_write signal_os = sys_write (pipe_proc 2)"
    "sys_poll signal_os = sys_poll (pipe_proc 2)"
    by (simp_all add: signal_os_def)
  show "posix_poll signal_os"
    using pipe_proc_spec(3) [of 2] by (simp add: posix_poll_def os)
  have "posix_read signal_os f pw_in" "posix_write signal_os f pw_out" for f
    using pipe_proc_spec(1,2) [of 2 f] by (simp_all add: posix_read_def posix_write_def os)
  then show "fds_ok signal_os"
    unfolding fds_ok_def by blast
  show "fresh_fds signal_os"
    by (simp add: fresh_fds_def signal_os_def pipe_proc_def pipe_net_def net_posix.extend_def posix.extend_def
        STDIN_FD_def STDOUT_FD_def)
qed

lemma demo_parse: "parseConnection CONNECT ''7:h:9'' =
    Inr \<lparr>m_connection_type = CONNECT, m_connect_host = ''h'', m_connect_port = 9, m_listen_port = 7, m_flags = 0\<rparr>"
  by code_simp

text \<open>Running the demonstration by rewriting.\<close>

lemma demo_consts: "POLLIN \<noteq> 0" "POLLOUT \<noteq> 0" "\<not> length m_magic_string \<le> Suc 0"
  by (simp_all add: poll_flags m_magic_string_def)

lemmas demo_system = signal_os_def pipe_proc_def pipe_net_def pipe_os_def net_posix.extend_def posix.extend_def
  syscall_def demo_world_def STDIN_FD_def STDOUT_FD_def

lemmas demo_setup = demo_local_def StdioTunnelLocal_configure_def configure_loop.simps is_option_def string_at_def
  StdioTunnelLocal_new_def StdioTunnel_new_def tunnel.extend_def poller.extend_def ConnectionSpec_isSocks5_def
  Poller_new_def StdioTunnelLocal_start_def start_child_def TunnelConnection_CreateConnection_def
  ListenSide_initialize_def ListenSide_new_def put_connection_def deref_connection_def assign_connection_def
  Poller_addPolled_def ListenSide_setPollfd_def StdioTunnelLocal_setPollfd_def CONNECT_def LISTEN_def

lemmas demo_round = Poller_start_def Poller_loop.simps Poller_pollOnce_def Poller_growSize.simps Poller_INITIAL_SIZE_def
  Poller_dispatch.simps local_polled_def ListenSide_polled_def deref_connection_def put_connection_def new_link_def
  ConnectionLink_new_def put_link_def assign_link_def put_header_def put_short_def CustomWriteStream_send_def
  Poller_setEvents_def writing_def StdioTunnelLocal_polled_def StdioTunnelLocal_passThrough_def when_fd_def
  Poller_deref_def read_from_stdin_def SockBuffer_readData_def SockBuffer_read1_def SockBuffer_processReadData_def
  SockBuffer_BUFFER_SIZE_def SockBuffer_unsentData_def SockBuffer_new_def read_from_pipe_def detector_hook_def
  MagicStringDetector_new_def MagicStringDetector_login_def StdioTunnel_pollCallback_def Poller_requestFinish_def
  tunnel_cleanup_def ListenSide_cleanup_def on_world_def

theorem local_start_safe_witness:
  "case bindE demo_local (StdioTunnelLocal_start 5 2 signal_os) of
      Inl e \<Rightarrow> False
    | Inr t \<Rightarrow> l_state t = L_PASS_THROUGH \<and> SockBuffer_unsentData (m_write_buffer t) \<and> wants_out t (m_write_fd t) \<and>
        SockBuffer_unsentData (md_buffer (m_read_buffer t)) \<and> wants_out t STDOUT_FD"
proof -
  have run: "case bindE demo_local (StdioTunnelLocal_start 5 2 signal_os) of
      Inl e \<Rightarrow> False
    | Inr t \<Rightarrow> l_state t = L_PASS_THROUGH \<and> SockBuffer_unsentData (m_write_buffer t) \<and>
        SockBuffer_unsentData (md_buffer (m_read_buffer t))"
    using demo_parse
    by (simp add: demo_system demo_setup eval_nat_numeral Let_def)
      (simp add: demo_system demo_round demo_consts Let_def)
  obtain s where s: "demo_local = Inr s"
  proof (cases demo_local)
    case (Inl e)
    show ?thesis
      using run unfolding Inl bindE_Inl by simp
  qed
  show ?thesis
    using run local_start_safe [OF signal_os_spec s [unfolded demo_local_def], of 5 2]
    by (auto simp: s split: sum.splits)
qed

end
