(* ===== verification/Diagnostics.thy ===== *)
theory Diagnostics
  imports Tunnel_Links Terminal
begin

text \<open>
  The diagnostics: the stack of scope names (\<open>Trace.cpp\<close>), the exception class that prints
  itself and the stack when it is constructed (\<open>MyException.cpp\<close>), and the line end for
  standard error (\<open>StderrEndl.h\<close>). The handlers of the other theories carry the message of an
  exception only; here is the text that goes with it.
\<close>

section \<open>Line ends\<close>

definition LF :: char where "LF = CHR 0x0A"
definition CR :: char where "CR = CHR 0x0D"

text \<open>The argument is what \<open>tcgetattr\<close> says of standard error: \<open>None\<close> when it fails.\<close>

definition cerr_endl :: "termios option \<Rightarrow> string" where
  "cerr_endl tc =
     (case tc of
        None \<Rightarrow> [LF]
      | Some termios_now \<Rightarrow> if c_oflag termios_now AND OPOST \<noteq> 0 then [LF] else [CR, LF])"

section \<open>The stack of scopes\<close>

text \<open>The two static variables of \<open>Trace.cpp\<close>, and the text written to standard error.\<close>

record diagnostics =
  scope_stack :: "string list"
  print_it :: bool
  cerr_text :: string

definition cerr_line :: "termios option \<Rightarrow> string \<Rightarrow> diagnostics \<Rightarrow> diagnostics" where
  "cerr_line tc m d = d\<lparr>cerr_text := cerr_text d @ m @ cerr_endl tc\<rparr>"

definition Trace_new :: "termios option \<Rightarrow> string \<Rightarrow> diagnostics \<Rightarrow> diagnostics" where
  "Trace_new tc s d =
     (let d = d\<lparr>scope_stack := s # scope_stack d\<rparr>
      in if print_it d then cerr_line tc (''into '' @ s) d else d)"

definition Trace_destroy :: "termios option \<Rightarrow> diagnostics \<Rightarrow> diagnostics res" where
  "Trace_destroy tc d =
     (case scope_stack d of
        [] \<Rightarrow> Inl (Undefined EmptyDeque)
      | s # rest \<Rightarrow>
          Inr ((if print_it d then cerr_line tc (''out of '' @ s) d else d)\<lparr>scope_stack := rest\<rparr>))"

definition Trace_setPrint :: "bool \<Rightarrow> diagnostics \<Rightarrow> bool \<times> diagnostics" where
  "Trace_setPrint p d = (print_it d, d\<lparr>print_it := p\<rparr>)"

definition Trace_getTrace :: "termios option \<Rightarrow> diagnostics \<Rightarrow> diagnostics" where
  "Trace_getTrace tc d = fold (\<lambda>i. cerr_line tc (''  from '' @ i)) (scope_stack d) d"

section \<open>Exceptions\<close>

record my_exception =
  m_msg :: string

text \<open>The constructor the others delegate to; the text of the stream comes first.\<close>

definition MyException_new ::
  "termios option \<Rightarrow> string \<Rightarrow> string \<Rightarrow> int \<Rightarrow> diagnostics \<Rightarrow> my_exception \<times> diagnostics" where
  "MyException_new tc msg_stream file line d =
     (let m = msg_stream @ '' at '' @ file @ '':'' @ show_int line
      in (\<lparr>m_msg = m\<rparr>, Trace_getTrace tc (cerr_line tc m d)))"

text \<open>\<open>MY_EXCEPTION_ERRNO\<close>; \<open>strerror\<close> is the library's.\<close>

definition MyException_new_errno ::
  "termios option \<Rightarrow> (int \<Rightarrow> string) \<Rightarrow> int \<Rightarrow> string \<Rightarrow> int \<Rightarrow> diagnostics \<Rightarrow> my_exception \<times> diagnostics" where
  "MyException_new_errno tc strerror err file line d =
     MyException_new tc
       (''Error: '' @ show_int err @ cerr_endl tc @
        (if 1 \<le> err \<and> err < 500 then strerror err else '' errno not set'')) file line d"

definition MyException_what :: "my_exception \<Rightarrow> string" where
  "MyException_what e = m_msg e"

section \<open>Scopes and exceptions together\<close>

text \<open>
  How the sources use the stack: a \<open>Trace\<close> object lives for one block, its destructor runs on
  the way out, with or without an exception in flight. \<open>Throw\<close> is a \<open>throw MY_EXCEPTION(msg)\<close>
  with its file and line.
\<close>

datatype scoped = Scope string "scoped list" | Throw string string int

fun run_scoped :: "termios option \<Rightarrow> scoped \<Rightarrow> diagnostics \<Rightarrow> (my_exception option \<times> diagnostics) res"
  and run_block :: "termios option \<Rightarrow> scoped list \<Rightarrow> diagnostics \<Rightarrow> (my_exception option \<times> diagnostics) res"
  where
  "run_scoped tc (Scope s body) d =
     bindE (run_block tc body (Trace_new tc s d)) (\<lambda>(x, d).
     bindE (Trace_destroy tc d) (\<lambda>d. Inr (x, d)))"
| "run_scoped tc (Throw m file line) d =
     (case MyException_new tc m file line d of (x, d) \<Rightarrow> Inr (Some x, d))"
| "run_block tc [] d = Inr (None, d)"
| "run_block tc (b # bs) d =
     bindE (run_scoped tc b d) (\<lambda>(x, d).
       case x of None \<Rightarrow> run_block tc bs d | Some _ \<Rightarrow> Inr (x, d))"

text \<open>The first exception of a block: its text, and the scopes open there, innermost first.\<close>

fun thrown :: "scoped \<Rightarrow> string list \<Rightarrow> (string \<times> string list) option"
  and first_thrown :: "scoped list \<Rightarrow> string list \<Rightarrow> (string \<times> string list) option"
  where
  "thrown (Scope s body) open = first_thrown body (s # open)"
| "thrown (Throw m file line) open = Some (m @ '' at '' @ file @ '':'' @ show_int line, open)"
| "first_thrown [] open = None"
| "first_thrown (b # bs) open = (case thrown b open of None \<Rightarrow> first_thrown bs open | Some t \<Rightarrow> Some t)"

text \<open>What a report of such an exception is.\<close>

definition report :: "termios option \<Rightarrow> (string \<times> string list) option \<Rightarrow> string" where
  "report tc t =
     (case t of
        None \<Rightarrow> []
      | Some (m, open) \<Rightarrow> m @ cerr_endl tc @ concat (map (\<lambda>i. ''  from '' @ i @ cerr_endl tc) open))"

lemma cerr_line_fields [simp]:
  "scope_stack (cerr_line tc m d) = scope_stack d" "print_it (cerr_line tc m d) = print_it d"
  by (simp_all add: cerr_line_def)

lemma Trace_new_fields [simp]:
  "scope_stack (Trace_new tc s d) = s # scope_stack d" "print_it (Trace_new tc s d) = print_it d"
  by (simp_all add: Trace_new_def Let_def)

lemma getTrace_eq:
  "Trace_getTrace tc d =
     d\<lparr>cerr_text := cerr_text d @ concat (map (\<lambda>i. ''  from '' @ i @ cerr_endl tc) (scope_stack d))\<rparr>"
proof -
  have "fold (\<lambda>i. cerr_line tc (''  from '' @ i)) ss d =
      d\<lparr>cerr_text := cerr_text d @ concat (map (\<lambda>i. ''  from '' @ i @ cerr_endl tc) ss)\<rparr>" for ss
    by (induction ss arbitrary: d) (simp_all add: cerr_line_def)
  then show ?thesis by (simp add: Trace_getTrace_def)
qed

lemma exception_eq:
  "MyException_new tc m file line d =
     (\<lparr>m_msg = m @ '' at '' @ file @ '':'' @ show_int line\<rparr>,
      d\<lparr>cerr_text := cerr_text d @ report tc (thrown (Throw m file line) (scope_stack d))\<rparr>)"
  by (simp add: MyException_new_def getTrace_eq report_def cerr_line_def)

text \<open>With printing off: the stack is back where it was and only the report has been written.\<close>

lemma run_scoped_quiet:
  "\<not> print_it d \<Longrightarrow> run_scoped tc b d = Inr
     (map_option (\<lambda>(m, _). \<lparr>m_msg = m\<rparr>) (thrown b (scope_stack d)),
      d\<lparr>cerr_text := cerr_text d @ report tc (thrown b (scope_stack d))\<rparr>)"
  "\<not> print_it d \<Longrightarrow> run_block tc bs d = Inr
     (map_option (\<lambda>(m, _). \<lparr>m_msg = m\<rparr>) (first_thrown bs (scope_stack d)),
      d\<lparr>cerr_text := cerr_text d @ report tc (first_thrown bs (scope_stack d))\<rparr>)"
proof (induction tc b d and tc bs d rule: run_scoped_run_block.induct)
  case (1 tc s body d)
  then show ?case
    by (simp add: Trace_new_def Trace_destroy_def)
next
  case (2 tc m f l d)
  then show ?case
    by (simp add: exception_eq)
next
  case (3 tc d)
  then show ?case by (simp add: report_def)
next
  case (4 tc b bs d)
  then show ?case
    by (cases "thrown b (scope_stack d)") (simp_all add: report_def)
qed

text \<open>
  What is written besides with printing on: a line for every scope that is entered and for every scope that
  is left before the exception, and after its report a line for each scope it leaves.
\<close>

definition into_line :: "termios option \<Rightarrow> string \<Rightarrow> string" where
  "into_line tc s = ''into '' @ s @ cerr_endl tc"

definition out_line :: "termios option \<Rightarrow> string \<Rightarrow> string" where
  "out_line tc s = ''out of '' @ s @ cerr_endl tc"

fun until_throw :: "termios option \<Rightarrow> scoped \<Rightarrow> string list"
  and until_throws :: "termios option \<Rightarrow> scoped list \<Rightarrow> string list"
  where
  "until_throw tc (Scope s body) =
     into_line tc s # until_throws tc body @ (if first_thrown body [] = None then [out_line tc s] else [])"
| "until_throw tc (Throw m file line) = []"
| "until_throws tc [] = []"
| "until_throws tc (b # bs) = until_throw tc b @ (if thrown b [] = None then until_throws tc bs else [])"

text \<open>The scopes open at the exception that were not open when the block began.\<close>

fun left_open :: "(string \<times> string list) option \<Rightarrow> string list \<Rightarrow> string list" where
  "left_open None stack = []"
| "left_open (Some (m, open)) stack = take (length open - length stack) open"

lemma thrown_append:
  "thrown b (xs @ st) = map_option (\<lambda>(m, ss). (m, ss @ st)) (thrown b xs)"
  "first_thrown bs (xs @ st) = map_option (\<lambda>(m, ss). (m, ss @ st)) (first_thrown bs xs)"
proof (induction b xs and bs xs rule: thrown_first_thrown.induct)
  case (4 b bs xs)
  then show ?case
    by (cases "thrown b xs") auto
qed simp_all

lemmas thrown_stack = thrown_append(1) [where xs = "[]", simplified] thrown_append(2) [where xs = "[]", simplified]

lemma left_open_scope:
  "left_open (first_thrown body (s # st)) (s # st) @ (if first_thrown body (s # st) = None then [] else [s]) =
     left_open (first_thrown body (s # st)) st"
  using thrown_stack(2) [of body "s # st"] by (cases "first_thrown body []") auto

lemma thrown_None: "thrown b st = None \<longleftrightarrow> thrown b [] = None" "first_thrown bs st = None \<longleftrightarrow> first_thrown bs [] = None"
  by (simp_all add: thrown_stack(1) [of b st] thrown_stack(2) [of bs st])

lemma traced_scope:
  "print_it d \<Longrightarrow> Trace_new tc s d = d\<lparr>scope_stack := s # scope_stack d, cerr_text := cerr_text d @ into_line tc s\<rparr>"
  "print_it d \<Longrightarrow> scope_stack d = s # rest \<Longrightarrow>
     Trace_destroy tc d = Inr (d\<lparr>scope_stack := rest, cerr_text := cerr_text d @ out_line tc s\<rparr>)"
  by (simp_all add: Trace_new_def Trace_destroy_def cerr_line_def into_line_def out_line_def)

lemma run_scoped_traced:
  "print_it d \<Longrightarrow> run_scoped tc b d = Inr
     (map_option (\<lambda>(m, _). \<lparr>m_msg = m\<rparr>) (thrown b (scope_stack d)),
      d\<lparr>cerr_text := cerr_text d @ concat (until_throw tc b) @ report tc (thrown b (scope_stack d)) @
        concat (map (out_line tc) (left_open (thrown b (scope_stack d)) (scope_stack d)))\<rparr>)"
  "print_it d \<Longrightarrow> run_block tc bs d = Inr
     (map_option (\<lambda>(m, _). \<lparr>m_msg = m\<rparr>) (first_thrown bs (scope_stack d)),
      d\<lparr>cerr_text := cerr_text d @ concat (until_throws tc bs) @ report tc (first_thrown bs (scope_stack d)) @
        concat (map (out_line tc) (left_open (first_thrown bs (scope_stack d)) (scope_stack d)))\<rparr>)"
proof (induction tc b d and tc bs d rule: run_scoped_run_block.induct)
  case (1 tc s body d)
  let ?t = "first_thrown body (s # scope_stack d)"
  have left: "concat (map (out_line tc) (left_open ?t (scope_stack d))) =
      concat (map (out_line tc) (left_open ?t (s # scope_stack d))) @ (if ?t = None then [] else out_line tc s)"
    unfolding left_open_scope [symmetric] by simp
  have none: "first_thrown body [] = None \<longleftrightarrow> ?t = None"
    using thrown_None(2) [of body "s # scope_stack d"] ..
  show ?case
  proof (cases ?t)
    case None
    with 1 none show ?thesis by (simp add: traced_scope report_def)
  next
    case (Some a)
    then have "until_throw tc (Scope s body) = into_line tc s # until_throws tc body"
      using none by simp
    with 1 left Some show ?thesis
      by (simp add: traced_scope del: until_throw.simps)
  qed
next
  case (2 tc m f l d)
  then show ?case
    by (simp add: exception_eq)
next
  case (3 tc d)
  then show ?case by (simp add: report_def)
next
  case (4 tc b bs d)
  then show ?case
    using thrown_None(1) [of b "scope_stack d"]
    by (cases "thrown b (scope_stack d)") (auto simp: report_def)
qed

text \<open>With printing on or off the stack is popped as often as it was pushed, and never when empty.\<close>

lemma run_scoped_balanced:
  "\<exists>x d'. run_scoped tc b d = Inr (x, d') \<and> scope_stack d' = scope_stack d \<and> print_it d' = print_it d \<and>
     map_option MyException_what x = map_option fst (thrown b (scope_stack d))"
  "\<exists>x d'. run_block tc bs d = Inr (x, d') \<and> scope_stack d' = scope_stack d \<and> print_it d' = print_it d \<and>
     map_option MyException_what x = map_option fst (first_thrown bs (scope_stack d))"
proof (induction tc b d and tc bs d rule: run_scoped_run_block.induct)
  case (1 tc s body d)
  then show ?case
    by (auto simp: Trace_destroy_def)
next
  case (2 tc m f l d)
  then show ?case
    by (simp add: exception_eq MyException_what_def)
next
  case (4 tc b bs d)
  obtain x d' where d': "run_scoped tc b d = Inr (x, d')" "scope_stack d' = scope_stack d" "print_it d' = print_it d"
    "map_option MyException_what x = map_option fst (thrown b (scope_stack d))"
    using 4(1) by blast
  then show ?case
    using 4(2) [of x d'] by (cases x; cases "thrown b (scope_stack d)") auto
qed simp

section \<open>Properties\<close>

text \<open>C27: Whatever scopes a block opens and wherever in it an exception is thrown, the stack of scope
  names is popped exactly as often as it is pushed and never when it is empty; the exception that
  leaves the block is the first one thrown, with its file and line in its text.\<close>

theorem scopes_balanced:
  "\<exists>x d'. run_block tc bs d = Inr (x, d') \<and> scope_stack d' = scope_stack d \<and>
     map_option MyException_what x = map_option fst (first_thrown bs (scope_stack d))"
  using run_scoped_balanced(2) by blast

text \<open>C38: All that a block writes to standard error. With the trace switched off it is nothing but the report
  of the exception that leaves the block: its text, then every scope open where it was thrown, innermost
  first. With the trace switched on, that report stands between a line for every scope entered or left before the
  exception, in the order of events, and a line for every scope the exception leaves, innermost first.\<close>

theorem report_shows_open_scopes:
  "\<exists>x d'. run_block tc bs d = Inr (x, d') \<and>
     cerr_text d' = cerr_text d @
       (if print_it d
        then concat (until_throws tc bs) @ report tc (first_thrown bs (scope_stack d)) @
          concat (map (out_line tc) (left_open (first_thrown bs (scope_stack d)) (scope_stack d)))
        else report tc (first_thrown bs (scope_stack d)))"
  using run_scoped_quiet(2) [of d tc bs] run_scoped_traced(2) [of d tc bs] by (cases "print_it d") auto

text \<open>What this says of an exception two scopes deep, with the trace off and on.\<close>

theorem report_shows_open_scopes_witness:
  "\<forall>p. \<exists>x d'. run_block None [Scope ''main'' [Scope ''f'' [], Scope ''g'' [Throw ''bad'' ''x.cpp'' 7]]]
      \<lparr>scope_stack = [], print_it = p, cerr_text = []\<rparr> = Inr (x, d') \<and>
     cerr_text d' = (if p then ''into main'' @ [LF] @ ''into f'' @ [LF] @ ''out of f'' @ [LF] @ ''into g'' @ [LF] else []) @
       ''bad at x.cpp:7'' @ [LF] @ ''  from g'' @ [LF] @ ''  from main'' @ [LF] @
       (if p then ''out of g'' @ [LF] @ ''out of main'' @ [LF] else [])"
proof
  fix p
  let ?bs = "[Scope ''main'' [Scope ''f'' [], Scope ''g'' [Throw ''bad'' ''x.cpp'' 7]]]"
  have "first_thrown ?bs [] = Some (''bad at x.cpp:7'', [''g'', ''main''])"
    "report None (Some (''bad at x.cpp:7'', [''g'', ''main''])) = ''bad at x.cpp:7'' @ [LF] @ ''  from g'' @ [LF] @ ''  from main'' @ [LF]"
    "concat (until_throws None ?bs) = ''into main'' @ [LF] @ ''into f'' @ [LF] @ ''out of f'' @ [LF] @ ''into g'' @ [LF]"
    "concat (map (out_line None) (left_open (Some (''bad at x.cpp:7'', [''g'', ''main''])) [])) = ''out of g'' @ [LF] @ ''out of main'' @ [LF]"
    by code_simp+
  note run = this
  show "\<exists>x d'. run_block None ?bs \<lparr>scope_stack = [], print_it = p, cerr_text = []\<rparr> = Inr (x, d') \<and>
     cerr_text d' = (if p then ''into main'' @ [LF] @ ''into f'' @ [LF] @ ''out of f'' @ [LF] @ ''into g'' @ [LF] else []) @
       ''bad at x.cpp:7'' @ [LF] @ ''  from g'' @ [LF] @ ''  from main'' @ [LF] @
       (if p then ''out of g'' @ [LF] @ ''out of main'' @ [LF] else [])"
    using report_shows_open_scopes [of None ?bs "\<lparr>scope_stack = [], print_it = p, cerr_text = []\<rparr>"]
    by (cases p) (simp_all only: diagnostics.simps run if_True if_False append_Nil append_Nil2 append_assoc)
qed

end
