(* ===== verification/Link_Protocol.thy ===== *)
theory Link_Protocol
  imports Tunnel_Prelude
begin

text \<open>
  The protocol of one link, as both sides of a connection run it (\<open>TunnelConnection\<close>,
  \<open>ListenSide\<close>, \<open>ConnectSide\<close> in \<open>stdio_tunnel/StdioTunnel.cpp\<close>): an abstract
  specification of the messages and of what each end does with them, and the system of two ends and
  two ordered channels. \<open>Link_Refinement\<close> shows that the handlers implement it.
\<close>

section \<open>Messages and ends\<close>

text \<open>The flag of a data message asks for an acknowledgement.\<close>

datatype msg = MCreate | MSuccess | MFailure | MData bool bytes | MAck | MClose

text \<open>
  An end: not there (never created, or erased), waiting for the answer to its request, open with the
  flag that says whether its last data has been acknowledged, or closing.
\<close>

datatype endpoint = Gone | Waiting | Open bool | Closing

text \<open>What an end does with a message: its next state, the messages it sends, the data it takes.\<close>

fun link_recv :: "msg \<Rightarrow> endpoint \<Rightarrow> endpoint \<times> msg list \<times> bytes" where
  "link_recv (MData w bs) (Open k) = (Open k, if w then [MAck] else [], bs)"
| "link_recv MAck (Open k) = (Open True, [], [])"
| "link_recv MClose (Open k) = (Gone, [MClose], [])"
| "link_recv MClose Closing = (Gone, [], [])"
| "link_recv (MData w bs) Waiting = (Waiting, if w then [MAck] else [], bs)"
| "link_recv MClose Waiting = (Gone, [MClose], [])"
| "link_recv m e = (e, [], [])"

text \<open>The listening end throws when it does not know the link.\<close>

fun listen_recv :: "msg \<Rightarrow> endpoint \<Rightarrow> (endpoint \<times> msg list \<times> bytes) option" where
  "listen_recv m Gone = None"
| "listen_recv MSuccess Waiting = Some (Open True, [], [])"
| "listen_recv MFailure e = Some (Gone, [], [])"
| "listen_recv m e = Some (link_recv m e)"

text \<open>The connecting end tries to connect, with the given outcome, when it is asked to.\<close>

fun connect_recv :: "bool \<Rightarrow> msg \<Rightarrow> endpoint \<Rightarrow> endpoint \<times> msg list \<times> bytes" where
  "connect_recv ok MCreate e = (if ok then (Open True, [MSuccess], []) else (e, [MFailure], []))"
| "connect_recv ok m e = link_recv m e"

section \<open>The system\<close>

text \<open>
  The listening and the connecting end, the channel from each to the other, and, to speak about the
  data, what each has sent and what each has taken.
\<close>

record link_sys =
  le :: endpoint
  ce :: endpoint
  lc :: "msg list"
  cl :: "msg list"
  l_sent :: bytes
  c_got :: bytes
  c_sent :: bytes
  l_got :: bytes

definition link_init :: link_sys where
  "link_init = \<lparr>le = Waiting, ce = Gone, lc = [MCreate], cl = [], l_sent = [], c_got = [], c_sent = [], l_got = []\<rparr>"

text \<open>The arrival of the first message on a channel.\<close>

inductive link_deliver :: "link_sys \<Rightarrow> link_sys \<Rightarrow> bool" where
  to_listen: "cl s = m # ms \<Longrightarrow> listen_recv m (le s) = Some (e, out, d) \<Longrightarrow>
    link_deliver s (s\<lparr>le := e, cl := ms, lc := lc s @ out, l_got := l_got s @ d\<rparr>)"
| to_connect: "lc s = m # ms \<Longrightarrow> connect_recv ok m (ce s) = (e, out, d) \<Longrightarrow>
    link_deliver s (s\<lparr>ce := e, lc := ms, cl := cl s @ out, c_got := c_got s @ d\<rparr>)"

text \<open>An end reads from its socket, or its socket is at its end; \<open>ack\<close> is the connection's flag.\<close>

inductive link_step :: "bool \<Rightarrow> link_sys \<Rightarrow> link_sys \<Rightarrow> bool" for ack where
  deliver: "link_deliver s t \<Longrightarrow> link_step ack s t"
| listen_reads: "le s = Open True \<Longrightarrow>
    link_step ack s (s\<lparr>le := Open (\<not> ack), lc := lc s @ [MData ack bs], l_sent := l_sent s @ bs\<rparr>)"
| connect_reads: "ce s = Open True \<Longrightarrow>
    link_step ack s (s\<lparr>ce := Open (\<not> ack), cl := cl s @ [MData ack bs], c_sent := c_sent s @ bs\<rparr>)"
| listen_closes: "le s = Open k \<Longrightarrow> link_step ack s (s\<lparr>le := Closing, lc := lc s @ [MClose]\<rparr>)"
| connect_closes: "ce s = Open k \<Longrightarrow> link_step ack s (s\<lparr>ce := Closing, cl := cl s @ [MClose]\<rparr>)"

inductive link_reachable :: "bool \<Rightarrow> link_sys \<Rightarrow> bool" for ack where
  init: "link_reachable ack link_init"
| step: "link_reachable ack s \<Longrightarrow> link_step ack s t \<Longrightarrow> link_reachable ack t"

inductive_cases deliverE: "link_deliver s t"
inductive_cases link_stepE: "link_step ack s t"

section \<open>The invariant\<close>

fun plain :: "msg \<Rightarrow> bool" where
  "plain (MData w bs) = True"
| "plain MAck = True"
| "plain _ = False"

definition is_open :: "endpoint \<Rightarrow> bool" where
  "is_open e \<longleftrightarrow> (\<exists>k. e = Open k)"

fun closes_last :: "msg list \<Rightarrow> bool" where
  "closes_last [] = False"
| "closes_last (m # ms) = (m = MClose \<and> ms = [] \<or> plain m \<and> closes_last ms)"

text \<open>
  A channel between two ends of an established link: \<open>MClose\<close> is the last message its sender
  sends, and its receiver is gone exactly when it has taken it.
\<close>

definition half :: "endpoint \<Rightarrow> msg list \<Rightarrow> endpoint \<Rightarrow> bool" where
  "half e ch e' \<longleftrightarrow>
     (if e' = Gone then ch = [] \<and> \<not> is_open e
      else if is_open e then list_all plain ch
      else closes_last ch)"

definition established :: "link_sys \<Rightarrow> bool" where
  "established s \<longleftrightarrow> le s \<noteq> Waiting \<and> ce s \<noteq> Waiting \<and> half (le s) (lc s) (ce s) \<and> half (ce s) (cl s) (le s)"

fun is_data :: "msg \<Rightarrow> bool" where
  "is_data (MData w bs) = True"
| "is_data _ = False"

definition shape :: "link_sys \<Rightarrow> bool" where
  "shape s \<longleftrightarrow>
     le s = Waiting \<and> ce s = Gone \<and> lc s = [MCreate] \<and> cl s = [] \<or>
     le s = Waiting \<and> ce s = Gone \<and> lc s = [] \<and> cl s = [MFailure] \<or>
     le s = Waiting \<and> is_open (ce s) \<and> lc s = [] \<and> (\<exists>ds. cl s = MSuccess # ds \<and> list_all is_data ds) \<or>
     le s = Waiting \<and> ce s = Closing \<and> lc s = [] \<and> (\<exists>ds. cl s = MSuccess # ds @ [MClose] \<and> list_all is_data ds) \<or>
     le s = Gone \<and> ce s = Gone \<and> lc s = [] \<and> cl s = [] \<or>
     established s"

lemma is_data_plain: "list_all is_data ds \<Longrightarrow> list_all plain ds"
  by (induction ds) (auto elim!: is_data.elims)

lemma closes_last_snoc [simp]: "closes_last (ds @ [MClose]) = list_all plain ds"
  by (induction ds) auto

lemma is_open_simps [simp]: "is_open (Open k)" "\<not> is_open Gone" "\<not> is_open Waiting" "\<not> is_open Closing"
  by (simp_all add: is_open_def)

lemma link_recv_plain:
  "plain m \<Longrightarrow> link_recv m e = (e', out, d) \<Longrightarrow> e \<noteq> Waiting \<Longrightarrow>
     (e' = Gone) = (e = Gone) \<and> is_open e' = is_open e \<and> e' \<noteq> Waiting \<and> list_all plain out \<and> (is_open e \<or> out = [])"
  by (cases "(m, e)" rule: link_recv.cases) (auto split: if_splits)

text \<open>One message taken from an established channel.\<close>

lemma half_recv:
  assumes "half e (m # ms) e'" "half e' ch e" "link_recv m e' = (e'', out, d)" "e' \<noteq> Waiting" "e \<noteq> Waiting"
  shows "half e ms e'' \<and> half e'' (ch @ out) e \<and> e'' \<noteq> Waiting"
proof (cases "m = MClose")
  case True
  then have m: "ms = []" "\<not> is_open e" "e' \<noteq> Gone"
    using assms(1) by (auto simp: half_def split: if_splits elim: closes_last.elims)
  then show ?thesis
    using assms True by (cases e') (auto simp: half_def is_open_def split: if_splits)
next
  case False
  then have "plain m"
    using assms(1) by (auto simp: half_def split: if_splits)
  from link_recv_plain [OF this assms(3,4)] show ?thesis
    using assms False by (auto simp: half_def split: if_splits)
qed

text \<open>Arrivals.\<close>

lemma listen_recv_open:
  "listen_recv m e = Some r \<Longrightarrow> e \<noteq> Waiting \<Longrightarrow> m \<noteq> MFailure \<Longrightarrow> link_recv m e = r \<and> e \<noteq> Gone"
  by (cases "(m, e)" rule: listen_recv.cases) auto

lemma connect_recv_link: "m \<noteq> MCreate \<Longrightarrow> connect_recv ok m e = link_recv m e"
  by (cases m) auto

lemma half_not_create: "half e (m # ms) e' \<Longrightarrow> m \<noteq> MCreate"
  by (auto simp: half_def split: if_splits)

lemma shape_not_failure: "shape s \<Longrightarrow> cl s = m # ms \<Longrightarrow> le s \<noteq> Waiting \<Longrightarrow> m \<noteq> MFailure"
  by (auto simp: shape_def established_def half_def split: if_splits)

lemma shape_to_listen:
  assumes "shape s" "cl s = m # ms" "listen_recv m (le s) = Some (e, out, d)"
  shows "shape (s\<lparr>le := e, cl := ms, lc := lc s @ out, l_got := g\<rparr>)"
proof (cases "le s = Waiting")
  case True
  then show ?thesis
    using assms is_data_plain by (auto simp: shape_def established_def half_def)
next
  case False
  then have "established s"
    using assms(1,2) by (auto simp: shape_def)
  then show ?thesis
    using half_recv [of "ce s" m ms "le s" "lc s"] listen_recv_open [OF assms(3) False shape_not_failure [OF assms(1,2) False]] assms(2)
    by (simp add: shape_def established_def)
qed

lemma shape_to_connect:
  assumes "shape s" "lc s = m # ms" "connect_recv ok m (ce s) = (e, out, d)"
  shows "shape (s\<lparr>ce := e, lc := ms, cl := cl s @ out, c_got := g\<rparr>)"
proof (cases "m = MCreate")
  case True
  then have "le s = Waiting \<and> ce s = Gone \<and> ms = [] \<and> cl s = []"
    using assms(1,2) half_not_create [of "le s" m ms "ce s"] by (auto simp: shape_def established_def)
  then show ?thesis
    using assms True by (auto simp: shape_def split: if_splits)
next
  case False
  then have "established s"
    using assms(1,2) by (auto simp: shape_def)
  then show ?thesis
    using half_recv [of "le s" m ms "ce s" "cl s"] assms(2,3) connect_recv_link [OF False]
    by (simp add: shape_def established_def)
qed

lemma half_out:
  "half (Open k) ch e' \<Longrightarrow> plain m \<Longrightarrow> half (Open k') (ch @ [m]) e'"
  "half (Open k) ch e' \<Longrightarrow> half Closing (ch @ [MClose]) e'"
  "half e ch (Open k) = half e ch (Open k')" "half e ch (Open k) = half e ch Closing"
  by (auto simp: half_def split: if_splits)

lemma shape_step: "link_step ack s t \<Longrightarrow> shape s \<Longrightarrow> shape t"
proof (induction rule: link_step.induct)
  case (deliver s t)
  then show ?case
    by (auto elim!: deliverE intro: shape_to_listen shape_to_connect)
next
  case (listen_reads s bs)
  then have "established s"
    by (auto simp: shape_def)
  then show ?case
    using listen_reads(1) half_out(1) [of True "lc s" "ce s" "MData ack bs" "\<not> ack"] half_out(3) [of "ce s" "cl s" True "\<not> ack"]
    by (simp add: shape_def established_def)
next
  case (connect_reads s bs)
  then consider ds where "le s = Waiting" "lc s = []" "cl s = MSuccess # ds" "list_all is_data ds" | "established s"
    by (auto simp: shape_def)
  then show ?case
  proof cases
    case 2
    then show ?thesis
      using connect_reads(1) half_out(1) [of True "cl s" "le s" "MData ack bs" "\<not> ack"]
        half_out(3) [of "le s" "lc s" True "\<not> ack"]
      by (simp add: shape_def established_def)
  qed (simp add: shape_def)
next
  case (listen_closes s k)
  then have "established s"
    by (auto simp: shape_def)
  then show ?case
    using listen_closes(1) half_out(2) [of k "lc s" "ce s"] half_out(4) [of "ce s" "cl s" k]
    by (simp add: shape_def established_def)
next
  case (connect_closes s k)
  then consider ds where "le s = Waiting" "lc s = []" "cl s = MSuccess # ds" "list_all is_data ds" | "established s"
    by (auto simp: shape_def)
  then show ?case
  proof cases
    case 2
    then show ?thesis
      using connect_closes(1) half_out(2) [of k "cl s" "le s"] half_out(4) [of "le s" "lc s" k]
      by (simp add: shape_def established_def)
  qed (simp add: shape_def)
qed

lemma shape_reachable: "link_reachable ack s \<Longrightarrow> shape s"
proof (induction rule: link_reachable.induct)
  case init
  show ?case by (simp add: shape_def link_init_def)
qed (rule shape_step)

section \<open>Data and acknowledgements\<close>

definition data_of :: "msg list \<Rightarrow> bytes" where
  "data_of ch = concat (map (\<lambda>m. case m of MData w bs \<Rightarrow> bs | _ \<Rightarrow> []) ch)"

lemma data_of_simps [simp]:
  "data_of [] = []" "data_of (xs @ ys) = data_of xs @ data_of ys"
  "data_of (m # ms) = (case m of MData w bs \<Rightarrow> bs | _ \<Rightarrow> []) @ data_of ms"
  by (simp_all add: data_of_def)

text \<open>What has been taken is what was sent, in order; nothing is missing until the taker closes.\<close>

definition flows :: "bytes \<Rightarrow> msg list \<Rightarrow> bytes \<Rightarrow> endpoint \<Rightarrow> bool" where
  "flows sent ch got e \<longleftrightarrow> (if e = Waiting \<or> is_open e then sent = got @ data_of ch else \<exists>rest. sent = got @ rest)"

lemma flows_recv:
  assumes "flows sent (m # ms) got e" "link_recv m e = (e', out, d)" "e \<noteq> Waiting"
  shows "flows sent ms (got @ d) e'"
  using assms by (cases "(m, e)" rule: link_recv.cases) (auto simp: flows_def split: if_splits msg.splits)

definition flowing :: "link_sys \<Rightarrow> bool" where
  "flowing s \<longleftrightarrow> flows (l_sent s) (lc s) (c_got s) (ce s) \<and> flows (c_sent s) (cl s) (l_got s) (le s) \<and>
     (le s = Waiting \<longrightarrow> l_sent s = [] \<and> c_got s = [])"

lemma flows_out:
  "flows sent ch got e \<Longrightarrow> data_of out = [] \<Longrightarrow> flows sent (ch @ out) got e"
  "flows sent ch got e \<Longrightarrow> flows (sent @ bs) (ch @ [MData w bs]) got e"
  "flows sent ch got (Open k) \<Longrightarrow> flows sent ch got (Open k')" "flows sent ch got (Open k) \<Longrightarrow> flows sent ch got Closing"
  by (auto simp: flows_def)

lemma link_recv_out: "link_recv m e = (e', out, d) \<Longrightarrow> data_of out = []"
  by (cases "(m, e)" rule: link_recv.cases) (auto split: if_splits)

lemma link_recv_Waiting: "link_recv m e = (e', out, d) \<Longrightarrow> e \<noteq> Waiting \<Longrightarrow> e' \<noteq> Waiting"
  by (cases "(m, e)" rule: link_recv.cases) auto

lemma flowing_to_listen:
  assumes "flowing s" "shape s" "cl s = m # ms" "listen_recv m (le s) = Some (e, out, d)"
  shows "flowing (s\<lparr>le := e, cl := ms, lc := lc s @ out, l_got := l_got s @ d\<rparr>)"
proof (cases "le s = Waiting")
  case True
  then consider "m = MFailure" "ms = []" | "m = MSuccess"
    using assms(2,3) by (auto simp: shape_def established_def)
  then show ?thesis
    using assms(1,3,4) True by cases (auto simp: flowing_def flows_def)
next
  case False
  note r = conjunct1 [OF listen_recv_open [OF assms(4) False shape_not_failure [OF assms(2,3) False]]]
  show ?thesis
    using assms(1,3) False flows_recv [of "c_sent s" m ms "l_got s", OF _ r False] link_recv_Waiting [OF r False]
      flows_out(1) [OF _ link_recv_out [OF r], of "l_sent s" "lc s" "c_got s" "ce s"]
    by (simp add: flowing_def)
qed

lemma flowing_to_connect:
  assumes "flowing s" "shape s" "lc s = m # ms" "connect_recv ok m (ce s) = (e, out, d)"
  shows "flowing (s\<lparr>ce := e, lc := ms, cl := cl s @ out, c_got := c_got s @ d\<rparr>)"
proof (cases "m = MCreate")
  case True
  then have "le s = Waiting \<and> ce s = Gone \<and> ms = [] \<and> cl s = []"
    using assms(2,3) half_not_create [of "le s" m ms "ce s"] by (auto simp: shape_def established_def)
  then show ?thesis
    using assms True by (auto simp: flowing_def flows_def split: if_splits)
next
  case False
  then have est: "established s"
    using assms(2,3) by (auto simp: shape_def)
  have r: "link_recv m (ce s) = (e, out, d)"
    using assms(4) connect_recv_link [OF False] by simp
  show ?thesis
    using assms(1,3) est flows_recv [of "l_sent s" m ms "c_got s", OF _ r]
      flows_out(1) [OF _ link_recv_out [OF r], of "c_sent s" "cl s" "l_got s" "le s"]
    by (simp add: flowing_def established_def)
qed

lemma flowing_step: "link_step ack s t \<Longrightarrow> shape s \<Longrightarrow> flowing s \<Longrightarrow> flowing t"
proof (induction rule: link_step.induct)
  case (deliver s t)
  then show ?case
    by (auto elim!: deliverE intro: flowing_to_listen flowing_to_connect)
next
  case (listen_reads s bs)
  then show ?case
    using flows_out(2) [of "l_sent s" "lc s" "c_got s" "ce s" bs ack]
      flows_out(3) [of "c_sent s" "cl s" "l_got s" True "\<not> ack"]
    by (simp add: flowing_def)
next
  case (connect_reads s bs)
  then show ?case
    using flows_out(2) [of "c_sent s" "cl s" "l_got s" "le s" bs ack]
      flows_out(3) [of "l_sent s" "lc s" "c_got s" True "\<not> ack"]
    by (simp add: flowing_def)
next
  case (listen_closes s k)
  then show ?case
    using flows_out(1) [of "l_sent s" "lc s" "c_got s" "ce s" "[MClose]"] flows_out(4) [of "c_sent s" "cl s" "l_got s" k]
    by (simp add: flowing_def)
next
  case (connect_closes s k)
  then show ?case
    using flows_out(1) [of "c_sent s" "cl s" "l_got s" "le s" "[MClose]"] flows_out(4) [of "l_sent s" "lc s" "c_got s" k]
    by (simp add: flowing_def)
qed

lemma flowing_reachable: "link_reachable ack s \<Longrightarrow> flowing s"
proof (induction rule: link_reachable.induct)
  case init
  show ?case by (simp add: flowing_def link_init_def flows_def)
next
  case (step s t)
  then show ?case
    using flowing_step shape_reachable by blast
qed

text \<open>
  With acknowledgements: of the right to read, the data on its way out and the acknowledgement on its
  way back there is at most one.
\<close>

definition count_msg :: "(msg \<Rightarrow> bool) \<Rightarrow> msg list \<Rightarrow> nat" where
  "count_msg p ch = length (filter p ch)"

abbreviation is_ack :: "msg \<Rightarrow> bool" where
  "is_ack m \<equiv> m = MAck"

definition tokens :: "endpoint \<Rightarrow> msg list \<Rightarrow> msg list \<Rightarrow> nat" where
  "tokens e out inc = (if e = Open True then 1 else 0) + count_msg is_data out + count_msg is_ack inc"

lemma count_msg_simps [simp]:
  "count_msg p [] = 0" "count_msg p (m # ms) = (if p m then 1 else 0) + count_msg p ms"
  "count_msg p (xs @ ys) = count_msg p xs + count_msg p ys"
  by (simp_all add: count_msg_def)

lemma count_none: "list_all (\<lambda>m. \<not> p m) ch \<Longrightarrow> count_msg p ch = 0"
  by (induction ch) auto

lemma data_not_ack: "list_all is_data ds \<Longrightarrow> count_msg is_ack ds = 0"
  by (rule count_none, induction ds) (auto elim: is_data.elims)

lemma tokens_recv:
  assumes "link_recv m e = (e', out, d)"
  shows "tokens e ch (m # ms) \<le> 1 \<Longrightarrow> tokens e' (ch @ out) ms \<le> 1"
    and "tokens f (m # ms) ch \<le> 1 \<Longrightarrow> tokens f ms (ch @ out) \<le> 1"
  using assms by (cases "(m, e)" rule: link_recv.cases; auto simp: tokens_def split: if_splits)+

definition stop_wait :: "link_sys \<Rightarrow> bool" where
  "stop_wait s \<longleftrightarrow> tokens (le s) (lc s) (cl s) \<le> 1 \<and> tokens (ce s) (cl s) (lc s) \<le> 1"

lemma stop_wait_to_listen:
  assumes "stop_wait s" "shape s" "cl s = m # ms" "listen_recv m (le s) = Some (e, out, d)"
  shows "stop_wait (s\<lparr>le := e, cl := ms, lc := lc s @ out, l_got := g\<rparr>)"
proof (cases "le s = Waiting")
  case True
  then consider "m = MFailure" "ms = []" "lc s = []" "ce s = Gone"
    | ds where "m = MSuccess" "lc s = []" "ms = ds \<or> ms = ds @ [MClose]" "list_all is_data ds"
    using assms(2,3) by (auto simp: shape_def established_def)
  then show ?thesis
    using assms(1,3,4) True by cases (auto simp: stop_wait_def tokens_def data_not_ack)
next
  case False
  note r = conjunct1 [OF listen_recv_open [OF assms(4) False shape_not_failure [OF assms(2,3) False]]]
  show ?thesis
    using assms(1,3) tokens_recv [OF r] by (simp add: stop_wait_def)
qed

lemma stop_wait_to_connect:
  assumes "stop_wait s" "shape s" "lc s = m # ms" "connect_recv ok m (ce s) = (e, out, d)"
  shows "stop_wait (s\<lparr>ce := e, lc := ms, cl := cl s @ out, c_got := g\<rparr>)"
proof (cases "m = MCreate")
  case True
  then have "le s = Waiting \<and> ce s = Gone \<and> ms = [] \<and> cl s = []"
    using assms(2,3) half_not_create [of "le s" m ms "ce s"] by (auto simp: shape_def established_def)
  then show ?thesis
    using assms True by (auto simp: stop_wait_def tokens_def split: if_splits)
next
  case False
  have r: "link_recv m (ce s) = (e, out, d)"
    using assms(4) connect_recv_link [OF False] by simp
  show ?thesis
    using assms(1,3) tokens_recv [OF r] by (simp add: stop_wait_def)
qed

lemma stop_wait_step: "link_step True s t \<Longrightarrow> shape s \<Longrightarrow> stop_wait s \<Longrightarrow> stop_wait t"
proof (induction rule: link_step.induct)
  case (deliver s t)
  then show ?case
    by (auto elim!: deliverE intro: stop_wait_to_listen stop_wait_to_connect)
qed (simp_all add: stop_wait_def tokens_def split: if_splits)

lemma stop_wait_reachable: "link_reachable True s \<Longrightarrow> stop_wait s"
proof (induction rule: link_reachable.induct)
  case init
  show ?case by (simp add: stop_wait_def link_init_def tokens_def)
next
  case (step s t)
  then show ?case
    using stop_wait_step shape_reachable by blast
qed

section \<open>Closing\<close>

text \<open>Every arrival uses something up.\<close>

fun msg_weight :: "msg \<Rightarrow> nat" where
  "msg_weight MCreate = 4"
| "msg_weight (MData w bs) = 2"
| "msg_weight _ = 1"

fun end_weight :: "endpoint \<Rightarrow> nat" where
  "end_weight (Open k) = 2"
| "end_weight Closing = 1"
| "end_weight Waiting = 4"
| "end_weight Gone = 0"

definition weight :: "link_sys \<Rightarrow> nat" where
  "weight s = sum_list (map msg_weight (lc s)) + sum_list (map msg_weight (cl s)) +
     end_weight (le s) + end_weight (ce s)"

lemma msg_weight_pos [simp]: "0 < msg_weight m"
  by (cases m) simp_all

lemma recv_weight:
  "link_recv m e = (e', out, d) \<Longrightarrow>
     sum_list (map msg_weight out) + end_weight e' < msg_weight m + end_weight e"
  by (cases "(m, e)" rule: link_recv.cases) (auto split: if_splits)

lemma listen_weight:
  "listen_recv m e = Some (e', out, d) \<Longrightarrow>
     sum_list (map msg_weight out) + end_weight e' < msg_weight m + end_weight e"
  by (cases "(m, e)" rule: listen_recv.cases) (auto dest: recv_weight)

lemma connect_weight:
  "connect_recv ok m e = (e', out, d) \<Longrightarrow>
     sum_list (map msg_weight out) + end_weight e' < msg_weight m + end_weight e"
  by (cases "m = MCreate") (auto simp: connect_recv_link dest: recv_weight split: if_splits)

lemma deliver_weight: "link_deliver s t \<Longrightarrow> weight t < weight s"
  by (erule deliverE) (auto simp: weight_def dest!: listen_weight connect_weight)

lemma arrivals_end: "\<not> (\<exists>f. \<forall>i :: nat. link_deliver (f i) (f (Suc i)))"
proof
  assume "\<exists>f. \<forall>i :: nat. link_deliver (f i) (f (Suc i))"
  then obtain f where f: "link_deliver (f i) (f (Suc i))" for i
    by blast
  have "weight (f i) + i \<le> weight (f 0)" for i
  proof (induction i)
    case (Suc i)
    then show ?case
      using deliver_weight [OF f [of i]] by simp
  qed simp
  from this [of "Suc (weight (f 0))"] show False by simp
qed

lemma arrivals_stop: "\<exists>t. link_deliver\<^sup>*\<^sup>* s t \<and> \<not> (\<exists>u. link_deliver t u)"
proof (induction s rule: measure_induct_rule [of weight])
  case (less s)
  show ?case
  proof (cases "\<exists>u. link_deliver s u")
    case True
    then obtain u where "link_deliver s u" by blast
    then show ?thesis
      using less [OF deliver_weight] by (meson converse_rtranclp_into_rtranclp)
  qed blast
qed

text \<open>A message can always be taken.\<close>

lemma shape_live:
  assumes "shape s" "lc s \<noteq> [] \<or> cl s \<noteq> []"
  shows "\<exists>t. link_deliver s t"
proof (cases "lc s")
  case (Cons m ms)
  obtain e out d where "connect_recv True m (ce s) = (e, out, d)"
    by (metis prod.exhaust)
  then show ?thesis
    using to_connect [OF Cons] by blast
next
  case Nil
  then obtain m ms where cl: "cl s = m # ms"
    using assms(2) by (cases "cl s") auto
  then have "le s \<noteq> Gone"
    using assms(1) by (auto simp: shape_def established_def half_def)
  then obtain r where "listen_recv m (le s) = Some r"
    by (cases "(m, le s)" rule: listen_recv.cases) auto
  then show ?thesis
    using to_listen [OF cl] by (metis prod.exhaust)
qed

lemma shape_quiet:
  assumes "shape s" "lc s = []" "cl s = []"
  shows "le s = Gone \<and> ce s = Gone \<or> is_open (le s) \<and> is_open (ce s)"
  using assms by (auto simp: shape_def established_def half_def split: if_splits)

text \<open>An end that has closed stays closed.\<close>

definition closed_l :: "link_sys \<Rightarrow> bool" where
  "closed_l s \<longleftrightarrow> le s \<in> {Closing, Gone}"

definition closed_c :: "link_sys \<Rightarrow> bool" where
  "closed_c s \<longleftrightarrow> ce s = Closing \<or> ce s = Gone \<and> lc s \<noteq> [MCreate]"

lemma link_recv_closed: "link_recv m Closing = (e, out, d) \<Longrightarrow> e \<in> {Closing, Gone} \<and> out = []"
  by (cases m) auto

lemma closed_l_deliver:
  assumes "link_deliver s t" "closed_l s"
  shows "closed_l t"
  using assms
proof (cases rule: link_deliver.cases)
  case (to_listen m ms e out d)
  then have "le s = Closing"
    using assms(2) by (auto simp: closed_l_def)
  then have "m = MFailure \<or> link_recv m Closing = (e, out, d)"
    using to_listen listen_recv_open [of m "le s"] by auto
  then show ?thesis
    using to_listen link_recv_closed \<open>le s = Closing\<close> by (auto simp: closed_l_def)
qed (simp add: closed_l_def)

lemma closed_c_deliver:
  assumes "link_deliver s t" "shape s" "closed_c s"
  shows "closed_c t"
  using assms(1)
proof (cases rule: link_deliver.cases)
  case (to_listen m ms e out d)
  have "out \<noteq> [MCreate]"
    using to_listen(3)
    by (cases "(m, le s)" rule: listen_recv.cases; cases "(m, le s)" rule: link_recv.cases)
      (auto split: if_splits)
  then show ?thesis
    using to_listen assms(3) by (auto simp: closed_c_def append_eq_Cons_conv)
next
  case (to_connect m ms ok e out d)
  have m: "m \<noteq> MCreate"
    using to_connect(2) assms(2,3) half_not_create [of "le s" m ms "ce s"]
    by (auto simp: shape_def established_def closed_c_def)
  have "ce s = Closing"
    using to_connect(2) assms(2,3) by (auto simp: shape_def established_def closed_c_def half_def)
  moreover have "established s"
    using to_connect(2) assms(2) m by (auto simp: shape_def)
  ultimately have "ms \<noteq> [MCreate]"
    using to_connect(2) by (auto simp: established_def half_def split: if_splits)
  then show ?thesis
    using to_connect connect_recv_link [OF m, of ok "ce s"] \<open>ce s = Closing\<close> link_recv_closed [of m e out d]
    by (auto simp: closed_c_def)
qed

lemma shape_deliver: "link_deliver s t \<Longrightarrow> shape s \<Longrightarrow> shape t"
  using shape_step link_step.deliver by blast

lemma closed_arrivals:
  "link_deliver\<^sup>*\<^sup>* s t \<Longrightarrow> shape s \<Longrightarrow> closed_l s \<or> closed_c s \<Longrightarrow> shape t \<and> (closed_l t \<or> closed_c t)"
  by (induction rule: rtranclp_induct) (use shape_deliver closed_l_deliver closed_c_deliver in blast)+

section \<open>What an end may get\<close>

fun listen_expects :: "msg \<Rightarrow> endpoint \<Rightarrow> bool" where
  "listen_expects m Gone = False"
| "listen_expects m Waiting = (m = MSuccess \<or> m = MFailure)"
| "listen_expects m _ = (plain m \<or> m = MClose)"

fun connect_expects :: "msg \<Rightarrow> endpoint \<Rightarrow> bool" where
  "connect_expects m Gone = (m = MCreate)"
| "connect_expects m Waiting = False"
| "connect_expects m _ = (plain m \<or> m = MClose)"

lemma half_expects:
  assumes "half e ch e'" "ch \<noteq> []" "e' \<noteq> Waiting"
  shows "listen_expects (hd ch) e'" "connect_expects (hd ch) e'"
  using assms by (cases ch; cases e'; auto simp: half_def split: if_splits)+

lemma shape_expects:
  assumes "shape s"
  shows "(cl s \<noteq> [] \<longrightarrow> listen_expects (hd (cl s)) (le s)) \<and> (lc s \<noteq> [] \<longrightarrow> connect_expects (hd (lc s)) (ce s))"
  using assms unfolding shape_def established_def
  by (elim disjE) (auto simp: half_expects)

section \<open>Properties\<close>

text \<open>C11: An end of a link only ever gets messages that make sense in its state, whatever the order in which
  the ends read, close and take messages. In particular the listening end never gets a message for a
  link it does not know, the case in which \<open>processMessage\<close> throws, and the connecting end gets one
  only as a request to connect.\<close>

theorem link_never_unknown:
  assumes "link_reachable ack s"
  shows "(cl s \<noteq> [] \<longrightarrow> listen_expects (hd (cl s)) (le s) \<and> listen_recv (hd (cl s)) (le s) \<noteq> None) \<and>
    (lc s \<noteq> [] \<longrightarrow> connect_expects (hd (lc s)) (ce s))"
proof -
  have "listen_recv m e \<noteq> None" if "listen_expects m e" for m e
    using that by (cases "(m, e)" rule: listen_recv.cases) auto
  then show ?thesis
    using shape_expects [OF shape_reachable [OF assms]] by simp
qed

text \<open>
  A run: the link is made, the connecting end reads two bytes and closes while the answer is still on its
  way, then everything arrives.
\<close>

definition run1 :: link_sys where
  "run1 = link_init\<lparr>ce := Open True, lc := [], cl := [MSuccess]\<rparr>"

definition run2 :: "bool \<Rightarrow> link_sys" where
  "run2 ack = run1\<lparr>ce := Open (\<not> ack), cl := [MSuccess, MData ack [1, 2]], c_sent := [1, 2]\<rparr>"

definition run3 :: "bool \<Rightarrow> link_sys" where
  "run3 ack = (run2 ack)\<lparr>ce := Closing, cl := [MSuccess, MData ack [1, 2], MClose]\<rparr>"

lemma run_reachable: "link_reachable ack run1" "link_reachable ack (run2 ack)" "link_reachable ack (run3 ack)"
proof -
  have "link_deliver link_init run1"
    using link_deliver.to_connect [of link_init MCreate "[]" True "Open True" "[MSuccess]" "[]"]
    by (simp add: link_init_def run1_def)
  then show 1: "link_reachable ack run1"
    by (blast intro: link_reachable.intros link_step.deliver)
  have "link_step ack run1 (run2 ack)"
    using link_step.connect_reads [of run1 ack "[1, 2]"] by (simp add: run1_def run2_def link_init_def)
  with 1 show 2: "link_reachable ack (run2 ack)"
    by (rule link_reachable.step)
  have "link_step ack (run2 ack) (run3 ack)"
    using link_step.connect_closes [of "run2 ack" "\<not> ack" ack] by (simp add: run1_def run2_def run3_def link_init_def)
  with 2 show "link_reachable ack (run3 ack)"
    by (rule link_reachable.step)
qed

theorem link_never_unknown_witness:
  "link_reachable True (run3 True) \<and> listen_recv (hd (cl (run3 True))) (le (run3 True)) \<noteq> None \<and>
     cl (run3 True) = [MSuccess, MData True [1, 2], MClose]"
  using run_reachable(3) [of True] link_never_unknown [OF run_reachable(3) [of True]]
  by (simp add: run3_def)

text \<open>C10: Data flows in order: what an end has taken is always a prefix of what the other end has read from
  its socket, and as long as an end is waiting or open, nothing of it is missing but what is on
  its way.\<close>

theorem link_data_in_order:
  assumes "link_reachable ack s"
  shows "(\<exists>rest. c_sent s = l_got s @ rest) \<and> (\<exists>rest. l_sent s = c_got s @ rest) \<and>
    (le s = Waiting \<or> is_open (le s) \<longrightarrow> c_sent s = l_got s @ data_of (cl s)) \<and>
    (is_open (ce s) \<longrightarrow> l_sent s = c_got s @ data_of (lc s))"
  using flowing_reachable [OF assms] by (auto simp: flowing_def flows_def split: if_splits)

theorem link_data_in_order_witness:
  "link_reachable False (run3 False) \<and> c_sent (run3 False) = l_got (run3 False) @ data_of (cl (run3 False)) \<and>
     data_of (cl (run3 False)) = [1, 2]"
  using run_reachable(3) [of False] link_data_in_order [OF run_reachable(3) [of False]]
  by (simp add: run3_def run2_def run1_def link_init_def)

text \<open>C13: With acknowledgements switched on the link is stop and wait: in each direction there is at most
  one data message on its way, none while the sender may still read or an acknowledgement is coming
  back.\<close>

theorem link_stop_and_wait:
  assumes "link_reachable True s"
  shows "count_msg is_data (lc s) + count_msg is_ack (cl s) + (if le s = Open True then 1 else 0) \<le> 1 \<and>
    count_msg is_data (cl s) + count_msg is_ack (lc s) + (if ce s = Open True then 1 else 0) \<le> 1"
  using stop_wait_reachable [OF assms] by (simp add: stop_wait_def tokens_def)

theorem link_stop_and_wait_witness:
  "link_reachable True (run2 True) \<and> count_msg is_data (cl (run2 True)) = 1 \<and> count_msg is_ack (lc (run2 True)) = 0 \<and>
     ce (run2 True) = Open False"
  using run_reachable(2) [of True] link_stop_and_wait [OF run_reachable(2) [of True]]
  by (simp add: run2_def run1_def link_init_def)

text \<open>C12: Closing completes: once either end has closed, arrivals cannot go on for ever, and when nothing
  is left to arrive both ends have erased the link and both channels are empty, even when both ends
  closed at the same time.\<close>

theorem link_closing_completes:
  assumes "link_reachable ack s" "le s = Closing \<or> ce s = Closing"
  shows "\<not> (\<exists>f. f (0 :: nat) = s \<and> (\<forall>i. link_deliver (f i) (f (Suc i)))) \<and>
    (\<forall>t. link_deliver\<^sup>*\<^sup>* s t \<and> \<not> (\<exists>u. link_deliver t u) \<longrightarrow> le t = Gone \<and> ce t = Gone \<and> lc t = [] \<and> cl t = [])"
proof (intro conjI allI impI)
  show "\<not> (\<exists>f. f (0 :: nat) = s \<and> (\<forall>i. link_deliver (f i) (f (Suc i))))"
    using arrivals_end by blast
  fix t
  assume t: "link_deliver\<^sup>*\<^sup>* s t \<and> \<not> (\<exists>u. link_deliver t u)"
  have "closed_l s \<or> closed_c s"
    using assms(2) by (auto simp: closed_l_def closed_c_def)
  then have inv: "shape t" "closed_l t \<or> closed_c t"
    using closed_arrivals [OF conjunct1 [OF t] shape_reachable [OF assms(1)]] by blast+
  then have quiet: "lc t = []" "cl t = []"
    using shape_live t by blast+
  then show "le t = Gone" "ce t = Gone" "lc t = []" "cl t = []"
    using shape_quiet [OF inv(1)] inv(2) by (auto simp: closed_l_def closed_c_def)
qed

theorem link_closing_completes_witness:
  "\<exists>t. link_deliver\<^sup>*\<^sup>* (run3 True) t \<and> \<not> (\<exists>u. link_deliver t u) \<and> le t = Gone \<and> ce t = Gone \<and> lc t = [] \<and> cl t = []"
proof -
  have "ce (run3 True) = Closing"
    by (simp add: run3_def)
  then have "le t = Gone \<and> ce t = Gone \<and> lc t = [] \<and> cl t = []"
    if "link_deliver\<^sup>*\<^sup>* (run3 True) t \<and> \<not> (\<exists>u. link_deliver t u)" for t
    using link_closing_completes [OF run_reachable(3) [of True]] that by blast
  then show ?thesis
    using arrivals_stop [of "run3 True"] by blast
qed

end
