(* ===== verification/Tunnel_Messages.thy ===== *)
theory Tunnel_Messages
  imports Tunnel_Links
begin

text \<open>
  Messages between the two sides as byte strings: what the writing operations append to the message
  under construction, what \<open>send\<close> adds to the bytes on their way, and what the reading operations
  take from a message that has arrived.
\<close>

section \<open>Going out\<close>

definition put_bytes :: "bytes \<Rightarrow> ('w, 'a) tunnel_scheme \<Rightarrow> ('w, 'a) tunnel_scheme" where
  "put_bytes bs = writing (\<lambda>ws. ws\<lparr>ws_queue := ws_queue ws @ bs\<rparr>)"

definition enc_int :: "c_int \<Rightarrow> bytes" where
  "enc_int x = enc_short (to_short x)"

definition enc_header :: "c_int \<Rightarrow> c_int \<Rightarrow> short \<Rightarrow> bytes" where
  "enc_header i command link_id = enc_int CMD_CONNECTION @ enc_int i @ enc_int command @ enc_short link_id"

text \<open>The bytes that wait, and the message under construction.\<close>

definition outgoing :: "('w, 'a) tunnel_scheme \<Rightarrow> bytes" where
  "outgoing s = ws_pending (m_write_stream s)"

definition unsent_message :: "('w, 'a) tunnel_scheme \<Rightarrow> bytes" where
  "unsent_message s = ws_queue (m_write_stream s)"

lemma ws_pending_queue [simp]: "ws_pending (ws\<lparr>ws_queue := q\<rparr>) = ws_pending ws"
  by (simp add: ws_pending_def)

lemma put_bytes_put_bytes [simp]: "put_bytes cs (put_bytes bs s) = put_bytes (bs @ cs) s"
  by (simp add: put_bytes_def writing_def)

lemma put_bytes_Nil [simp]: "put_bytes [] s = s"
  by (simp add: put_bytes_def writing_def)

lemma put_enc:
  "put_short x s = put_bytes (enc_int x) s"
  "writing (WriteStream_writeShort y) s = put_bytes (enc_short y) s"
  "writing (WriteStream_writeBytes bs) s = put_bytes bs s"
  "writing (WriteStream_writeString m) s = put_bytes (enc_string m) s"
  "writing (ConnectionSpec_serialize sp) s = put_bytes (enc_spec sp) s"
  by (simp_all add: put_bytes_def put_short_def enc_int_def write_enc serialize_enc writing_def)

lemma put_header_enc: "put_header i cmd x s = put_bytes (enc_header i cmd x) s"
  by (simp add: put_header_def put_enc enc_header_def)

lemma put_bytes_fields [simp]:
  "m_connections (put_bytes bs s) = m_connections s" "m_links (put_bytes bs s) = m_links s"
  "m_connection_map (put_bytes bs s) = m_connection_map s" "m_read_stream (put_bytes bs s) = m_read_stream s"
  "m_polled (put_bytes bs s) = m_polled s" "world (put_bytes bs s) = world s"
  "m_writer_attached (put_bytes bs s) = m_writer_attached s" "m_writer_fd (put_bytes bs s) = m_writer_fd s"
  "tunnel.more (put_bytes bs s) = tunnel.more s" "m_next_obj (put_bytes bs s) = m_next_obj s"
  "m_is_terminal (put_bytes bs s) = m_is_terminal s" "m_termios (put_bytes bs s) = m_termios s"
  "outgoing (put_bytes bs s) = outgoing s" "unsent_message (put_bytes bs s) = unsent_message s @ bs"
  by (simp_all add: put_bytes_def writing_def outgoing_def unsent_message_def ws_pending_def)

text \<open>
  What \<open>send\<close> leaves of everything else: it changes the write stream and the requests of the
  poller's table.
\<close>

definition same_heap :: "('w, 'a) tunnel_scheme \<Rightarrow> ('w, 'a) tunnel_scheme \<Rightarrow> bool" where
  "same_heap s t \<longleftrightarrow> m_connections t = m_connections s \<and> m_links t = m_links s \<and>
     m_connection_map t = m_connection_map s \<and> m_next_obj t = m_next_obj s \<and>
     m_writer_attached t = m_writer_attached s \<and> m_writer_fd t = m_writer_fd s \<and>
     m_is_terminal t = m_is_terminal s \<and> m_termios t = m_termios s \<and> tunnel.more t = tunnel.more s"

lemma same_heap_refl [simp]: "same_heap s s"
  by (simp add: same_heap_def)

lemma same_heap_trans: "same_heap s t \<Longrightarrow> same_heap t u \<Longrightarrow> same_heap s u"
  by (simp add: same_heap_def)

lemma outgoing_setEvents [simp]:
  "outgoing (Poller_setEvents p f ev s) = outgoing s" "unsent_message (Poller_setEvents p f ev s) = unsent_message s"
  by (simp_all add: outgoing_def unsent_message_def Poller_setEvents_def Let_def split: option.splits)

lemma same_heap_setEvents [simp]: "same_heap s (Poller_setEvents p f ev s)"
  by (simp add: same_heap_def Poller_setEvents_def Let_def split: option.splits)

lemma same_heap_put_bytes [simp]: "same_heap s (put_bytes bs s)"
  by (simp add: same_heap_def)

text \<open>A whole message.\<close>

lemma send_message:
  assumes "m_writer_attached s" "unsent_message s @ bs \<noteq> []"
  shows "\<exists>t. CustomWriteStream_send (put_bytes bs s) = Inr t \<and> same_heap s t \<and>
    outgoing t = outgoing s @ frame (unsent_message s @ bs) \<and> unsent_message t = [] \<and>
    m_read_stream t = m_read_stream s \<and> world t = world s"
proof -
  let ?u = "writing WriteStream_send (put_bytes bs s)"
  let ?t = "Poller_setEvents P_Tunnel (m_writer_fd s) POLLOUT ?u"
  have "outgoing ?u = outgoing s @ frame (unsent_message s @ bs)" "unsent_message ?u = []"
    using assms(2) by (auto simp: writing_def put_bytes_def outgoing_def unsent_message_def ws_pending_send)
  moreover have "same_heap s ?u"
    by (simp add: same_heap_def writing_def)
  moreover have "m_read_stream ?t = m_read_stream s" "world ?t = world s"
    by (simp_all add: Poller_setEvents_def writing_def Let_def split: option.splits)
  ultimately show ?thesis
    using assms(1) same_heap_trans [OF \<open>same_heap s ?u\<close> same_heap_setEvents]
    by (simp add: CustomWriteStream_send_def)
qed

section \<open>Coming in\<close>

definition incoming :: "('w, 'a) tunnel_scheme \<Rightarrow> bytes" where
  "incoming s = rs_queue (m_read_stream s)"

definition with_incoming :: "bytes \<Rightarrow> ('w, 'a) tunnel_scheme \<Rightarrow> ('w, 'a) tunnel_scheme" where
  "with_incoming bs s = s\<lparr>m_read_stream := (m_read_stream s)\<lparr>rs_queue := bs\<rparr>\<rparr>"

lemma incoming_simps [simp]:
  "incoming (with_incoming bs s) = bs" "with_incoming cs (with_incoming bs s) = with_incoming cs s"
  "with_incoming (incoming s) s = s"
  by (simp_all add: incoming_def with_incoming_def)

lemma with_incoming_fields [simp]:
  "m_connections (with_incoming bs s) = m_connections s" "m_links (with_incoming bs s) = m_links s"
  "m_connection_map (with_incoming bs s) = m_connection_map s" "m_polled (with_incoming bs s) = m_polled s"
  "m_writer_attached (with_incoming bs s) = m_writer_attached s" "m_writer_fd (with_incoming bs s) = m_writer_fd s"
  "tunnel.more (with_incoming bs s) = tunnel.more s" "m_next_obj (with_incoming bs s) = m_next_obj s"
  "outgoing (with_incoming bs s) = outgoing s" "unsent_message (with_incoming bs s) = unsent_message s"
  "world (with_incoming bs s) = world s" "same_heap s (with_incoming bs s)"
  by (simp_all add: with_incoming_def outgoing_def unsent_message_def same_heap_def)

lemma get_short_enc:
  "get_short (with_incoming (enc_short x @ rest) s) = Inr (x, with_incoming rest s)"
  by (simp add: get_short_def reading_def with_incoming_def readShort_enc)

lemma get_int_enc:
  "get_short (with_incoming (enc_int x @ rest) s) = Inr (to_short x, with_incoming rest s)"
  by (simp add: enc_int_def get_short_enc)

lemma reading_spec_enc:
  "length (m_connect_host sp) < 2 ^ 32 \<Longrightarrow>
     reading ConnectionSpec_deserialize (with_incoming (enc_spec sp @ rest) s) = Inr (wire_spec sp, with_incoming rest s)"
  by (simp add: reading_def with_incoming_def deserialize_enc)

lemma reading_bytes_enc:
  "reading (ReadStream_readBytes (int (length b))) (with_incoming (b @ rest) s) = Inr (b, with_incoming rest s)"
  by (simp add: reading_def with_incoming_def readBytes_enc)

text \<open>The codes are small enough to survive.\<close>

lemma of_to_codes [simp]:
  "of_short (to_short CMD_ERROR) = CMD_ERROR" "of_short (to_short CMD_CREATE) = CMD_CREATE"
  "of_short (to_short CMD_CONNECTION) = CMD_CONNECTION" "of_short (to_short CMD_SHUTDOWN) = CMD_SHUTDOWN"
  "of_short (to_short LINK_CREATE) = LINK_CREATE" "of_short (to_short LINK_SEND) = LINK_SEND"
  "of_short (to_short LINK_CLOSE) = LINK_CLOSE" "of_short (to_short LINK_SUCCESS) = LINK_SUCCESS"
  "of_short (to_short LINK_FAILURE) = LINK_FAILURE" "of_short (to_short LINK_SEND_FOR_ACK) = LINK_SEND_FOR_ACK"
  "of_short (to_short LINK_ACK) = LINK_ACK"
  by (simp_all add: of_to_short_small cmd_codes link_codes)

lemma codes_differ [simp]:
  "CMD_CONNECTION \<noteq> CMD_ERROR" "CMD_CONNECTION \<noteq> CMD_CREATE" "CMD_CONNECTION \<noteq> CMD_SHUTDOWN"
  "CMD_CREATE \<noteq> CMD_ERROR" "LINK_CLOSE \<noteq> LINK_SEND" "LINK_CLOSE \<noteq> LINK_CREATE" "LINK_SEND \<noteq> LINK_CREATE"
  "LINK_ACK \<noteq> LINK_CREATE" "LINK_SEND_FOR_ACK \<noteq> LINK_CREATE" "LINK_SEND_FOR_ACK \<noteq> LINK_SEND"
  "LINK_SEND_FOR_ACK \<noteq> LINK_CLOSE" "LINK_ACK \<noteq> LINK_SEND" "LINK_ACK \<noteq> LINK_CLOSE" "LINK_ACK \<noteq> LINK_SEND_FOR_ACK"
  "LINK_SUCCESS \<noteq> LINK_FAILURE" "LINK_FAILURE \<noteq> LINK_SUCCESS" "LINK_SEND \<noteq> LINK_CLOSE"
  "LINK_SEND \<noteq> LINK_SEND_FOR_ACK" "LINK_SEND \<noteq> LINK_ACK" "LINK_CLOSE \<noteq> LINK_SEND_FOR_ACK"
  "LINK_CLOSE \<noteq> LINK_ACK" "LINK_SEND_FOR_ACK \<noteq> LINK_ACK"
  by (simp_all add: cmd_codes link_codes)

section \<open>Effects on the heap\<close>

lemma deref_Inr:
  "deref_connection c s = Inr t \<longleftrightarrow> m_connections s c = Some t" "deref_link a s = Inr l \<longleftrightarrow> m_links s a = Some l"
  by (auto simp: deref_connection_def deref_link_def split: option.splits)

lemma assign_link_effect:
  assumes "m_connections s c = Some t"
  shows "\<exists>s'. assign_link c i a s = Inr s' \<and>
    m_connections s' = (m_connections s)(c \<mapsto> t\<lparr>m_link_map := (m_link_map t)(i \<mapsto> a)\<rparr>) \<and>
    m_connection_map s' = m_connection_map s \<and> outgoing s' = outgoing s \<and> unsent_message s' = unsent_message s \<and>
    incoming s' = incoming s \<and> m_writer_attached s' = m_writer_attached s"
  using assms
  by (cases "m_link_map t i")
    (simp_all add: assign_link_def deref_connection_def put_connection_def free_link_def outgoing_def
      unsent_message_def incoming_def)

end
