(* ===== verification/Handshake.thy ===== *)
theory Handshake
  imports Tunnel_Messages Tunnel_Remote
begin

text \<open>
  The handshake as an exchange between the two sides: the message the local side sends when it has
  seen the announcement, and what the remote side makes of it.
\<close>

section \<open>The connection table on the wire\<close>

definition enc_table :: "(c_int \<times> connection_spec) list \<Rightarrow> bytes" where
  "enc_table tab = concat (map (\<lambda>(i, sp). enc_int i @ enc_spec sp) tab)"

definition handshake_message :: "(c_int \<times> connection_spec) list \<Rightarrow> bytes" where
  "handshake_message tab = enc_int CMD_CREATE @ enc_int (int (length tab)) @ enc_table tab"

lemma enc_table_simps [simp]:
  "enc_table [] = []" "enc_table ((i, sp) # tab) = enc_int i @ enc_spec sp @ enc_table tab"
  by (simp_all add: enc_table_def)

text \<open>The table of a side: the number and the specification of each of its connections, in order.\<close>

definition table_of :: "('w, 'a) tunnel_scheme \<Rightarrow> (c_int \<times> nat) list \<Rightarrow> (c_int \<times> connection_spec) list" where
  "table_of s kcs = map (\<lambda>(k, c). (tc_id (the (m_connections s c)), m_spec (the (m_connections s c)))) kcs"

definition table_alive :: "('w, 'a) tunnel_scheme \<Rightarrow> bool" where
  "table_alive s \<longleftrightarrow> (\<forall>c \<in> snd ` set (m_connection_map s). m_connections s c \<noteq> None)"

section \<open>The local side\<close>

lemma announce_all_eq:
  "(\<forall>c \<in> snd ` set kcs. m_connections s c \<noteq> None) \<Longrightarrow>
     announce_all kcs s = Inr (put_bytes (enc_table (table_of s kcs)) s)"
proof (induction kcs arbitrary: s)
  case Nil
  then show ?case by (simp add: table_of_def)
next
  case (Cons kc kcs)
  obtain k c where kc: "kc = (k, c)" by fastforce
  then obtain t where t: "m_connections s c = Some t"
    using Cons.prems by auto
  have "announce_connection kc s = Inr (put_bytes (enc_int (tc_id t) @ enc_spec (m_spec t)) s)"
    by (simp add: announce_connection_def deref_connection_def kc t put_enc)
  moreover have "table_of (put_bytes bs s) kcs = table_of s kcs" for bs
    by (simp add: table_of_def)
  ultimately show ?case
    using Cons by (simp add: kc t table_of_def)
qed

lemma message_not_Nil [simp]: "handshake_message tab \<noteq> []"
  by (simp add: handshake_message_def enc_int_def enc_short_def)

lemma same_heap_removePolled [simp]: "same_heap s (Poller_removePolled p f s)"
  by (simp add: same_heap_def Poller_removePolled_def Let_def split: option.splits)

lemma outgoing_removePolled [simp]:
  "outgoing (Poller_removePolled p f s) = outgoing s" "unsent_message (Poller_removePolled p f s) = unsent_message s"
  by (simp_all add: outgoing_def unsent_message_def Poller_removePolled_def Let_def split: option.splits)

lemma outgoing_on_world [simp]:
  "outgoing (on_world f s) = outgoing s" "unsent_message (on_world f s) = unsent_message s"
  "m_daemon (on_world f t) = m_daemon t" "l_state (on_world f t) = l_state t"
  by (simp_all add: outgoing_def unsent_message_def on_world_def)

lemma startHandshaking_eq:
  assumes "table_alive s"
  shows "StdioTunnelLocal_startHandshaking os s =
    bindE (CustomWriteStream_send (put_bytes (handshake_message (table_of s (m_connection_map s)))
        (s\<lparr>l_state := L_HAND_SHAKE, m_write_buffer := SockBuffer_clear (m_write_buffer s)\<rparr>))) (\<lambda>s.
      let s = Poller_removePolled P_Tunnel STDIN_FD s;
          s = (if m_is_terminal s
               then on_world (sys_tcsetattr os STDIN_FD (raw_with_signals (m_termios s))) s else s)
      in if m_daemon s
         then daemon os (on_world (sys_cerr os ''Keep running daemon in background ...'') s)
         else Inr s)"
proof -
  let ?s = "s\<lparr>l_state := L_HAND_SHAKE, m_write_buffer := SockBuffer_clear (m_write_buffer s)\<rparr>"
  have tab: "table_of (put_bytes bs ?s) kcs = table_of s kcs" for bs kcs
    by (simp add: table_of_def)
  have "announce_all (m_connection_map s) (put_bytes bs ?s) =
      Inr (put_bytes (enc_table (table_of s (m_connection_map s))) (put_bytes bs ?s))" for bs
    using announce_all_eq [of "m_connection_map s" "put_bytes bs ?s"] assms by (simp add: table_alive_def tab)
  moreover have "length (table_of s (m_connection_map s)) = length (m_connection_map s)"
    by (simp add: table_of_def)
  ultimately show ?thesis
    by (simp add: StdioTunnelLocal_startHandshaking_def put_enc Let_def handshake_message_def)
qed

lemma startHandshaking_sends:
  assumes "StdioTunnelLocal_startHandshaking os s = Inr t" "table_alive s" "unsent_message s = []"
  shows "outgoing t = outgoing s @ frame (handshake_message (table_of s (m_connection_map s)))"
    and "unsent_message t = []" "l_state t = L_HAND_SHAKE"
proof -
  let ?s = "s\<lparr>l_state := L_HAND_SHAKE, m_write_buffer := SockBuffer_clear (m_write_buffer s)\<rparr>"
  let ?msg = "handshake_message (table_of s (m_connection_map s))"
  have s: "outgoing ?s = outgoing s" "unsent_message ?s = []" "m_writer_attached ?s = m_writer_attached s"
    using assms(3) by (simp_all add: outgoing_def unsent_message_def)
  note start = startHandshaking_eq [OF assms(2), of os]
  have att: "m_writer_attached ?s"
    using assms(1) start by (auto simp: CustomWriteStream_send_def split: if_splits)
  obtain u where u: "CustomWriteStream_send (put_bytes ?msg ?s) = Inr u" "same_heap ?s u"
      "outgoing u = outgoing s @ frame ?msg" "unsent_message u = []"
    using send_message [OF att, of ?msg] s by auto
  have "l_state u = L_HAND_SHAKE"
    using u(2) by (cases u; cases s) (simp add: same_heap_def)
  have dmn: "outgoing y = outgoing x \<and> unsent_message y = unsent_message x \<and> l_state y = l_state x"
    if "daemon os x = Inr y" for x y :: "'a local_tunnel"
    using that
    by (auto simp: daemon_def Let_def syscall_def on_world_def outgoing_def unsent_message_def
        split: prod.splits sum.splits if_splits)
  have rm: "l_state (Poller_removePolled p f x) = l_state x" for p f and x :: "'a local_tunnel"
    by (simp add: Poller_removePolled_def Let_def split: option.splits)
  have "outgoing t = outgoing u \<and> unsent_message t = unsent_message u \<and> l_state t = l_state u"
    using assms(1) unfolding start u(1) by (auto simp: Let_def rm dest!: dmn split: if_splits)
  then show "outgoing t = outgoing s @ frame ?msg" "unsent_message t = []" "l_state t = L_HAND_SHAKE"
    using u \<open>l_state u = L_HAND_SHAKE\<close> by simp_all
qed

section \<open>The remote side\<close>

text \<open>A system on which a listening socket can be opened.\<close>

definition listens :: "('w, 'o) net_posix_scheme \<Rightarrow> bool" where
  "listens os \<longleftrightarrow> (\<forall>w. \<exists>f v. sys_socket os w = (Inr f, v)) \<and>
     (\<forall>f a p w. \<exists>v. sys_bind os f a p w = (Inr (), v)) \<and> (\<forall>f w. \<exists>v. sys_nonblock os f w = (Inr (), v)) \<and>
     (\<forall>f n w. \<exists>v. sys_listen os f n w = (Inr (), v))"

definition remote_kind :: "connection_spec \<Rightarrow> connection_kind" where
  "remote_kind sp = (if m_connection_type sp = LISTEN then ListenSide else ConnectSide)"

text \<open>The kind of a connection on the local side: it listens for what the remote side connects.\<close>

definition local_kind :: "connection_spec \<Rightarrow> connection_kind" where
  "local_kind sp = (if m_connection_type sp = CONNECT then ListenSide else ConnectSide)"

text \<open>What the new objects on the heap do not touch.\<close>

definition stream_same :: "('w, 'a) tunnel_scheme \<Rightarrow> ('w, 'a) tunnel_scheme \<Rightarrow> bool" where
  "stream_same s t \<longleftrightarrow> m_connection_map t = m_connection_map s \<and> m_read_stream t = m_read_stream s \<and>
     m_write_stream t = m_write_stream s \<and> m_writer_attached t = m_writer_attached s"

lemma initialize_succeeds:
  assumes "listens os"
  shows "\<exists>f w. ListenSide_initialize os t s = Inr (True, t\<lparr>m_listen_socket := f\<rparr>, s\<lparr>world := w\<rparr>)"
proof -
  obtain f v where 1: "sys_socket os (world s) = (Inr f, v)"
    using assms unfolding listens_def by blast
  obtain v2 where 2: "sys_bind os f (listen_addr (m_spec t)) (to_short (m_listen_port (m_spec t))) v = (Inr (), v2)"
    using assms unfolding listens_def by blast
  obtain v3 where 3: "sys_nonblock os f v2 = (Inr (), v3)"
    using assms unfolding listens_def by blast
  obtain v4 where 4: "sys_listen os f 5 v3 = (Inr (), v4)"
    using assms unfolding listens_def by blast
  have "ListenSide_initialize os t s = Inr (True, t\<lparr>m_listen_socket := f\<rparr>, s\<lparr>world := v4\<rparr>)"
    by (simp add: ListenSide_initialize_def syscall_def Let_def 1 2 3 4)
  then show ?thesis by blast
qed

lemma create_succeeds:
  assumes "listens os"
  shows "\<exists>u t. TunnelConnection_CreateConnection os sp loc i s = Inr (Some (m_next_obj s), t) \<and>
    m_connections t = (m_connections s)(m_next_obj s \<mapsto> u) \<and> m_spec u = sp \<and> tc_id u = i \<and>
    m_kind u = (if loc then local_kind sp else remote_kind sp) \<and> m_next_obj t = Suc (m_next_obj s) \<and>
    stream_same s t \<and> tunnel.more t = tunnel.more s"
proof (cases "(loc \<and> m_connection_type sp = CONNECT) \<or> (\<not> loc \<and> m_connection_type sp = LISTEN)")
  case True
  obtain f w where "ListenSide_initialize os (ListenSide_new sp i) s =
      Inr (True, (ListenSide_new sp i)\<lparr>m_listen_socket := f\<rparr>, s\<lparr>world := w\<rparr>)"
    using initialize_succeeds [OF assms] by blast
  then show ?thesis
    using True
    by (intro exI [of _ "(ListenSide_new sp i)\<lparr>m_listen_socket := f\<rparr>"])
      (auto simp: TunnelConnection_CreateConnection_def Let_def Poller_addPolled_def ListenSide_setPollfd_def
        deref_connection_def put_connection_def stream_same_def remote_kind_def local_kind_def ListenSide_new_def)
next
  case False
  then show ?thesis
    by (intro exI [of _ "ConnectSide_new sp i"])
      (auto simp: TunnelConnection_CreateConnection_def Let_def put_connection_def stream_same_def remote_kind_def
        local_kind_def ConnectSide_new_def)
qed

text \<open>A system on which the socks server can be started.\<close>

definition socks_serves :: "('w, 'o) proc_posix_scheme \<Rightarrow> bool" where
  "socks_serves os \<longleftrightarrow> (\<forall>h p w. \<exists>f v. server_setup os h p w = ((0, Some f), v)) \<and>
     (\<forall>f w. \<exists>p v. sys_getsockname os f w = (Inr p, v))"

lemma socks_succeeds:
  assumes "listens os" "socks_serves os" "m_socks5_server s = None"
  shows "\<exists>port t. start_socks5 os sp s = Inr (sp\<lparr>m_connect_host := ''localhost'', m_connect_port := uint (port :: short)\<rparr>, t) \<and>
    m_connections t = m_connections s \<and> m_next_obj t = m_next_obj s \<and> stream_same s t"
proof -
  obtain f v where 1: "server_setup os ''localhost'' (to_short (m_connect_port sp)) (sys_signal_ignore os ''SIGPIPE'' (world s)) =
      ((0, Some f), v)"
    using assms(2) unfolding socks_serves_def by blast
  obtain v2 where 2: "sys_nonblock os f v = (Inr (), v2)"
    using assms(1) unfolding listens_def by blast
  obtain port v3 where 3: "sys_getsockname os f v2 = (Inr port, v3)"
    using assms(2) unfolding socks_serves_def by blast
  show ?thesis
    by (rule exI [of _ port])
      (simp add: start_socks5_def assms(3) syscall_def on_world_def Let_def 1 2 3 Poller_addPolled_def stream_same_def)
qed

text \<open>The connections of a side by number.\<close>

definition connection_at :: "('w, 'a) tunnel_scheme \<Rightarrow> c_int \<Rightarrow> tunnel_connection option" where
  "connection_at s i = (case map_find i (m_connection_map s) of None \<Rightarrow> None | Some c \<Rightarrow> m_connections s c)"

text \<open>
  A line mirrored. The specification of the socks server goes to wherever the remote side has started it.
\<close>

abbreviation socks_line :: "connection_spec \<Rightarrow> bool" where
  "socks_line sp \<equiv> ConnectionSpec_isSocks5 (wire_spec sp)"

definition mirrored :: "c_int \<Rightarrow> connection_spec \<Rightarrow> tunnel_connection \<Rightarrow> bool" where
  "mirrored i sp u \<longleftrightarrow> tc_id u = i \<and> m_kind u = remote_kind (wire_spec sp) \<and>
     (if socks_line sp
      then \<exists>port. m_spec u = (wire_spec sp)\<lparr>m_connect_host := ''localhost'', m_connect_port := uint (port :: short)\<rparr>
      else m_spec u = wire_spec sp)"

text \<open>The table mirrored: each line read so far has become a connection of the matching kind.\<close>

definition mirrors :: "(c_int \<times> connection_spec) list \<Rightarrow> ('w, 'a) tunnel_scheme \<Rightarrow> bool" where
  "mirrors tab s \<longleftrightarrow> map_ordered (m_connection_map s) \<and>
     (\<forall>c \<in> snd ` set (m_connection_map s). c < m_next_obj s) \<and>
     (\<forall>i. rel_option (mirrored i) (map_of tab i) (connection_at s i)) \<and>
     (\<forall>i. map_find i (m_connection_map s) = None \<longleftrightarrow> map_of tab i = None)"

lemma mirrors_Nil: "m_connection_map s = [] \<Longrightarrow> mirrors [] s"
  by (simp add: mirrors_def connection_at_def map_ordered_def)

lemma mirrors_insert:
  assumes "mirrors tab s" "map_of tab i = None" "stream_same s t" "m_next_obj t = Suc (m_next_obj s)"
    and "m_connections t = (m_connections s)(m_next_obj s \<mapsto> u)"
    and "mirrored i sp u"
  shows "mirrors ((i, sp) # tab) (assign_connection i (m_next_obj s) t)"
proof -
  let ?m = "m_connection_map s" and ?c = "m_next_obj s"
  have none: "map_find i ?m = None"
    using assms(1,2) by (simp add: mirrors_def)
  have ord: "map_ordered ?m" and fresh: "\<forall>c \<in> snd ` set ?m. c < ?c"
    using assms(1) by (simp_all add: mirrors_def)
  have t: "assign_connection i ?c t = t\<lparr>m_connection_map := map_assign i ?c ?m\<rparr>"
    using none assms(3) by (simp add: assign_connection_def stream_same_def)
  have find: "map_find k (map_assign i ?c ?m) = (if k = i then Some ?c else map_find k ?m)" for k
    using map_find_assign [OF ord] .
  have "c \<noteq> ?c" if "map_find k ?m = Some c" for k c
    using that fresh map_find_set [OF ord, of k c] by force
  then have at: "connection_at (assign_connection i ?c t) k = (if k = i then Some u else connection_at s k)" for k
    by (simp add: connection_at_def t find assms(5) split: option.splits)
  have "snd ` set (map_assign i c m) \<subseteq> insert c (snd ` set m)" for c :: nat and m
    by (induction i c m rule: map_assign.induct) auto
  then have "\<forall>c \<in> snd ` set (map_assign i ?c ?m). c < Suc ?c"
    using fresh less_Suc_eq by blast
  then show ?thesis
    using assms(1,4,6) map_ordered_assign [OF ord, of i ?c] unfolding mirrors_def at
    by (simp add: t find)
qed

text \<open>What the handshake can carry.\<close>

definition wire_table :: "(c_int \<times> connection_spec) list \<Rightarrow> bool" where
  "wire_table tab \<longleftrightarrow> distinct (map fst tab) \<and> length tab < 32768 \<and>
     (\<forall>(i, sp) \<in> set tab. -32768 \<le> i \<and> i < 32768 \<and> length (m_connect_host sp) < 2 ^ 32) \<and>
     length (filter (\<lambda>(i, sp). socks_line sp) tab) \<le> 1"

text \<open>A remote side that can do its part: it can listen, and start the socks server when the table asks for it.\<close>

definition can_serve :: "('w, 'o) proc_posix_scheme \<Rightarrow> (c_int \<times> connection_spec) list \<Rightarrow> 'w remote_tunnel \<Rightarrow> bool" where
  "can_serve os tab s \<longleftrightarrow> listens os \<and> ((\<exists>(i, sp) \<in> set tab. socks_line sp) \<longrightarrow> socks_serves os \<and> m_socks5_server s = None)"

definition io_same :: "'w remote_tunnel \<Rightarrow> 'w remote_tunnel \<Rightarrow> bool" where
  "io_same s t \<longleftrightarrow> outgoing t = outgoing s \<and> unsent_message t = unsent_message s \<and>
     m_writer_attached t = m_writer_attached s"

lemma mirrors_cong:
  "mirrors tab s \<Longrightarrow> m_connection_map t = m_connection_map s \<Longrightarrow> m_connections t = m_connections s \<Longrightarrow>
     m_next_obj t = m_next_obj s \<Longrightarrow> mirrors tab t"
  by (simp add: mirrors_def connection_at_def cong: option.case_cong)

lemma same_socks: "tunnel.more t = tunnel.more s \<Longrightarrow> m_socks5_server t = m_socks5_server s" for s t :: "'w remote_tunnel"
  by (cases s; cases t) simp

lemma receive_line:
  assumes "can_serve os [(i, sp)] s" "mirrors tab s" "map_of tab i = None" "-32768 \<le> i" "i < 32768"
    and "length (m_connect_host sp) < 2 ^ 32" "incoming s = enc_int i @ enc_spec sp @ rest"
  shows "\<exists>t. receive_connection os s = Inr t \<and> mirrors ((i, sp) # tab) t \<and> incoming t = rest \<and> io_same s t \<and>
    (\<not> socks_line sp \<longrightarrow> m_socks5_server t = m_socks5_server s)"
proof -
  let ?s = "with_incoming rest s"
  have listens: "listens os"
    using assms(1) by (simp add: can_serve_def)
  obtain spec v where v: "(if socks_line sp then start_socks5 os (wire_spec sp) ?s else Inr (wire_spec sp, ?s)) = Inr (spec, v)"
      "m_connections v = m_connections ?s" "m_next_obj v = m_next_obj ?s" "stream_same ?s v"
      "\<not> socks_line sp \<Longrightarrow> tunnel.more v = tunnel.more ?s"
      "if socks_line sp then \<exists>port. spec = (wire_spec sp)\<lparr>m_connect_host := ''localhost'', m_connect_port := uint (port :: short)\<rparr>
       else spec = wire_spec sp"
  proof (cases "socks_line sp")
    case True
    have "m_socks5_server ?s = None" "socks_serves os"
      using assms(1) True by (simp_all add: can_serve_def with_incoming_def)
    then show thesis
      using that socks_succeeds [OF listens, of ?s "wire_spec sp"] True by auto
  next
    case False
    then show thesis
      using that [of "wire_spec sp" ?s] by (simp add: stream_same_def)
  qed
  have kind: "remote_kind spec = remote_kind (wire_spec sp)"
    using v(6) by (auto simp: remote_kind_def split: if_splits)
  obtain u t where t: "TunnelConnection_CreateConnection os spec False i v = Inr (Some (m_next_obj v), t)"
    "m_connections t = (m_connections v)(m_next_obj v \<mapsto> u)" "m_spec u = spec" "tc_id u = i"
    "m_kind u = remote_kind spec" "m_next_obj t = Suc (m_next_obj v)" "stream_same v t" "tunnel.more t = tunnel.more v"
    using create_succeeds [OF listens, of spec False i v] by auto
  have same: "stream_same ?s t" "mirrors tab ?s" "mirrored i sp u"
    using v(4,6) t(3-5,7) kind mirrors_cong [OF assms(2), of ?s] by (auto simp: stream_same_def mirrored_def)
  have "m_next_obj t = Suc (m_next_obj ?s)" "m_connections t = (m_connections ?s)(m_next_obj ?s \<mapsto> u)"
    using t(2,6) v(2,3) by simp_all
  note m = mirrors_insert [OF same(2) assms(3) same(1) this same(3)]
  have s: "s = with_incoming (enc_int i @ enc_spec sp @ rest) s"
    using assms(7) by (metis incoming_simps(3))
  have "receive_connection os s = Inr (assign_connection i (m_next_obj ?s) t)"
    using t(1) v(1,3) assms(4-6)
    by (subst s) (simp add: receive_connection_def get_int_enc reading_spec_enc of_to_short_small)
  moreover have "map_find i (m_connection_map t) = None"
    using assms(2,3) same(1) by (simp add: mirrors_def stream_same_def)
  then have "incoming (assign_connection i (m_next_obj ?s) t) = rest \<and> io_same s (assign_connection i (m_next_obj ?s) t) \<and>
      (\<not> socks_line sp \<longrightarrow> m_socks5_server (assign_connection i (m_next_obj ?s) t) = m_socks5_server s)"
    using same(1) t(8) v(5) same_socks [of t ?s] by (auto simp: assign_connection_def incoming_def io_same_def outgoing_def
        unsent_message_def stream_same_def with_incoming_def)
  ultimately show ?thesis
    using m by blast
qed

lemma receive_table:
  "mirrors done s \<Longrightarrow> wire_table tab \<Longrightarrow> can_serve os tab s \<Longrightarrow> fst ` set tab \<inter> fst ` set done = {} \<Longrightarrow>
    incoming s = enc_table tab @ rest \<Longrightarrow>
    \<exists>t. iterE (length tab) (receive_connection os) s = Inr t \<and> mirrors (rev tab @ done) t \<and> incoming t = rest \<and>
      io_same s t"
proof (induction tab arbitrary: s "done")
  case Nil
  then show ?case by (simp add: io_same_def)
next
  case (Cons isp tab)
  obtain i sp where isp: "isp = (i, sp)" by fastforce
  have "map_of done i = None"
    using Cons.prems(4) by (auto simp: isp map_of_eq_None_iff)
  moreover have "can_serve os [(i, sp)] s"
    using Cons.prems(3) by (auto simp: can_serve_def isp)
  ultimately obtain u where u: "receive_connection os s = Inr u" "mirrors ((i, sp) # done) u" "incoming u = enc_table tab @ rest"
      "io_same s u" "\<not> socks_line sp \<longrightarrow> m_socks5_server u = m_socks5_server s"
    using receive_line [OF _ Cons.prems(1), of os i sp "enc_table tab @ rest"] Cons.prems(2,5)
    by (auto simp: wire_table_def isp)
  moreover have tab: "wire_table tab" "fst ` set tab \<inter> fst ` set ((i, sp) # done) = {}"
    using Cons.prems(2,4) by (auto simp: wire_table_def isp rev_image_eqI split: if_splits)
  moreover have "socks_line sp \<Longrightarrow> \<forall>(j, sp) \<in> set tab. \<not> socks_line sp"
    using Cons.prems(2) by (auto simp: wire_table_def isp filter_empty_conv)
  then have "can_serve os tab u"
    using Cons.prems(3) u(5) by (fastforce simp: can_serve_def isp)
  ultimately obtain t where t: "iterE (length tab) (receive_connection os) u = Inr t"
      "mirrors (rev tab @ (i, sp) # done) t" "incoming t = rest" "io_same u t"
    using Cons.IH [of "(i, sp) # done" u] by blast
  then show ?case
    using u by (auto simp: isp io_same_def)
qed

lemma mirrors_rev:
  assumes "distinct (map fst tab)"
  shows "mirrors (rev tab) s = mirrors tab s"
proof -
  have "map_of (rev tab) k = Some v \<longleftrightarrow> map_of tab k = Some v" for k v
    using assms by (simp add: map_of_eq_Some_iff rev_map [symmetric])
  then have "map_of (rev tab) k = map_of tab k" for k
    by (metis option.exhaust)
  then show ?thesis
    by (simp add: mirrors_def)
qed

lemma remote_handshake:
  assumes "can_serve os tab s" "r_state s = R_HANDSHAKING" "incoming s = handshake_message tab" "wire_table tab"
    and "m_connection_map s = []" "m_writer_attached s" "unsent_message s = []"
  shows "\<exists>t. StdioTunnelRemote_message os s = Inr t \<and> r_state t = R_CONNECTED \<and> mirrors tab t \<and>
    incoming t = [] \<and> outgoing t = outgoing s @ frame (enc_int CMD_CREATE) \<and> unsent_message t = [] \<and> m_writer_attached t"
proof -
  let ?s = "with_incoming (enc_table tab) s"
  have s: "s = with_incoming (handshake_message tab) s"
    using assms(3) by (metis incoming_simps(3))
  have rs: "r_state (with_incoming bs s) = R_HANDSHAKING" for bs
    using assms(2) by (simp add: with_incoming_def)
  have len: "of_short (to_short (int (length tab))) = int (length tab)"
    using assms(4) by (intro of_to_short_small) (simp_all add: wire_table_def)
  have serve: "can_serve os tab ?s"
    using assms(1) by (simp add: can_serve_def with_incoming_def)
  obtain u where u: "iterE (length tab) (receive_connection os) ?s = Inr u" "mirrors (rev tab) u" "incoming u = []"
      "io_same ?s u"
    using receive_table [OF mirrors_Nil _ serve, of "[]"] assms(4,5) by auto
  let ?u = "u\<lparr>r_state := R_CONNECTED\<rparr>"
  have out: "unsent_message ?u = []" "outgoing ?u = outgoing s" "m_writer_attached ?u"
    using u(4) assms(6,7)
    by (simp_all add: io_same_def) (simp_all add: unsent_message_def outgoing_def)
  obtain t where t: "CustomWriteStream_send (put_bytes (enc_int CMD_CREATE) ?u) = Inr t" "same_heap ?u t"
      "outgoing t = outgoing s @ frame (enc_int CMD_CREATE)" "m_read_stream t = m_read_stream ?u" "unsent_message t = []"
    using send_message [OF out(3), of "enc_int CMD_CREATE"] out by (auto simp: enc_int_def enc_short_def)
  have "StdioTunnelRemote_message os s = Inr t"
    using u(1) t(1)
    by (subst s) (simp add: StdioTunnelRemote_message_def handshake_message_def get_int_enc rs
        StdioTunnelRemote_handshake_def len put_enc)
  moreover have "r_state t = R_CONNECTED"
    using t(2) by (cases t; cases u) (simp add: same_heap_def)
  moreover have "mirrors tab t"
    using u(2) t(2) mirrors_rev [of tab u] assms(4)
    by (auto simp: wire_table_def same_heap_def intro: mirrors_cong [of tab u t])
  moreover have "incoming t = []"
    using u(3) t(4) by (simp add: incoming_def)
  moreover have "m_writer_attached t"
    using t(2) out(3) by (simp add: same_heap_def)
  ultimately show ?thesis
    using t(3,5) by blast
qed

section \<open>A client that comes too early\<close>

text \<open>
  The listening sockets of the local side are watched from the start, so a client may be accepted
  while the connection command is still logging in.
\<close>

lemma accept_sends:
  assumes "ListenSide_polled os c s = Inr t" "m_connections s c = Some u" "unsent_message s = []"
  shows "outgoing t = outgoing s @ frame (enc_header (tc_id u) LINK_CREATE (to_short (m_next_id u)))"
    and "unsent_message t = []" "m_writer_attached t" "m_connection_map t = m_connection_map s"
    and "\<And>d v. m_connections s d = Some v \<Longrightarrow> \<exists>v'. m_connections t d = Some v' \<and> tc_id v' = tc_id v \<and> m_spec v' = m_spec v"
proof -
  obtain x w1 where x: "sys_accept os (m_listen_socket u) (world s) = (Inr x, w1)"
    using assms(1,2)
    by (auto simp: ListenSide_polled_def deref_connection_def syscall_def split: prod.splits sum.splits)
  obtain w2 where w2: "sys_nonblock os x w1 = (Inr (), w2)"
    using assms(1,2) x
    by (auto simp: ListenSide_polled_def deref_connection_def syscall_def split: prod.splits sum.splits)
  let ?id = "to_short (m_next_id u)"
  define s1 where "s1 = put_connection c (u\<lparr>m_next_id := m_next_id u + 1\<rparr>) (s\<lparr>world := w2\<rparr>)"
  define s2 where "s2 = snd (new_link (ConnectionLink_new c ?id x) s1)"
  have heap: "m_connections s2 = (m_connections s)(c \<mapsto> u\<lparr>m_next_id := m_next_id u + 1\<rparr>)"
      "m_connection_map s2 = m_connection_map s" "outgoing s2 = outgoing s" "unsent_message s2 = []"
    using assms(3) by (simp_all add: s2_def s1_def new_link_def put_link_def put_connection_def outgoing_def unsent_message_def)
  obtain s3 where s3: "assign_link c ?id (m_next_obj s1) s2 = Inr s3"
      "\<exists>m. m_connections s3 = (m_connections s)(c \<mapsto> u\<lparr>m_next_id := m_next_id u + 1, m_link_map := m\<rparr>)"
      "m_connection_map s3 = m_connection_map s" "outgoing s3 = outgoing s" "unsent_message s3 = []"
    using assign_link_effect [of s2 c "u\<lparr>m_next_id := m_next_id u + 1\<rparr>" ?id "m_next_obj s1"] heap by auto
  have t: "CustomWriteStream_send (put_bytes (enc_header (tc_id u) LINK_CREATE ?id) s3) = Inr t"
    using assms(1,2) x w2 s3(1)
    by (simp add: ListenSide_polled_def deref_connection_def syscall_def s1_def s2_def new_link_def put_header_enc Let_def)
  then have att: "m_writer_attached s3"
    by (auto simp: CustomWriteStream_send_def split: if_splits)
  have "outgoing t = outgoing s @ frame (enc_header (tc_id u) LINK_CREATE ?id) \<and> unsent_message t = [] \<and> same_heap s3 t"
    using send_message [OF att, of "enc_header (tc_id u) LINK_CREATE ?id"] t s3
    by (auto simp: enc_header_def enc_int_def enc_short_def)
  then show "outgoing t = outgoing s @ frame (enc_header (tc_id u) LINK_CREATE ?id)" "unsent_message t = []"
    "m_writer_attached t" "m_connection_map t = m_connection_map s"
    "\<And>d v. m_connections s d = Some v \<Longrightarrow> \<exists>v'. m_connections t d = Some v' \<and> tc_id v' = tc_id v \<and> m_spec v' = m_spec v"
    using att s3 assms(2) by (auto simp: same_heap_def)
qed

lemma remote_rejects_link:
  assumes "r_state r = R_HANDSHAKING" "incoming r = enc_header i cmd x @ rest"
  shows "StdioTunnelRemote_message os r = Inl (MyException ''Unexpected handshake command'')"
proof -
  have r: "r = with_incoming (enc_header i cmd x @ rest) r"
    using assms(2) by (metis incoming_simps(3))
  have "r_state (with_incoming bs r) = R_HANDSHAKING" for bs
    using assms(1) by (simp add: with_incoming_def)
  then show ?thesis
    by (subst r) (simp add: StdioTunnelRemote_message_def enc_header_def get_int_enc StdioTunnelRemote_handshake_def)
qed

lemma local_gets_reply:
  assumes "incoming s = enc_int CMD_CREATE"
  shows "\<exists>t. StdioTunnelLocal_message os s = Inr t \<and> l_state t = L_CONNECTED"
proof -
  have s: "s = with_incoming (enc_int CMD_CREATE @ []) s"
    using assms by (metis append_Nil2 incoming_simps(3))
  show ?thesis
    by (subst s) (simp only: StdioTunnelLocal_message_def get_int_enc bindE_Inr prod.case, simp)
qed

lemma mirrors_lookup:
  assumes "mirrors tab s" "distinct (map fst tab)" "(i, sp) \<in> set tab"
  shows "\<exists>u. connection_at s i = Some u \<and> mirrored i sp u"
proof -
  have "map_of tab i = Some sp"
    using assms(2,3) by simp
  moreover have "rel_option (mirrored i) (map_of tab i) (connection_at s i)"
    using assms(1) unfolding mirrors_def by blast
  ultimately show ?thesis
    by (cases "connection_at s i") simp_all
qed

section \<open>Properties\<close>

text \<open>C7: The handshake agrees on the connections. When the local side has seen the announcement it queues
  one message with its whole table, behind whatever waits already; a remote side that receives this
  message, on a system that lets it open its listening sockets and start the socks server if the table asks
  for it, becomes connected with a connection of the same number and specification (numbers cut to 16
  bits, and the socks server's address for the line that asks for it) for every line, of the kind that
  matches, and answers; and the answer makes the local side connected.\<close>

theorem handshake_agreement:
  assumes "StdioTunnelLocal_startHandshaking osl l = Inr l'" "table_alive l" "unsent_message l = []"
    and "tab = table_of l (m_connection_map l)" "wire_table tab"
    and "can_serve osr tab r" "r_state r = R_HANDSHAKING" "m_connection_map r = []" "m_writer_attached r" "unsent_message r = []"
  shows "outgoing l' = outgoing l @ frame (handshake_message tab) \<and> l_state l' = L_HAND_SHAKE \<and>
    (\<exists>r'. StdioTunnelRemote_message osr (with_incoming (handshake_message tab) r) = Inr r' \<and> r_state r' = R_CONNECTED \<and>
       (\<forall>(i, sp) \<in> set tab. \<exists>u. connection_at r' i = Some u \<and> mirrored i sp u) \<and>
       outgoing r' = outgoing r @ frame (enc_int CMD_CREATE)) \<and>
    (\<exists>l''. StdioTunnelLocal_message osl (with_incoming (enc_int CMD_CREATE) l') = Inr l'' \<and> l_state l'' = L_CONNECTED)"
proof -
  let ?r = "with_incoming (handshake_message tab) r"
  have "r_state ?r = R_HANDSHAKING" "can_serve osr tab ?r"
    using assms(6,7) by (simp_all add: with_incoming_def can_serve_def)
  then obtain r' where r': "StdioTunnelRemote_message osr ?r = Inr r'" "r_state r' = R_CONNECTED" "mirrors tab r'"
      "outgoing r' = outgoing ?r @ frame (enc_int CMD_CREATE)"
    using remote_handshake [OF _ _ _ assms(5), of osr ?r] assms(8-10) by auto
  moreover have "distinct (map fst tab)"
    using assms(5) by (simp add: wire_table_def)
  ultimately show ?thesis
    using startHandshaking_sends [OF assms(1-3)] local_gets_reply [of "with_incoming (enc_int CMD_CREATE) l'" osl]
      mirrors_lookup [OF r'(3)] assms(4) by auto
qed

definition demo_l :: "pipe_world local_tunnel" where
  "demo_l = (StdioTunnelLocal_new (StdioTunnel_new (pipe_proc 40) False
       \<lparr>c_iflag = 0, c_oflag = 0, c_lflag = 0, c_cflag = 0\<rparr> 0 0 (demo_world [])))
     \<lparr>m_connection_map := [(0, 0)], m_connections := [0 \<mapsto> ListenSide_new demo_spec 0],
       m_writer_attached := True, m_writer_fd := 32\<rparr>"

definition demo_r :: "pipe_world remote_tunnel" where
  "demo_r = (StdioTunnelRemote_new (StdioTunnel_new (pipe_proc 40) False
       \<lparr>c_iflag = 0, c_oflag = 0, c_lflag = 0, c_cflag = 0\<rparr> 0 0 (demo_world [])))
     \<lparr>r_state := R_HANDSHAKING, m_writer_attached := True, m_writer_fd := STDOUT_FD\<rparr>"

lemmas demo_sides = demo_l_def demo_r_def StdioTunnelLocal_new_def StdioTunnelRemote_new_def StdioTunnel_new_def
  tunnel.extend_def poller.extend_def Poller_new_def pipe_proc_def pipe_net_def net_posix.extend_def posix.extend_def

lemma demo_l_facts:
  "table_alive demo_l" "unsent_message demo_l = []" "outgoing demo_l = []" "m_connection_map demo_l = [(0, 0)]"
  "table_of demo_l (m_connection_map demo_l) = [(0, demo_spec)]" "m_connections demo_l 0 = Some (ListenSide_new demo_spec 0)"
  by (simp_all add: demo_sides table_alive_def unsent_message_def outgoing_def WriteStream_new_def ws_pending_def
      table_of_def ListenSide_new_def)

lemma demo_r_facts:
  "r_state demo_r = R_HANDSHAKING" "m_connection_map demo_r = []" "m_writer_attached demo_r" "unsent_message demo_r = []"
  by (simp_all add: demo_sides unsent_message_def WriteStream_new_def)

lemma pipe_proc_listens: "listens (pipe_proc q)"
  by (simp add: listens_def pipe_proc_def pipe_net_def net_posix.extend_def posix.extend_def)

lemma pipe_proc_serves: "socks_serves (pipe_proc q)"
  by (simp add: socks_serves_def server_setup_def resolve_def pipe_proc_def pipe_net_def net_posix.extend_def posix.extend_def)

lemma pipe_can_serve: "m_socks5_server r = None \<Longrightarrow> can_serve (pipe_proc q) tab r"
  by (simp add: can_serve_def pipe_proc_listens pipe_proc_serves)

lemma demo_wire_table: "wire_table [(0, demo_spec)]"
  by (simp add: wire_table_def demo_spec_def wire_spec_def ConnectionSpec_isSocks5_def)

text \<open>A table with a second line, for the socks server.\<close>

definition demo_socks :: connection_spec where
  "demo_socks = \<lparr>m_connection_type = CONNECT, m_connect_host = [], m_connect_port = 0, m_listen_port = 1080, m_flags = 0\<rparr>"

definition demo_two :: "pipe_world local_tunnel" where
  "demo_two = demo_l\<lparr>m_connection_map := [(0, 0), (1, 1)],
     m_connections := [0 \<mapsto> ListenSide_new demo_spec 0, 1 \<mapsto> ListenSide_new demo_socks 1]\<rparr>"

lemma demo_socks_line: "socks_line demo_socks" "\<not> socks_line demo_spec"
  by (simp_all add: demo_socks_def demo_spec_def wire_spec_def ConnectionSpec_isSocks5_def to_short_def of_short_def)

lemma demo_two_facts:
  "table_alive demo_two" "unsent_message demo_two = []" "outgoing demo_two = []"
  "table_of demo_two (m_connection_map demo_two) = [(0, demo_spec), (1, demo_socks)]"
  "wire_table [(0, demo_spec), (1, demo_socks)]" "m_socks5_server demo_r = None"
  using demo_socks_line
  by (simp_all add: demo_two_def demo_sides table_alive_def unsent_message_def outgoing_def WriteStream_new_def ws_pending_def
      table_of_def ListenSide_new_def wire_table_def) (simp_all add: demo_spec_def demo_socks_def)

lemma demo_handshaking: "\<exists>l'. StdioTunnelLocal_startHandshaking (pipe_proc 40) demo_l = Inr l'"
  by (simp add: StdioTunnelLocal_startHandshaking_def announce_connection_def deref_connection_def demo_sides Let_def
      put_short_def writing_def CustomWriteStream_send_def ListenSide_new_def Poller_setEvents_def Poller_removePolled_def)

lemma demo_two_handshaking: "\<exists>l'. StdioTunnelLocal_startHandshaking (pipe_proc 40) demo_two = Inr l'"
  by (simp add: StdioTunnelLocal_startHandshaking_def announce_connection_def deref_connection_def demo_two_def demo_sides Let_def
      put_short_def writing_def CustomWriteStream_send_def ListenSide_new_def Poller_setEvents_def Poller_removePolled_def)

theorem handshake_agreement_witness:
  "\<exists>l' r' u v. StdioTunnelLocal_startHandshaking (pipe_proc 40) demo_two = Inr l' \<and>
     outgoing l' = frame (handshake_message [(0, demo_spec), (1, demo_socks)]) \<and>
     StdioTunnelRemote_message (pipe_proc 40) (with_incoming (handshake_message [(0, demo_spec), (1, demo_socks)]) demo_r) = Inr r' \<and>
     r_state r' = R_CONNECTED \<and> connection_at r' 0 = Some u \<and> m_connect_host (m_spec u) = ''web'' \<and> m_kind u = ConnectSide \<and>
     connection_at r' 1 = Some v \<and> m_connect_host (m_spec v) = ''localhost'' \<and> m_kind v = ConnectSide"
proof -
  obtain l' where l': "StdioTunnelLocal_startHandshaking (pipe_proc 40) demo_two = Inr l'"
    using demo_two_handshaking by blast
  have "remote_kind (wire_spec demo_spec) = ConnectSide" "remote_kind (wire_spec demo_socks) = ConnectSide"
    "m_connect_host (wire_spec demo_spec) = ''web''"
    by (simp_all add: remote_kind_def wire_spec_def demo_spec_def demo_socks_def CONNECT_def LISTEN_def of_to_short_small)
  then show ?thesis
    using l' handshake_agreement [OF l' demo_two_facts(1,2) demo_two_facts(4) [symmetric] demo_two_facts(5)
        pipe_can_serve [OF demo_two_facts(6)] demo_r_facts, of 40] demo_two_facts(3) demo_socks_line
    by (auto simp: mirrored_def)
qed

text \<open>C24: A client that connects to a forwarded port before the handshake breaks the tunnel: the message that
  asks for its link is queued at once and goes out ahead of the connection table, and the first
  message the remote side then reads, still waiting for the table, makes it throw.\<close>

theorem early_client_breaks_handshake:
  assumes "ListenSide_polled os c s = Inr s1" "StdioTunnelLocal_startHandshaking os s1 = Inr s2"
    and "m_connections s c = Some u" "table_alive s" "unsent_message s = []" "outgoing s = []"
  shows "outgoing s2 = frame (enc_header (tc_id u) LINK_CREATE (to_short (m_next_id u))) @
      frame (handshake_message (table_of s (m_connection_map s))) \<and>
    (r_state r = R_HANDSHAKING \<longrightarrow>
      StdioTunnelRemote_message osr (with_incoming (enc_header (tc_id u) LINK_CREATE (to_short (m_next_id u))) r) =
        Inl (MyException ''Unexpected handshake command''))"
proof -
  note a = accept_sends [OF assms(1,3,5)]
  have "table_alive s1"
    using assms(4) a(4,5) by (fastforce simp: table_alive_def)
  moreover have "table_of s1 (m_connection_map s1) = table_of s (m_connection_map s)"
  proof -
    have "tc_id (the (m_connections s1 d)) = tc_id (the (m_connections s d)) \<and>
        m_spec (the (m_connections s1 d)) = m_spec (the (m_connections s d))"
      if d: "(k, d) \<in> set (m_connection_map s)" for k d
    proof -
      obtain v where v: "m_connections s d = Some v"
        using d assms(4) by (force simp: table_alive_def)
      with a(5) [OF v] show ?thesis by auto
    qed
    then show ?thesis
      unfolding a(4) table_of_def by (auto intro!: map_cong)
  qed
  ultimately have "outgoing s2 = outgoing s1 @ frame (handshake_message (table_of s (m_connection_map s)))"
    using startHandshaking_sends(1) [OF assms(2) _ a(2)] by simp
  moreover have "r_state (with_incoming bs r) = r_state r" for bs
    by (simp add: with_incoming_def)
  ultimately show ?thesis
    using a(1) assms(6) remote_rejects_link
      [of "with_incoming (enc_header (tc_id u) LINK_CREATE (to_short (m_next_id u))) r" "tc_id u" LINK_CREATE
        "to_short (m_next_id u)" "[]" osr]
    by simp
qed

lemma demo_accept: "\<exists>s1 s2. ListenSide_polled (pipe_proc 40) 0 demo_l = Inr s1 \<and>
    StdioTunnelLocal_startHandshaking (pipe_proc 40) s1 = Inr s2"
  by (simp add: ListenSide_polled_def syscall_def new_link_def put_link_def assign_link_def put_connection_def put_header_def
      StdioTunnelLocal_startHandshaking_def announce_connection_def deref_connection_def demo_sides Let_def
      put_short_def writing_def CustomWriteStream_send_def ListenSide_new_def Poller_setEvents_def Poller_removePolled_def)

theorem early_client_breaks_handshake_witness:
  "\<exists>s1 s2. ListenSide_polled (pipe_proc 40) 0 demo_l = Inr s1 \<and>
     StdioTunnelLocal_startHandshaking (pipe_proc 40) s1 = Inr s2 \<and>
     outgoing s2 = frame (enc_header 0 LINK_CREATE (to_short 501)) @ frame (handshake_message [(0, demo_spec)]) \<and>
     StdioTunnelRemote_message (pipe_proc 40) (with_incoming (enc_header 0 LINK_CREATE (to_short 501)) demo_r) =
       Inl (MyException ''Unexpected handshake command'')"
proof -
  obtain s1 s2 where s: "ListenSide_polled (pipe_proc 40) 0 demo_l = Inr s1"
      "StdioTunnelLocal_startHandshaking (pipe_proc 40) s1 = Inr s2"
    using demo_accept by blast
  have "tc_id (ListenSide_new demo_spec 0) = 0" "m_next_id (ListenSide_new demo_spec 0) = 501"
    by (simp_all add: ListenSide_new_def)
  then show ?thesis
    using s early_client_breaks_handshake [OF s demo_l_facts(6) demo_l_facts(1-3), of demo_r "pipe_proc 40"]
      demo_l_facts(5) demo_r_facts(1) by auto
qed

end
