(* ===== verification/Link_Refinement.thy ===== *)
theory Link_Refinement
  imports Link_Protocol Handshake
begin

text \<open>
  The handlers of \<open>ListenSide\<close> and \<open>ConnectSide\<close> implement the ends of \<open>Link_Protocol\<close>:
  the state of a link on the heap is seen as an end, a message as the bytes that carry it.
\<close>

section \<open>Messages as bytes\<close>

fun msg_code :: "msg \<Rightarrow> c_int" where
  "msg_code MCreate = LINK_CREATE"
| "msg_code MSuccess = LINK_CREATE"
| "msg_code MFailure = LINK_CREATE"
| "msg_code (MData w bs) = (if w then LINK_SEND_FOR_ACK else LINK_SEND)"
| "msg_code MAck = LINK_ACK"
| "msg_code MClose = LINK_CLOSE"

fun msg_body :: "msg \<Rightarrow> bytes" where
  "msg_body MSuccess = enc_int LINK_SUCCESS"
| "msg_body MFailure = enc_int LINK_FAILURE"
| "msg_body (MData w bs) = enc_int (int (length bs)) @ bs"
| "msg_body _ = []"

text \<open>A whole message of connection \<open>i\<close> for link \<open>x\<close>, and the part a connection reads itself.\<close>

definition enc_msg :: "c_int \<Rightarrow> short \<Rightarrow> msg \<Rightarrow> bytes" where
  "enc_msg i x m = enc_header i (msg_code m) x @ msg_body m"

definition link_bytes :: "short \<Rightarrow> msg \<Rightarrow> bytes" where
  "link_bytes x m = enc_int (msg_code m) @ enc_short x @ msg_body m"

lemma enc_msg_link_bytes: "enc_msg i x m = enc_int CMD_CONNECTION @ enc_int i @ link_bytes x m"
  by (simp add: enc_msg_def link_bytes_def enc_header_def)

definition frames_of :: "c_int \<Rightarrow> short \<Rightarrow> msg list \<Rightarrow> bytes" where
  "frames_of i x ms = concat (map (frame \<circ> enc_msg i x) ms)"

text \<open>The messages that fit: data of at most one block.\<close>

fun fits :: "msg \<Rightarrow> bool" where
  "fits (MData w bs) = (length bs \<le> TunnelConnection_BUFFER_SIZE)"
| "fits m = True"

section \<open>A link as an end\<close>

text \<open>A listening link is registered with the poller only when the answer has come.\<close>

definition view_link :: "('w, 'a) tunnel_scheme \<Rightarrow> connection_kind \<Rightarrow> nat \<Rightarrow> endpoint" where
  "view_link s k a =
     (case m_links s a of
        None \<Rightarrow> Gone
      | Some l \<Rightarrow>
          if m_closing l then Closing
          else if k = ListenSide \<and> poller_map s (P_Link a, m_socket l) = None then Waiting
          else Open (m_acknowledged l))"

definition view :: "('w, 'a) tunnel_scheme \<Rightarrow> nat \<Rightarrow> short \<Rightarrow> endpoint" where
  "view s c x =
     (case m_connections s c of
        None \<Rightarrow> Gone
      | Some t \<Rightarrow> (case m_link_map t x of None \<Rightarrow> Gone | Some a \<Rightarrow> view_link s (m_kind t) a))"

text \<open>The heap is in order for this link: the map leads to an object that knows its place.\<close>

definition link_ok :: "('w, 'a) tunnel_scheme \<Rightarrow> nat \<Rightarrow> short \<Rightarrow> bool" where
  "link_ok s c x \<longleftrightarrow>
     (\<exists>t. m_connections s c = Some t \<and>
       (\<forall>a. m_link_map t x = Some a \<longrightarrow>
          (\<exists>l. m_links s a = Some l \<and> lk_id l = x \<and> m_connection l = c \<and> sb_inv (m_buffer l) \<and>
             (view_link s (m_kind t) a = Waiting \<longrightarrow> m_acknowledged l))))"

text \<open>The data a link holds for its socket.\<close>

definition held :: "('w, 'a) tunnel_scheme \<Rightarrow> nat \<Rightarrow> short \<Rightarrow> bytes" where
  "held s c x =
     (case m_connections s c of
        None \<Rightarrow> []
      | Some t \<Rightarrow> (case m_link_map t x of
           None \<Rightarrow> []
         | Some a \<Rightarrow> (case m_links s a of None \<Rightarrow> [] | Some l \<Rightarrow> sb_content (m_buffer l))))"

section \<open>The parts of a handler\<close>

lemma poller_map_put [simp]:
  "poller_map (put_link a l s) = poller_map s" "poller_map (with_incoming bs s) = poller_map s"
  "poller_map (on_world f s) = poller_map s" "poller_map (put_bytes bs s) = poller_map s"
  "poller_map (free_link a s) = poller_map s" "poller_map (put_connection c t s) = poller_map s"
  "poller_map (writing g s) = poller_map s"
  by (simp_all add: fun_eq_iff poller_map_def put_link_def with_incoming_def on_world_def put_bytes_def writing_def
      free_link_def put_connection_def)

text \<open>Whether an entry is registered, after a request for it.\<close>

lemma registered_setEvents [simp]:
  "poller_map (Poller_setEvents p f ev s) k = None \<longleftrightarrow> poller_map s k = None"
  by (simp add: setEvents_map)

lemma registered_send:
  "CustomWriteStream_send s = Inr t \<Longrightarrow> poller_map t k = None \<longleftrightarrow> poller_map s k = None"
  by (auto simp: CustomWriteStream_send_def split: if_splits)

lemma heap_setEvents [simp]:
  "m_links (Poller_setEvents p f ev s) = m_links s" "m_connections (Poller_setEvents p f ev s) = m_connections s"
  "m_writer_attached (Poller_setEvents p f ev s) = m_writer_attached s" "incoming (Poller_setEvents p f ev s) = incoming s"
  by (simp_all add: incoming_def Poller_setEvents_def Let_def split: option.splits)

lemma heap_put [simp]:
  "m_links (put_link a l s) = (m_links s)(a \<mapsto> l)" "m_connections (put_link a l s) = m_connections s"
  "m_writer_attached (put_link a l s) = m_writer_attached s" "incoming (put_link a l s) = incoming s"
  "outgoing (put_link a l s) = outgoing s" "unsent_message (put_link a l s) = unsent_message s"
  "m_links (on_world f s) = m_links s" "m_connections (on_world f s) = m_connections s"
  "m_writer_attached (on_world f s) = m_writer_attached s" "incoming (on_world f s) = incoming s"
  "outgoing (on_world f s) = outgoing s" "unsent_message (on_world f s) = unsent_message s"
  "world (put_link a l s) = world s" "world (on_world f s) = f (world s)"
  by (simp_all add: put_link_def on_world_def incoming_def outgoing_def unsent_message_def)

text \<open>One message of a link.\<close>

definition sent :: "c_int \<Rightarrow> short \<Rightarrow> msg list \<Rightarrow> ('w, 'a) tunnel_scheme \<Rightarrow> ('w, 'a) tunnel_scheme \<Rightarrow> bool" where
  "sent i x ms s t \<longleftrightarrow> outgoing t = outgoing s @ frames_of i x ms \<and> unsent_message t = [] \<and>
     m_writer_attached t = m_writer_attached s"

lemma frames_of_simps [simp]:
  "frames_of i x [] = []" "frames_of i x (m # ms) = frame (enc_msg i x m) @ frames_of i x ms"
  by (simp_all add: frames_of_def)

lemma send_msg:
  assumes "m_writer_attached s" "unsent_message s = []"
  shows "\<exists>t. CustomWriteStream_send (put_bytes (enc_msg i x m) s) = Inr t \<and> sent i x [m] s t \<and> m_links t = m_links s \<and>
    m_connections t = m_connections s \<and> incoming t = incoming s \<and> (\<forall>k. poller_map t k = None \<longleftrightarrow> poller_map s k = None) \<and>
    world t = world s"
proof -
  have "enc_msg i x m \<noteq> []"
    by (simp add: enc_msg_def enc_header_def enc_int_def enc_short_def)
  then obtain t where t: "CustomWriteStream_send (put_bytes (enc_msg i x m) s) = Inr t" "same_heap s t"
      "outgoing t = outgoing s @ frame (enc_msg i x m)" "unsent_message t = []" "m_read_stream t = m_read_stream s" "world t = world s"
    using send_message [OF assms(1), of "enc_msg i x m"] assms(2) by auto
  then show ?thesis
    using registered_send [OF t(1)] assms(2) by (auto simp: sent_def same_heap_def incoming_def)
qed

lemma receiveData_eq:
  assumes "m_links s a = Some l" "incoming s = enc_int (int (length bs)) @ bs @ rest"
    "length bs \<le> TunnelConnection_BUFFER_SIZE"
  shows "TunnelConnection_receiveData a s = Inr (if m_closing l then with_incoming rest s
    else Poller_setEvents (P_Link a) (m_socket l) POLLOUT
      (put_link a (l\<lparr>m_buffer := SockBuffer_pushOnBuffer bs (m_buffer l)\<rparr>) (with_incoming rest s)))"
proof -
  have s: "s = with_incoming (enc_int (int (length bs)) @ bs @ rest) s"
    using assms(2) by (metis incoming_simps(3))
  have "of_short (to_short (int (length bs))) = int (length bs)"
    using assms(3) by (intro of_to_short_small) (simp_all add: TunnelConnection_BUFFER_SIZE_def)
  then show ?thesis
    using assms(1,3)
    by (subst s) (simp add: TunnelConnection_receiveData_def get_int_enc reading_bytes_enc deref_link_def)
qed

lemma setAcknowledged_eq:
  assumes "m_links s a = Some l"
  shows "\<exists>t. ConnectionLink_setAcknowledged k a s = Inr t \<and> m_links t = (m_links s)(a \<mapsto> l\<lparr>m_acknowledged := k\<rparr>) \<and>
    m_connections t = m_connections s \<and> incoming t = incoming s \<and> outgoing t = outgoing s \<and>
    unsent_message t = unsent_message s \<and> m_writer_attached t = m_writer_attached s \<and>
    (\<forall>k. poller_map t k = None \<longleftrightarrow> poller_map s k = None)"
  using assms by (simp add: ConnectionLink_setAcknowledged_def deref_link_def Let_def)

lemma closeLink_eq:
  assumes "m_links s a = Some l" "m_connections s c = Some t" "m_writer_attached s" "unsent_message s = []"
  shows "\<exists>u. TunnelConnection_closeLink os c a s = Inr u \<and> m_connections u = m_connections s \<and> incoming u = incoming s \<and>
    m_links u = (m_links s)(a \<mapsto> l\<lparr>m_closing := True\<rparr>) \<and>
    sent (tc_id t) (lk_id l) (if m_closing l then [] else [MClose]) s u \<and>
    world u = (if m_closing l then world s else sys_close os (m_socket l) (world s))"
proof (cases "m_closing l")
  case True
  then have "l\<lparr>m_closing := True\<rparr> = l" by simp
  then show ?thesis
    using True assms by (simp add: TunnelConnection_closeLink_def deref_link_def sent_def fun_upd_idem)
next
  case False
  define v where "v = Poller_removePolled (P_Link a) (m_socket l)
    (on_world (sys_close os (m_socket l)) (put_link a (l\<lparr>m_closing := True\<rparr>) s))"
  have rm: "m_links (Poller_removePolled p f z) = m_links z" "m_connections (Poller_removePolled p f z) = m_connections z"
    "m_writer_attached (Poller_removePolled p f z) = m_writer_attached z" "incoming (Poller_removePolled p f z) = incoming z"
    "outgoing (Poller_removePolled p f z) = outgoing z" "unsent_message (Poller_removePolled p f z) = unsent_message z"
    "world (Poller_removePolled p f z) = world z"
    for p f and z :: "('a, 'b) tunnel_scheme"
    by (simp_all add: incoming_def outgoing_def unsent_message_def Poller_removePolled_def Let_def split: option.splits)
  have v: "m_links v = (m_links s)(a \<mapsto> l\<lparr>m_closing := True\<rparr>)" "m_connections v = m_connections s"
      "m_writer_attached v" "unsent_message v = []" "incoming v = incoming s" "outgoing v = outgoing s"
      "world v = sys_close os (m_socket l) (world s)"
    using assms by (simp_all add: v_def rm)
  obtain u where "CustomWriteStream_send (put_bytes (enc_msg (tc_id t) (lk_id l) MClose) v) = Inr u"
      "sent (tc_id t) (lk_id l) [MClose] v u" "m_links u = m_links v" "m_connections u = m_connections v" "incoming u = incoming v"
      "world u = world v"
    using send_msg [OF v(3,4)] by blast
  then show ?thesis
    using False assms v
    by (auto simp: TunnelConnection_closeLink_def ConnectionLink_setClosing_def deref_link_def deref_connection_def
        put_header_enc enc_msg_def Let_def sent_def v_def [symmetric])
qed

section \<open>Messages for a link\<close>

lemma view_Some:
  assumes "m_connections s c = Some t" "m_link_map t x = Some a" "m_links s a = Some l"
  shows "view s c x = (if m_closing l then Closing
      else if m_kind t = ListenSide \<and> poller_map s (P_Link a, m_socket l) = None then Waiting
      else Open (m_acknowledged l))"
    and "held s c x = sb_content (m_buffer l)"
    and "link_ok s c x \<longleftrightarrow> lk_id l = x \<and> m_connection l = c \<and> sb_inv (m_buffer l) \<and> (view s c x = Waiting \<longrightarrow> m_acknowledged l)"
  using assms by (auto simp: view_def view_link_def held_def link_ok_def)

text \<open>What is to be shown of a handler: the end moves as the specification says.\<close>

definition refines ::
  "('w, 'a) tunnel_scheme \<Rightarrow> nat \<Rightarrow> short \<Rightarrow> c_int \<Rightarrow> bytes \<Rightarrow> endpoint \<times> msg list \<times> bytes \<Rightarrow> ('w, 'a) tunnel_scheme res \<Rightarrow> bool" where
  "refines s c x i rest spec r \<longleftrightarrow>
     (\<exists>s' out d. r = Inr s' \<and> spec = (view s' c x, out, d) \<and> sent i x out s s' \<and> incoming s' = rest \<and>
        (view s' c x \<noteq> Gone \<longrightarrow> held s' c x = held s c x @ d) \<and> link_ok s' c x)"

text \<open>A link of a connection, past the answer to its request.\<close>

definition one_link ::
  "('w, 'a) tunnel_scheme \<Rightarrow> nat \<Rightarrow> nat \<Rightarrow> tunnel_connection \<Rightarrow> connection_link \<Rightarrow> short \<Rightarrow> bool" where
  "one_link s c a t l x \<longleftrightarrow> m_connections s c = Some t \<and> m_link_map t x = Some a \<and> m_links s a = Some l \<and>
     lk_id l = x \<and> m_connection l = c \<and> sb_inv (m_buffer l) \<and> m_writer_attached s \<and> unsent_message s = [] \<and>
     view s c x \<noteq> Waiting"

lemma one_linkD:
  assumes "one_link s c a t l x"
  shows one_conn: "m_connections s c = Some t" and one_linked: "m_link_map t x = Some a" and one_object: "m_links s a = Some l"
    and one_ident: "lk_id l = x" and one_writer: "m_writer_attached s" "unsent_message s = []"
    and one_answered: "view s c x \<noteq> Waiting" and one_home: "m_connection l = c" "sb_inv (m_buffer l)"
  using assms by (simp_all add: one_link_def)

lemma view_now:
  assumes "one_link s c a t l x"
  shows "view s c x = (if m_closing l then Closing else Open (m_acknowledged l))"
  using one_linkD [OF assms] view_Some(1) [of s c t x a l] by (auto split: if_splits)

lemma registered:
  assumes "one_link s c a t l x" "\<not> m_closing l" "m_kind t = ListenSide"
  shows "poller_map s (P_Link a, m_socket l) \<noteq> None"
  using assms one_linkD [OF assms(1)] view_Some(1) [of s c t x a l] by (auto split: if_splits)

text \<open>A state that differs in the link's object and in what is registered elsewhere.\<close>

lemma after_link:
  assumes L: "one_link s c a t l x" and as: "m_connections u = m_connections s" "m_links u a = Some l'" "m_socket l' = m_socket l" "lk_id l' = x"
    "m_connection l' = c" "sb_inv (m_buffer l')"
    "m_closing l' = m_closing l" "\<forall>k. poller_map u k = None \<longleftrightarrow> poller_map s k = None"
  shows "view u c x = (if m_closing l then Closing else Open (m_acknowledged l'))" "held u c x = sb_content (m_buffer l')"
    "link_ok u c x"
proof -
  have u: "m_connections u c = Some t"
    using as(1) one_conn [OF L] by simp
  show v: "view u c x = (if m_closing l then Closing else Open (m_acknowledged l'))"
    using view_Some(1) [OF u one_linked [OF L] as(2)] as(3,7,8) registered [OF L] by auto
  show "held u c x = sb_content (m_buffer l')" "link_ok u c x"
    using view_Some(2,3) [OF u one_linked [OF L] as(2)] v as(4-6) by auto
qed

lemma ack_refines:
  assumes L: "one_link s c a t l x" and as: "incoming s = rest"
  shows "refines s c x (tc_id t) rest (link_recv MAck (view s c x)) (TunnelConnection_processLinkMessage os c LINK_ACK a s)"
proof -
  obtain u where u: "ConnectionLink_setAcknowledged True a s = Inr u" "m_links u = (m_links s)(a \<mapsto> l\<lparr>m_acknowledged := True\<rparr>)"
      "m_connections u = m_connections s" "incoming u = incoming s" "outgoing u = outgoing s"
      "unsent_message u = unsent_message s" "m_writer_attached u = m_writer_attached s"
      "\<forall>k. poller_map u k = None \<longleftrightarrow> poller_map s k = None"
    using setAcknowledged_eq [OF one_object [OF L]] by blast
  have "view u c x = (if m_closing l then Closing else Open True)" "held u c x = sb_content (m_buffer l)" "link_ok u c x"
    using after_link [OF L u(3), of "l\<lparr>m_acknowledged := True\<rparr>"] u(2,8) one_ident [OF L] one_home [OF L] by simp_all
  moreover have "TunnelConnection_processLinkMessage os c LINK_ACK a s = Inr u"
    using u(1) by (simp add: TunnelConnection_processLinkMessage_def)
  ultimately show ?thesis
    using u as one_writer [OF L] view_now [OF L] view_Some(2) [OF one_conn [OF L] one_linked [OF L] one_object [OF L]] by (auto simp: refines_def sent_def)
qed

lemma close_message_eq:
  assumes L: "one_link s c a t l x"
  shows "\<exists>u. TunnelConnection_processLinkMessage os c LINK_CLOSE a s = Inr u \<and> view u c x = Gone \<and> link_ok u c x \<and>
    incoming u = incoming s \<and> sent (tc_id t) x (if m_closing l then [] else [MClose]) s u \<and> m_links u a = None \<and>
    world u = (if m_closing l then world s else sys_close os (m_socket l) (world s))"
proof -
  note one = one_linkD [OF L]
  obtain u where u: "TunnelConnection_closeLink os c a s = Inr u" "m_connections u = m_connections s" "incoming u = incoming s"
      "m_links u = (m_links s)(a \<mapsto> l\<lparr>m_closing := True\<rparr>)" "sent (tc_id t) x (if m_closing l then [] else [MClose]) s u"
      "world u = (if m_closing l then world s else sys_close os (m_socket l) (world s))"
    using closeLink_eq [OF one(3,1,5,6), of os] unfolding one(4) by blast
  let ?v = "free_link a (put_connection c (t\<lparr>m_link_map := (m_link_map t)(x := None)\<rparr>) u)"
  have "TunnelConnection_processLinkMessage os c LINK_CLOSE a s = Inr ?v"
    using u one by (simp add: TunnelConnection_processLinkMessage_def deref_link_def erase_link_def deref_connection_def)
  moreover have "view ?v c x = Gone" "link_ok ?v c x" "incoming ?v = incoming s" "m_links ?v a = None" "world ?v = world u"
    using u(3) by (simp_all add: view_def link_ok_def free_link_def put_connection_def incoming_def)
  moreover have "sent (tc_id t) x (if m_closing l then [] else [MClose]) s ?v"
    using u(5) by (simp add: sent_def outgoing_def unsent_message_def free_link_def put_connection_def)
  ultimately show ?thesis
    using u(6) by simp
qed

lemma close_refines:
  assumes L: "one_link s c a t l x" and as: "incoming s = rest"
  shows "refines s c x (tc_id t) rest (link_recv MClose (view s c x)) (TunnelConnection_processLinkMessage os c LINK_CLOSE a s)"
  using close_message_eq [OF L, of os] as unfolding refines_def view_now [OF L] by (cases "m_closing l") auto

lemma data_refines:
  assumes L: "one_link s c a t l x" and as: "incoming s = msg_body (MData w bs) @ rest" "fits (MData w bs)"
  shows "refines s c x (tc_id t) rest (link_recv (MData w bs) (view s c x))
    (TunnelConnection_processLinkMessage os c (msg_code (MData w bs)) a s)"
proof (cases "m_closing l")
  case True
  let ?v = "with_incoming rest s"
  have rd: "TunnelConnection_receiveData a s = Inr ?v"
    using receiveData_eq [OF one_object [OF L], of bs rest] as True by simp
  obtain u where u: "ConnectionLink_setAcknowledged True a ?v = Inr u" "m_links u = (m_links s)(a \<mapsto> l\<lparr>m_acknowledged := True\<rparr>)"
      "m_connections u = m_connections s" "incoming u = rest" "outgoing u = outgoing s"
      "unsent_message u = unsent_message s" "m_writer_attached u = m_writer_attached s"
      "\<forall>k. poller_map u k = None \<longleftrightarrow> poller_map s k = None"
    using setAcknowledged_eq [of ?v a l True] one_object [OF L] by auto
  have "view u c x = Closing" "held u c x = sb_content (m_buffer l)" "link_ok u c x"
    using after_link [OF L u(3), of "l\<lparr>m_acknowledged := True\<rparr>"] u(2,8) one_ident [OF L] one_home [OF L] True by simp_all
  moreover have "view ?v c x = Closing" "held ?v c x = sb_content (m_buffer l)" "link_ok ?v c x"
    using after_link [OF L, of ?v l] one_object [OF L] one_ident [OF L] one_home [OF L] True by simp_all
  moreover have "TunnelConnection_processLinkMessage os c (msg_code (MData w bs)) a s = Inr (if w then u else ?v)"
    using rd u(1) one_object [OF L] True by (simp add: TunnelConnection_processLinkMessage_def deref_link_def)
  ultimately show ?thesis
    using u one_writer [OF L] True view_now [OF L] view_Some(2) [OF one_conn [OF L] one_linked [OF L] one_object [OF L]] by (auto simp: refines_def sent_def)
next
  case False
  let ?l = "l\<lparr>m_buffer := SockBuffer_pushOnBuffer bs (m_buffer l)\<rparr>"
  let ?v = "Poller_setEvents (P_Link a) (m_socket l) POLLOUT (put_link a ?l (with_incoming rest s))"
  have rd: "TunnelConnection_receiveData a s = Inr ?v"
    using receiveData_eq [OF one_object [OF L], of bs rest] as False by simp
  have v: "m_writer_attached ?v" "unsent_message ?v = []" "m_links ?v a = Some ?l" "m_connections ?v c = Some t"
    using one_writer [OF L] one_conn [OF L] by simp_all
  obtain u where u: "CustomWriteStream_send (put_bytes (enc_msg (tc_id t) x MAck) ?v) = Inr u" "sent (tc_id t) x [MAck] ?v u"
      "m_links u = m_links ?v" "m_connections u = m_connections ?v" "incoming u = incoming ?v"
      "\<forall>k. poller_map u k = None \<longleftrightarrow> poller_map ?v k = None"
    using send_msg [OF v(1,2)] by blast
  have "view u c x = Open (m_acknowledged l)" "held u c x = sb_content (m_buffer l) @ bs" "link_ok u c x"
    using after_link [OF L, of u ?l] u(3,4,6) one_ident [OF L] one_home [OF L] False by simp_all
  moreover have "view ?v c x = Open (m_acknowledged l)" "held ?v c x = sb_content (m_buffer l) @ bs" "link_ok ?v c x"
    using after_link [OF L, of ?v ?l] one_ident [OF L] one_home [OF L] False by simp_all
  moreover have "TunnelConnection_processLinkMessage os c (msg_code (MData w bs)) a s = Inr (if w then u else ?v)"
    using rd u(1) v False one_ident [OF L]
    by (simp add: TunnelConnection_processLinkMessage_def deref_link_def deref_connection_def put_header_enc enc_msg_def)
  ultimately show ?thesis
    using u one_writer [OF L] False view_now [OF L] view_Some(2) [OF one_conn [OF L] one_linked [OF L] one_object [OF L]] by (auto simp: refines_def sent_def)
qed

text \<open>The three together.\<close>

lemma link_refines:
  assumes L: "one_link s c a t l x" and as: "plain m \<or> m = MClose" "incoming s = msg_body m @ rest" "fits m"
  shows "refines s c x (tc_id t) rest (link_recv m (view s c x)) (TunnelConnection_processLinkMessage os c (msg_code m) a s)"
proof (cases m)
  case (MData w bs)
  then show ?thesis using data_refines [OF L, of w bs rest os] as by (cases w) simp_all
next
  case MAck
  then show ?thesis using ack_refines [OF L, of rest] as by simp
next
  case MClose
  then show ?thesis using close_refines [OF L, of rest] as by simp
qed (use as in simp_all)

section \<open>The listening side\<close>

text \<open>The two numbers a connection reads first.\<close>

lemma get_link_bytes:
  assumes "incoming s = link_bytes x m @ rest"
  shows "get_short s = Inr (to_short (msg_code m), with_incoming (enc_short x @ msg_body m @ rest) s)"
    "get_short (with_incoming (enc_short x @ msg_body m @ rest) s) = Inr (x, with_incoming (msg_body m @ rest) s)"
proof -
  have "s = with_incoming (enc_int (msg_code m) @ enc_short x @ msg_body m @ rest) s"
    using assms incoming_simps(3) [of s] by (simp add: link_bytes_def)
  then show "get_short s = Inr (to_short (msg_code m), with_incoming (enc_short x @ msg_body m @ rest) s)"
    using get_int_enc [of "msg_code m" "enc_short x @ msg_body m @ rest" s] by simp
  show "get_short (with_incoming (enc_short x @ msg_body m @ rest) s) = Inr (x, with_incoming (msg_body m @ rest) s)"
    by (simp add: get_short_enc)
qed

lemma of_to_msg_code [simp]: "of_short (to_short (msg_code m)) = msg_code m"
  by (cases m) simp_all

lemma msg_code_create: "msg_code m = LINK_CREATE \<longleftrightarrow> \<not> (plain m \<or> m = MClose)"
  by (cases m) simp_all

lemma view_with_incoming [simp]:
  "view (with_incoming bs s) c x = view s c x" "held (with_incoming bs s) c x = held s c x"
  "link_ok (with_incoming bs s) c x = link_ok s c x"
  by (simp_all add: view_def view_link_def held_def link_ok_def cong: option.case_cong if_cong)

text \<open>What was read before does not matter to the specification.\<close>

lemma refines_with_incoming [simp]:
  "refines (with_incoming bs s) c x i rest spec r = refines s c x i rest spec r"
  by (simp add: refines_def sent_def)

text \<open>A registered link.\<close>

lemma entry_map_snoc: "entry_map (es @ [e]) (e_polled e, fd (e_pollfd e)) \<noteq> None"
  by (induction es) auto

lemma addPolled_link:
  assumes "m_links s a = Some l"
  shows "\<exists>u. Poller_addPolled (\<lambda>_. ConnectionLink_setPollfd a) (P_Link a) s = Inr u \<and> m_links u = m_links s \<and>
    m_connections u = m_connections s \<and> incoming u = incoming s \<and> outgoing u = outgoing s \<and>
    unsent_message u = unsent_message s \<and> m_writer_attached u = m_writer_attached s \<and>
    poller_map u (P_Link a, m_socket l) \<noteq> None \<and> m_next_obj u = m_next_obj s"
proof -
  let ?e = "\<lparr>e_addr = m_next_addr s, e_polled = P_Link a, e_pollfd = \<lparr>fd = m_socket l, events = POLLIN, revents = 0\<rparr>\<rparr>"
  show ?thesis
    using assms entry_map_snoc [of "m_polled s" ?e]
    by (simp add: Poller_addPolled_def ConnectionLink_setPollfd_def deref_link_def incoming_def outgoing_def
        unsent_message_def poller_map_def)
qed

text \<open>The answer to the request of a waiting link.\<close>

lemma link_okE:
  assumes "link_ok s c x" "m_connections s c = Some t" "view s c x \<noteq> Gone"
  obtains a l where "m_link_map t x = Some a" "m_links s a = Some l" "lk_id l = x" "view s c x = Waiting \<longrightarrow> m_acknowledged l"
    "m_connection l = c" "sb_inv (m_buffer l)"
  using assms by (cases "m_link_map t x") (auto simp: link_ok_def view_def)

lemma success_refines:
  assumes "m_connections s c = Some t" "m_kind t = ListenSide" "link_ok s c x" "m_writer_attached s" "unsent_message s = []"
    "incoming s = link_bytes x MSuccess @ rest" "view s c x = Waiting"
  shows "refines s c x (tc_id t) rest (Open True, [], []) (ListenSide_processMessage os c s)"
proof -
  let ?v = "with_incoming rest s"
  obtain a l where l: "m_link_map t x = Some a" "m_links s a = Some l" "lk_id l = x" "m_acknowledged l"
      "m_connection l = c" "sb_inv (m_buffer l)"
    using link_okE [OF assms(3,1)] assms(7) by auto
  then have "\<not> m_closing l"
    using assms(1,7) by (auto simp: view_def view_link_def split: if_splits)
  obtain u where u: "Poller_addPolled (\<lambda>_. ConnectionLink_setPollfd a) (P_Link a) ?v = Inr u" "m_links u = m_links s"
      "m_connections u = m_connections s" "incoming u = rest" "outgoing u = outgoing s" "unsent_message u = unsent_message s"
      "m_writer_attached u = m_writer_attached s" "poller_map u (P_Link a, m_socket l) \<noteq> None"
    using addPolled_link [of ?v a l] l(2) by auto
  have "ListenSide_processMessage os c s = Inr u"
    using get_link_bytes [OF assms(6)] assms(1) l u(1)
    by (simp add: ListenSide_processMessage_def deref_connection_def get_int_enc)
  moreover have "m_connections u c = Some t" "m_links u a = Some l"
    using u l assms(1) by simp_all
  note view_Some [OF this(1) l(1) this(2)]
  moreover have "held s c x = sb_content (m_buffer l)"
    by (rule view_Some(2) [OF assms(1) l(1,2)])
  ultimately show ?thesis
    using u l \<open>\<not> m_closing l\<close> assms(4,5) by (simp add: refines_def sent_def)
qed

lemma failure_refines:
  assumes "m_connections s c = Some t" "m_kind t = ListenSide" "link_ok s c x" "m_writer_attached s" "unsent_message s = []"
    "incoming s = link_bytes x MFailure @ rest" "view s c x = Waiting"
  shows "refines s c x (tc_id t) rest (Gone, [], []) (ListenSide_processMessage os c s)"
proof -
  obtain a l where l: "m_link_map t x = Some a" "m_links s a = Some l" "lk_id l = x" "m_acknowledged l"
      "m_connection l = c" "sb_inv (m_buffer l)"
    using link_okE [OF assms(3,1)] assms(7) by auto
  let ?v = "on_world (sys_close os (m_socket l)) (with_incoming rest s)"
  let ?u = "free_link a (put_connection c (t\<lparr>m_link_map := (m_link_map t)(x := None)\<rparr>) ?v)"
  have "ListenSide_processMessage os c s = Inr ?u"
    using get_link_bytes [OF assms(6)] assms(1) l
    by (simp add: ListenSide_processMessage_def deref_connection_def get_int_enc deref_link_def erase_link_def)
  moreover have "view ?u c x = Gone" "link_ok ?u c x" "incoming ?u = rest" "sent (tc_id t) x [] s ?u"
    using assms(4,5)
    by (simp_all add: view_def link_ok_def free_link_def put_connection_def incoming_def sent_def outgoing_def
        unsent_message_def on_world_def with_incoming_def)
  ultimately show ?thesis
    by (simp add: refines_def)
qed

lemma listen_link_refines:
  assumes "m_connections s c = Some t" "m_kind t = ListenSide" "link_ok s c x" "m_writer_attached s" "unsent_message s = []"
    "incoming s = link_bytes x m @ rest" "fits m" "plain m \<or> m = MClose" "view s c x \<noteq> Gone" "view s c x \<noteq> Waiting"
  shows "refines s c x (tc_id t) rest (link_recv m (view s c x)) (ListenSide_processMessage os c s)"
proof -
  let ?v = "with_incoming (msg_body m @ rest) s"
  obtain a l where l: "m_link_map t x = Some a" "m_links s a = Some l" "lk_id l = x" "m_connection l = c" "sb_inv (m_buffer l)"
    using link_okE [OF assms(3,1,9)] by blast
  have "one_link ?v c a t l x"
    using assms l by (simp add: one_link_def)
  then have "refines ?v c x (tc_id t) rest (link_recv m (view ?v c x)) (TunnelConnection_processLinkMessage os c (msg_code m) a ?v)"
    by (rule link_refines) (use assms(7,8) in simp_all)
  moreover have "ListenSide_processMessage os c s = TunnelConnection_processLinkMessage os c (msg_code m) a ?v"
    using get_link_bytes [OF assms(6)] assms(1,8) l msg_code_create [of m]
    by (simp add: ListenSide_processMessage_def deref_connection_def)
  ultimately show ?thesis by simp
qed

lemma listen_refines:
  assumes "m_connections s c = Some t" "m_kind t = ListenSide" "link_ok s c x" "m_writer_attached s" "unsent_message s = []"
    "incoming s = link_bytes x m @ rest" "fits m" "listen_expects m (view s c x)"
  shows "refines s c x (tc_id t) rest (the (listen_recv m (view s c x))) (ListenSide_processMessage os c s)"
proof (cases "view s c x = Waiting")
  case True
  then show ?thesis
    using assms(8) success_refines [OF assms(1-5) _ True, of rest os] failure_refines [OF assms(1-5) _ True, of rest os] assms(6)
    by auto
next
  case False
  have m: "plain m \<or> m = MClose" "view s c x \<noteq> Gone"
    using assms(8) False by (cases "view s c x"; simp)+
  then have "the (listen_recv m (view s c x)) = link_recv m (view s c x)"
    using False by (cases "(m, view s c x)" rule: listen_recv.cases) auto
  then show ?thesis
    using listen_link_refines [OF assms(1-7) m False] by simp
qed

section \<open>The connecting side\<close>

text \<open>
  A failed attempt to connect is reported before it is answered; the tunnels do that in their own way,
  the local one on its terminal and the remote one by a message to the local one.
\<close>

definition reported :: "('w, 'a) tunnel_scheme \<Rightarrow> bytes \<Rightarrow> ('w, 'a) tunnel_scheme \<Rightarrow> bool" where
  "reported s err u \<longleftrightarrow> m_links u = m_links s \<and> m_connections u = m_connections s \<and> m_next_obj u = m_next_obj s \<and>
     incoming u = incoming s \<and> outgoing u = outgoing s @ err \<and> unsent_message u = unsent_message s \<and>
     m_writer_attached u = m_writer_attached s \<and> (\<forall>k. poller_map u k = None \<longleftrightarrow> poller_map s k = None)"

lemma reported_trans: "reported s e1 t \<Longrightarrow> reported t e2 u \<Longrightarrow> reported s (e1 @ e2) u"
  by (simp add: reported_def)

lemma reported_world [simp]: "reported s [] (s\<lparr>world := w\<rparr>)" "reported s [] (on_world f s)"
  by (simp_all add: reported_def incoming_def outgoing_def unsent_message_def poller_map_def on_world_def)

lemma reported_refl [simp]: "reported s [] s"
  by (simp add: reported_def)

text \<open>The reports of a failed attempt.\<close>

definition connect_messages :: "connection_spec \<Rightarrow> string list" where
  "connect_messages sp = [m_connect_host sp @ '' not found'', ''Cannot create connect socket'',
     ''Failed to connect to '' @ m_connect_host sp, ''Failed to set connect socket non blocking'']"

locale error_reporter =
  fixes reportError :: "string \<Rightarrow> ('w, 'a) tunnel_op" and report :: "string \<Rightarrow> bytes"
  assumes reports: "m_writer_attached s \<Longrightarrow> unsent_message s = [] \<Longrightarrow> \<exists>u. reportError m s = Inr u \<and> reported s (report m) u"

text \<open>Whether the system makes the connection.\<close>

definition connect_works :: "('w, 'o) net_posix_scheme \<Rightarrow> connection_spec \<Rightarrow> 'w \<Rightarrow> bool" where
  "connect_works os sp w =
     (case sys_gethostbyname os (m_connect_host sp) w of
        (None, w) \<Rightarrow> False
      | (Some addr, w) \<Rightarrow>
          (case sys_socket os w of
             (Inl e, w) \<Rightarrow> False
           | (Inr sock, w) \<Rightarrow>
               (case sys_connect os sock addr (to_short (m_connect_port sp)) w of
                  (Inl e, w) \<Rightarrow> False
                | (Inr _, w) \<Rightarrow> (case sys_nonblock os sock w of (Inl e, w) \<Rightarrow> False | (Inr _, w) \<Rightarrow> True))))"

lemma new_link_registered:
  assumes "m_connections s c = Some t" "m_kind t = ConnectSide" "m_link_map t x = None"
  shows "\<exists>u. (let (a, s) = new_link (ConnectionLink_new c x sock) s in
      bindE (Poller_addPolled (\<lambda>_. ConnectionLink_setPollfd a) (P_Link a) s) (\<lambda>s.
      bindE (assign_link c x a s) (\<lambda>s. Inr (True, s)))) = Inr (True, u) \<and>
    view u c x = Open True \<and> held u c x = [] \<and> link_ok u c x \<and> incoming u = incoming s \<and> outgoing u = outgoing s \<and>
    unsent_message u = unsent_message s \<and> m_writer_attached u = m_writer_attached s \<and> tc_id (the (m_connections u c)) = tc_id t"
proof -
  let ?l = "ConnectionLink_new c x sock"
  let ?s = "put_link (m_next_obj s) ?l (s\<lparr>m_next_obj := Suc (m_next_obj s)\<rparr>)"
  have s: "incoming ?s = incoming s" "outgoing ?s = outgoing s" "unsent_message ?s = unsent_message s"
    "m_writer_attached ?s = m_writer_attached s" "m_connections ?s = m_connections s"
    by (simp_all add: incoming_def outgoing_def unsent_message_def put_link_def)
  obtain v where v: "Poller_addPolled (\<lambda>_. ConnectionLink_setPollfd (m_next_obj s)) (P_Link (m_next_obj s)) ?s = Inr v"
      "m_links v = m_links ?s" "m_connections v = m_connections s" "incoming v = incoming s" "outgoing v = outgoing s"
      "unsent_message v = unsent_message s" "m_writer_attached v = m_writer_attached s"
    using addPolled_link [of ?s "m_next_obj s" ?l] s by auto
  let ?u = "put_connection c (t\<lparr>m_link_map := (m_link_map t)(x \<mapsto> m_next_obj s)\<rparr>) v"
  have "assign_link c x (m_next_obj s) v = Inr ?u"
    using v(3) assms by (simp add: assign_link_def deref_connection_def)
  moreover have "view ?u c x = Open True" "held ?u c x = []" "link_ok ?u c x"
    using v(2) assms(2)
    by (simp_all add: view_def view_link_def held_def link_ok_def put_connection_def ConnectionLink_new_def)
  ultimately show ?thesis
    using v assms by (simp add: new_link_def put_connection_def incoming_def outgoing_def unsent_message_def)
qed

text \<open>The outcome of an attempt.\<close>

definition attempted ::
  "('w, 'a) tunnel_scheme \<Rightarrow> nat \<Rightarrow> short \<Rightarrow> bytes \<Rightarrow> bool \<Rightarrow> (bool \<times> ('w, 'a) tunnel_scheme) res \<Rightarrow> bool" where
  "attempted s c x err ok r \<longleftrightarrow>
     (\<exists>u. r = Inr (ok, u) \<and> (ok \<longrightarrow> err = []) \<and> view u c x = (if ok then Open True else Gone) \<and> held u c x = [] \<and> link_ok u c x \<and>
        incoming u = incoming s \<and> outgoing u = outgoing s @ err \<and> unsent_message u = [] \<and> m_writer_attached u)"

lemma same_view:
  assumes "m_links u = m_links s" "m_connections u = m_connections s" "\<forall>k. poller_map u k = None \<longleftrightarrow> poller_map s k = None"
  shows "view u c x = view s c x" "held u c x = held s c x" "link_ok u c x = link_ok s c x"
proof -
  have "poller_map u k = None \<longleftrightarrow> poller_map s k = None" for k
    using assms(3) by blast
  then show "view u c x = view s c x" "held u c x = held s c x" "link_ok u c x = link_ok s c x"
    by (simp_all add: view_def view_link_def held_def link_ok_def assms(1,2) cong: option.case_cong if_cong)
qed

lemma reported_view:
  assumes "reported s err u"
  shows "view u c x = view s c x" "held u c x = held s c x" "link_ok u c x = link_ok s c x"
  using same_view [of u s] assms by (simp_all add: reported_def)

lemma Gone_unlinked:
  assumes "m_connections s c = Some t" "link_ok s c x" "view s c x = Gone"
  shows "m_link_map t x = None" "held s c x = []"
  using assms by (auto simp: view_def view_link_def held_def link_ok_def split: option.splits if_splits)

text \<open>As \<open>refines\<close>, with the report that goes before the answer.\<close>

definition answers ::
  "('w, 'a) tunnel_scheme \<Rightarrow> nat \<Rightarrow> short \<Rightarrow> c_int \<Rightarrow> bytes \<Rightarrow> bytes \<Rightarrow> endpoint \<times> msg list \<times> bytes \<Rightarrow>
     ('w, 'a) tunnel_scheme res \<Rightarrow> bool" where
  "answers s c x i rest err spec r \<longleftrightarrow>
     (\<exists>s' out d. r = Inr s' \<and> spec = (view s' c x, out, d) \<and> outgoing s' = outgoing s @ err @ frames_of i x out \<and>
        unsent_message s' = [] \<and> m_writer_attached s' = m_writer_attached s \<and> incoming s' = rest \<and>
        (view s' c x \<noteq> Gone \<longrightarrow> held s' c x = held s c x @ d) \<and> link_ok s' c x)"

lemma refines_answers: "refines s c x i rest spec r \<Longrightarrow> answers s c x i rest [] spec r"
  by (simp add: refines_def answers_def sent_def)

context error_reporter
begin

definition reports_if :: "bool \<Rightarrow> connection_spec \<Rightarrow> bytes set" where
  "reports_if failed sp = (if failed then report ` set (connect_messages sp) else {[]})"

text \<open>A state of the attempt: nothing has been sent yet.\<close>

lemma failed_attempt:
  assumes "reported s [] v" "m_writer_attached s" "unsent_message s = []" "link_ok s c x" "view s c x = Gone" "held s c x = []"
  shows "attempted s c x (report m) False (bindE (reportError m v) (\<lambda>v. Inr (False, v)))"
proof -
  obtain u where "reportError m v = Inr u" "reported v (report m) u"
    using reports [of v m] assms(1-3) by (auto simp: reported_def)
  moreover from this have "reported s (report m) u"
    using reported_trans [OF assms(1)] by simp
  ultimately show ?thesis
    using assms reported_view [of s "report m" u c x] by (auto simp: attempted_def reported_def)
qed

lemma closing_attempt:
  assumes "attempted s c x err ok r"
  shows "attempted s c x err ok (bindE r (\<lambda>(success, s). Inr (success, if success then s else on_world f s)))"
proof -
  obtain u where u: "r = Inr (ok, u)" "(ok \<longrightarrow> err = []) \<and> view u c x = (if ok then Open True else Gone) \<and> held u c x = [] \<and>
      link_ok u c x \<and> incoming u = incoming s \<and> outgoing u = outgoing s @ err \<and> unsent_message u = [] \<and> m_writer_attached u"
    using assms by (auto simp: attempted_def)
  then show ?thesis
    using reported_view [OF reported_world(2) [of u f]] by (simp add: attempted_def)
qed

lemma successful_attempt:
  assumes "reported s [] v" "m_writer_attached s" "unsent_message s = []" "m_connections s c = Some t" "m_kind t = ConnectSide"
    "m_link_map t x = None"
  shows "attempted s c x [] True (let (a, v) = new_link (ConnectionLink_new c x sock) v in
      bindE (Poller_addPolled (\<lambda>_. ConnectionLink_setPollfd a) (P_Link a) v) (\<lambda>v.
      bindE (assign_link c x a v) (\<lambda>v. Inr (True, v))))"
  using new_link_registered [of v c t x sock] assms by (auto simp: attempted_def reported_def)

lemma connect_attempt:
  assumes "m_connections s c = Some t" "m_kind t = ConnectSide" "link_ok s c x" "view s c x = Gone"
    "m_writer_attached s" "unsent_message s = []"
  shows "\<exists>err \<in> reports_if (\<not> connect_works os (m_spec t) (world s)) (m_spec t).
    attempted s c x err (connect_works os (m_spec t) (world s)) (ConnectSide_connect os reportError c t x s)"
proof -
  note start = assms(5,6,3,4) Gone_unlinked(2) [OF assms(1,3,4)]
  note made = successful_attempt [OF _ assms(5,6,1,2) Gone_unlinked(1) [OF assms(1,3,4)]]
  obtain h w1 where h: "sys_gethostbyname os (m_connect_host (m_spec t)) (world s) = (h, w1)"
    by fastforce
  obtain k w2 where k: "sys_socket os w1 = (k, w2)"
    by fastforce
  show ?thesis
  proof (cases h)
    case None
    then show ?thesis
      using failed_attempt [OF reported_world(1) start, of "m_connect_host (m_spec t) @ '' not found''"] h
      by (simp add: reports_if_def connect_messages_def ConnectSide_connect_def connect_works_def syscall_def)
  next
    case (Some addr)
    note h = h [unfolded Some]
    show ?thesis
    proof (cases k)
      case (Inl e)
      then show ?thesis
        using failed_attempt [OF reported_world(1) start, of "''Cannot create connect socket''"] h k
        by (simp add: reports_if_def connect_messages_def ConnectSide_connect_def connect_works_def syscall_def)
    next
      case (Inr sock)
      note k = k [unfolded Inr]
      obtain r w3 where r: "sys_connect os sock addr (to_short (m_connect_port (m_spec t))) w2 = (r, w3)"
        by fastforce
      obtain q w4 where q: "sys_nonblock os sock w3 = (q, w4)"
        by fastforce
      have *: "reported s [] (s\<lparr>world := w3\<rparr>)" "reported s [] (s\<lparr>world := w4\<rparr>)" by simp_all
      show ?thesis
        using closing_attempt [OF failed_attempt [OF *(1) start, of "''Failed to connect to '' @ m_connect_host (m_spec t)"],
            of "sys_close os sock"]
          closing_attempt [OF failed_attempt [OF *(2) start, of "''Failed to set connect socket non blocking''"],
            of "sys_close os sock"]
          closing_attempt [OF made [OF *(2), of sock], of "sys_close os sock"] h k r q
        by (cases r; cases q)
          (simp_all add: reports_if_def connect_messages_def ConnectSide_connect_def connect_works_def syscall_def)
    qed
  qed
qed

lemma create_refines:
  assumes "m_connections s c = Some t" "m_kind t = ConnectSide" "link_ok s c x" "view s c x = Gone"
    "m_writer_attached s" "unsent_message s = []" "incoming s = link_bytes x MCreate @ rest"
  shows "\<exists>err \<in> reports_if (\<not> connect_works os (m_spec t) (world s)) (m_spec t).
    answers s c x (tc_id t) rest err (connect_recv (connect_works os (m_spec t) (world s)) MCreate Gone)
      (ConnectSide_processMessage os reportError c s)"
proof -
  let ?v = "with_incoming rest s" and ?ok = "connect_works os (m_spec t) (world s)"
  let ?m = "if ?ok then MSuccess else MFailure"
  obtain err u where u: "ConnectSide_connect os reportError c t x ?v = Inr (?ok, u)" "err \<in> reports_if (\<not> ?ok) (m_spec t)"
      "view u c x = (if ?ok then Open True else Gone)" "held u c x = []" "link_ok u c x" "incoming u = rest"
      "outgoing u = outgoing s @ err" "unsent_message u = []" "m_writer_attached u"
    using connect_attempt [of ?v c t x os] assms by (auto simp: attempted_def)
  obtain z where z: "CustomWriteStream_send (put_bytes (enc_msg (tc_id t) x ?m) u) = Inr z" "sent (tc_id t) x [?m] u z"
      "m_links z = m_links u" "m_connections z = m_connections u" "incoming z = incoming u"
      "\<forall>k. poller_map z k = None \<longleftrightarrow> poller_map u k = None"
    using send_msg [OF u(9,8)] by blast
  have "ConnectSide_processMessage os reportError c s = Inr z"
    using get_link_bytes [OF assms(7)] assms(1) u(1) z(1)
    by (simp add: ConnectSide_processMessage_def deref_connection_def put_header_enc put_enc enc_msg_def split: if_splits)
  moreover have "view z c x = view u c x" "held z c x = held u c x" "link_ok z c x = link_ok u c x"
    using same_view [of z u] z(3,4,6) by simp_all
  moreover have "held s c x = []"
    by (rule Gone_unlinked(2) [OF assms(1,3,4)])
  ultimately show ?thesis
    using u z(2,5) assms(5) by (auto simp: answers_def sent_def)
qed

lemma connect_side:
  assumes "m_connections s c = Some t" "m_kind t = ConnectSide" "link_ok s c x" "connect_expects m (view s c x)"
    "m_writer_attached s" "unsent_message s = []" "incoming s = link_bytes x m @ rest" "fits m"
  shows "\<exists>err \<in> reports_if (m = MCreate \<and> \<not> connect_works os (m_spec t) (world s)) (m_spec t).
    answers s c x (tc_id t) rest err (connect_recv (connect_works os (m_spec t) (world s)) m (view s c x))
      (ConnectSide_processMessage os reportError c s)"
proof (cases "view s c x = Gone")
  case True
  then have m: "m = MCreate"
    using assms(4) by simp
  then show ?thesis
    using create_refines [OF assms(1-3) True assms(5,6), of rest os] assms(7) True by simp
next
  case False
  then have m: "plain m \<or> m = MClose" "view s c x \<noteq> Waiting"
    using assms(4) by (cases "view s c x"; simp)+
  let ?v = "with_incoming (msg_body m @ rest) s"
  obtain a l where l: "m_link_map t x = Some a" "m_links s a = Some l" "lk_id l = x" "m_connection l = c" "sb_inv (m_buffer l)"
    using link_okE [OF assms(3,1) False] by blast
  have "one_link ?v c a t l x"
    using assms l m by (simp add: one_link_def)
  then have "refines ?v c x (tc_id t) rest (link_recv m (view ?v c x)) (TunnelConnection_processLinkMessage os c (msg_code m) a ?v)"
    by (rule link_refines) (use assms(8) m in simp_all)
  moreover have "ConnectSide_processMessage os reportError c s = TunnelConnection_processLinkMessage os c (msg_code m) a ?v"
    using get_link_bytes [OF assms(7)] assms(1) l m msg_code_create [of m]
    by (simp add: ConnectSide_processMessage_def deref_connection_def)
  moreover have "connect_recv ok m e = link_recv m e" for ok e
    using m(1) by (intro connect_recv_link) auto
  ultimately show ?thesis
    using m(1) by (intro bexI [of _ "[]"]) (auto simp: refines_answers reports_if_def)
qed

end

text \<open>Both tunnels report as the connecting side needs it.\<close>

interpretation local_reports: error_reporter "StdioTunnelLocal_reportError os" "\<lambda>_. []" for os
  by unfold_locales (simp add: StdioTunnelLocal_reportError_def)

definition error_message :: "string \<Rightarrow> bytes" where
  "error_message m = enc_int CMD_ERROR @ enc_string m"

lemma remote_reports:
  assumes "m_writer_attached s" "unsent_message s = []"
  shows "\<exists>u. StdioTunnelRemote_reportError m s = Inr u \<and> reported s (frame (error_message m)) u"
proof -
  have "enc_int CMD_ERROR @ enc_string m \<noteq> []"
    by (simp add: enc_int_def enc_short_def)
  then obtain u where u: "StdioTunnelRemote_reportError m s = Inr u" "same_heap s u" "unsent_message u = []"
      "outgoing u = outgoing s @ frame (enc_int CMD_ERROR @ enc_string m)" "m_read_stream u = m_read_stream s"
    using send_message [OF assms(1), of "enc_int CMD_ERROR @ enc_string m"] assms(2)
    by (auto simp: StdioTunnelRemote_reportError_def put_enc)
  moreover have "\<forall>k. poller_map u k = None \<longleftrightarrow> poller_map s k = None"
    using u(1) registered_send [of _ u] unfolding StdioTunnelRemote_reportError_def put_enc by simp
  ultimately show ?thesis
    using assms(2) by (auto simp: reported_def same_heap_def incoming_def error_message_def)
qed

interpretation remote_reports: error_reporter StdioTunnelRemote_reportError "\<lambda>m. frame (error_message m)"
  by unfold_locales (rule remote_reports)

lemma remote_side:
  assumes "m_connections s c = Some t" "m_kind t = ConnectSide" "link_ok s c x" "connect_expects m (view s c x)"
    "m_writer_attached s" "unsent_message s = []" "incoming s = link_bytes x m @ rest" "fits m"
  shows "\<exists>err. answers s c x (tc_id t) rest err (connect_recv (connect_works os (m_spec t) (world s)) m (view s c x))
      (ConnectSide_processMessage os StdioTunnelRemote_reportError c s) \<and>
    (if m = MCreate \<and> \<not> connect_works os (m_spec t) (world s)
     then \<exists>e \<in> set (connect_messages (m_spec t)). err = frame (error_message e) else err = [])"
  using remote_reports.connect_side [OF assms, of os] unfolding remote_reports.reports_if_def by (auto split: if_splits)

section \<open>What a link does by itself\<close>

text \<open>Its socket has something to read, or is at its end.\<close>

lemma sendData_eq:
  assumes "m_links s a = Some l" "m_connections s c = Some t" "m_writer_attached s" "unsent_message s = []"
    "w = has_flag ACK_PACKETS (m_spec t)"
  shows "\<exists>u. TunnelConnection_sendData c a bs s = Inr u \<and> sent (tc_id t) (lk_id l) [MData w bs] s u \<and> m_links u = m_links s \<and>
    m_connections u = m_connections s \<and> incoming u = incoming s \<and> (\<forall>k. poller_map u k = None \<longleftrightarrow> poller_map s k = None)"
proof -
  have "TunnelConnection_sendData c a bs s = CustomWriteStream_send (put_bytes (enc_msg (tc_id t) (lk_id l) (MData w bs)) s)"
    using assms(1,2,5)
    by (simp add: TunnelConnection_sendData_def deref_connection_def deref_link_def put_header_enc put_enc enc_msg_def Let_def)
  then show ?thesis
    using send_msg [OF assms(3,4), of "tc_id t" "lk_id l" "MData w bs"] by auto
qed

fun link_read :: "errno + bytes \<Rightarrow> bool \<Rightarrow> endpoint \<times> msg list" where
  "link_read (Inr (b # bs)) ack = (Open (\<not> ack), [MData ack (b # bs)])"
| "link_read _ ack = (Closing, [MClose])"

text \<open>What is to be shown: the end moves and sends, and takes nothing.\<close>

definition moves ::
  "('w, 'a) tunnel_scheme \<Rightarrow> nat \<Rightarrow> short \<Rightarrow> c_int \<Rightarrow> endpoint \<times> msg list \<Rightarrow> ('w, 'a) tunnel_scheme \<Rightarrow> bool" where
  "moves s c x i spec s' \<longleftrightarrow>
     (\<exists>out. spec = (view s' c x, out) \<and> sent i x out s s' \<and> incoming s' = incoming s \<and> held s' c x = held s c x \<and> link_ok s' c x)"

lemma close_moves:
  assumes "one_link s c a t l x" "\<not> m_closing l"
  shows "\<exists>u. TunnelConnection_closeLink os c a s = Inr u \<and> moves s c x (tc_id t) (Closing, [MClose]) u"
proof -
  note one = one_linkD [OF assms(1)]
  obtain u where u: "TunnelConnection_closeLink os c a s = Inr u" "m_connections u = m_connections s" "incoming u = incoming s"
      "m_links u = (m_links s)(a \<mapsto> l\<lparr>m_closing := True\<rparr>)" "sent (tc_id t) x [MClose] s u"
    using closeLink_eq [OF one(3,1,5,6)] assms(2) one(4) by auto
  then have "m_connections u c = Some t" "m_links u a = Some (l\<lparr>m_closing := True\<rparr>)"
    using one(1) by simp_all
  note view_Some [OF this(1) one(2) this(2)]
  then show ?thesis
    using u one(4,8,9) view_Some(2) [OF one(1-3)] by (simp add: moves_def)
qed

lemma read_moves:
  assumes "one_link s c a t l x" "\<not> m_closing l" "m_connection l = c" "m_acknowledged l"
    "fst (sys_read os (m_socket l) TunnelConnection_BUFFER_SIZE (world s)) = r"
  shows "\<exists>u. ConnectionLink_readable os a s = Inr (fst (link_read r (has_flag ACK_PACKETS (m_spec t))) = Closing, u) \<and>
    moves s c x (tc_id t) (link_read r (has_flag ACK_PACKETS (m_spec t))) u"
proof -
  obtain w where w: "sys_read os (m_socket l) TunnelConnection_BUFFER_SIZE (world s) = (r, w)"
    using assms(5) by (metis prod.collapse)
  let ?s = "s\<lparr>world := w\<rparr>" and ?k = "has_flag ACK_PACKETS (m_spec t)"
  note same = reported_view [OF reported_world(1) [of s w]]
  note one = one_linkD [OF assms(1)]
  have L: "one_link ?s c a t l x"
    using one same by (simp add: one_link_def unsent_message_def)
  have begun: "moves ?s c x i spec u = moves s c x i spec u" for i spec u
    using reported_world(1) [of s w] same by (simp add: moves_def sent_def reported_def)
  show ?thesis
  proof (cases "fst (link_read r ?k) = Closing")
    case True
    obtain u where "TunnelConnection_closeLink os c a ?s = Inr u" "moves ?s c x (tc_id t) (Closing, [MClose]) u"
      using close_moves [OF L assms(2)] by blast
    then show ?thesis
      using True w one assms(3) begun
      by (cases "(r, ?k)" rule: link_read.cases) (simp_all add: ConnectionLink_readable_def deref_link_def syscall_def)
  next
    case False
    then obtain b bs where r: "r = Inr (b # bs)"
      by (cases "(r, ?k)" rule: link_read.cases) auto
    note one = one_linkD [OF L]
    obtain u where u: "TunnelConnection_sendData c a (b # bs) ?s = Inr u" "sent (tc_id t) x [MData ?k (b # bs)] ?s u"
        "m_links u = m_links ?s" "m_connections u = m_connections ?s" "incoming u = incoming ?s"
        "\<forall>k. poller_map u k = None \<longleftrightarrow> poller_map ?s k = None"
      using sendData_eq [OF one(3,1,5,6) refl, of "b # bs"] one(4) by blast
    obtain v where v: "ConnectionLink_setAcknowledged False a u = Inr v" "m_links v = (m_links u)(a \<mapsto> l\<lparr>m_acknowledged := False\<rparr>)"
        "m_connections v = m_connections u" "incoming v = incoming u" "outgoing v = outgoing u"
        "unsent_message v = unsent_message u" "m_writer_attached v = m_writer_attached u"
        "\<forall>k. poller_map v k = None \<longleftrightarrow> poller_map u k = None"
      using setAcknowledged_eq [of u a l False] one(3) u(3) by auto
    have "view u c x = Open (m_acknowledged l)" "held u c x = sb_content (m_buffer l)" "link_ok u c x"
      using after_link [OF L u(4), of l] one(3,4,8,9) u(3,6) assms(2) by simp_all
    moreover have "view v c x = Open False" "held v c x = sb_content (m_buffer l)" "link_ok v c x"
      using after_link [OF L, of v "l\<lparr>m_acknowledged := False\<rparr>"] one(4,8,9) u(4,6) v(2,3,8) assms(2) by simp_all
    moreover have "ConnectionLink_readable os a s = Inr (False, if ?k then v else u)"
      using w r one_linkD [OF assms(1)] assms(3) u(1,4) v(1)
      by (simp add: ConnectionLink_readable_def deref_link_def deref_connection_def syscall_def)
    ultimately show ?thesis
      unfolding begun [symmetric]
      using r u v assms(4) view_Some(2) [OF one(1-3)] by (auto simp: moves_def sent_def)
  qed
qed

text \<open>A client of the listening side.\<close>

lemma accept_moves:
  assumes "m_connections s c = Some t" "m_kind t = ListenSide" "link_ok s c x" "view s c x = Gone" "x = to_short (m_next_id t)"
    "m_writer_attached s" "unsent_message s = []" "sys_accept os (m_listen_socket t) (world s) = (Inr sock, w1)"
    "sys_nonblock os sock w1 = (Inr y, w2)" "poller_map s (P_Link (m_next_obj s), sock) = None"
  shows "\<exists>u. ListenSide_polled os c s = Inr u \<and> moves s c x (tc_id t) (Waiting, [MCreate]) u"
proof -
  let ?a = "m_next_obj s" and ?l = "ConnectionLink_new c x sock" and ?t = "t\<lparr>m_next_id := m_next_id t + 1\<rparr>"
  let ?s = "put_link ?a ?l ((put_connection c ?t (s\<lparr>world := w2\<rparr>))\<lparr>m_next_obj := Suc ?a\<rparr>)"
  let ?v = "put_connection c (?t\<lparr>m_link_map := (m_link_map t)(x \<mapsto> ?a)\<rparr>) ?s"
  note gone = Gone_unlinked [OF assms(1,3,4)]
  have v: "incoming ?v = incoming s" "outgoing ?v = outgoing s" "unsent_message ?v = unsent_message s"
    "m_writer_attached ?v = m_writer_attached s" "\<forall>k. poller_map ?v k = poller_map s k" "m_links ?v ?a = Some ?l"
    "m_connections ?v c = Some (?t\<lparr>m_link_map := (m_link_map t)(x \<mapsto> ?a)\<rparr>)"
    by (simp_all add: incoming_def outgoing_def unsent_message_def put_link_def put_connection_def poller_map_def)
  obtain u where u: "CustomWriteStream_send (put_bytes (enc_msg (tc_id t) x MCreate) ?v) = Inr u" "sent (tc_id t) x [MCreate] ?v u"
      "m_links u = m_links ?v" "m_connections u = m_connections ?v" "incoming u = incoming ?v"
      "\<forall>k. poller_map u k = None \<longleftrightarrow> poller_map ?v k = None"
    using send_msg [of ?v, unfolded v(3,4), OF assms(6,7), of "tc_id t" x MCreate] by blast
  have "ListenSide_polled os c s = Inr u"
    using assms(1,5,8,9) gone(1) u(1)
    by (simp add: ListenSide_polled_def deref_connection_def syscall_def new_link_def assign_link_def put_header_enc enc_msg_def
        put_connection_def put_link_def)
  moreover have "view ?v c x = Waiting" "held ?v c x = []" "link_ok ?v c x"
    using view_Some [OF v(7) _ v(6), of x] v(5) assms(2,10)
    by (simp_all add: ConnectionLink_new_def)
  moreover note same_view [OF u(3,4,6), of c x]
  ultimately show ?thesis
    using u(2,5) v gone(2) by (simp add: moves_def sent_def)
qed

section \<open>Properties\<close>

text \<open>C5: \<open>ListenSide::processMessage\<close> implements the listening end of the link protocol: a message that the
  end expects moves the link as the specification says, the answers are framed behind what is already
  waiting, the data is appended to what the link holds for its socket, exactly the bytes of the message
  are consumed, and the heap stays in order. For a link that is not there it throws.\<close>

theorem listen_side_refines:
  assumes "m_connections s c = Some t" "m_kind t = ListenSide" "link_ok s c x" "m_writer_attached s" "unsent_message s = []"
    "incoming s = link_bytes x m @ rest" "fits m"
  shows "(listen_expects m (view s c x) \<longrightarrow>
      refines s c x (tc_id t) rest (the (listen_recv m (view s c x))) (ListenSide_processMessage os c s)) \<and>
    (view s c x = Gone \<longrightarrow>
      ListenSide_processMessage os c s = Inl (MyException (''Link: '' @ show_int (of_short x) @ '' not found'')))"
proof -
  have "ListenSide_processMessage os c s = Inl (MyException (''Link: '' @ show_int (of_short x) @ '' not found''))"
    if "view s c x = Gone"
    using Gone_unlinked(1) [OF assms(1,3) that] get_link_bytes [OF assms(6)] assms(1)
    by (simp add: ListenSide_processMessage_def deref_connection_def)
  moreover have "refines s c x (tc_id t) rest (the (listen_recv m (view s c x))) (ListenSide_processMessage os c s)"
    if "listen_expects m (view s c x)"
    by (rule listen_refines [OF assms that])
  ultimately show ?thesis by blast
qed

text \<open>A listening link whose request has not been answered.\<close>

definition demo_waiting :: "msg \<Rightarrow> pipe_world local_tunnel" where
  "demo_waiting m = with_incoming (link_bytes 501 m)
     (demo_l\<lparr>m_connections := [0 \<mapsto> (ListenSide_new demo_spec 0)\<lparr>m_link_map := [501 \<mapsto> 1]\<rparr>],
       m_links := [1 \<mapsto> ConnectionLink_new 0 501 7]\<rparr>)"

lemma demo_waiting_facts:
  "m_connections (demo_waiting m) 0 = Some ((ListenSide_new demo_spec 0)\<lparr>m_link_map := [501 \<mapsto> 1]\<rparr>)"
  "m_kind ((ListenSide_new demo_spec 0)\<lparr>m_link_map := [501 \<mapsto> 1]\<rparr>) = ListenSide"
  "link_ok (demo_waiting m) 0 501" "m_writer_attached (demo_waiting m)" "unsent_message (demo_waiting m) = []"
  "incoming (demo_waiting m) = link_bytes 501 m @ []" "view (demo_waiting m) 0 501 = Waiting"
proof -
  have "unsent_message (demo_waiting m) = unsent_message demo_l" "m_polled (demo_waiting m) = m_polled demo_l"
    "m_writer_attached (demo_waiting m) = m_writer_attached demo_l"
    by (simp_all add: demo_waiting_def unsent_message_def with_incoming_def)
  then show "m_writer_attached (demo_waiting m)" "unsent_message (demo_waiting m) = []"
    using demo_l_facts by (simp_all add: table_alive_def demo_sides)
  show "view (demo_waiting m) 0 501 = Waiting"
    by (simp add: demo_waiting_def view_def view_link_def ConnectionLink_new_def ListenSide_new_def poller_map_def demo_sides)
  show "link_ok (demo_waiting m) 0 501"
    by (simp add: demo_waiting_def link_ok_def ConnectionLink_new_def)
qed (simp_all add: demo_waiting_def ListenSide_new_def)

theorem listen_side_refines_witness:
  "refines (demo_waiting MSuccess) 0 501 0 [] (Open True, [], []) (ListenSide_processMessage (pipe_proc 40) 0 (demo_waiting MSuccess)) \<and>
   refines (demo_waiting MFailure) 0 501 0 [] (Gone, [], []) (ListenSide_processMessage (pipe_proc 40) 0 (demo_waiting MFailure))"
  using listen_side_refines [OF demo_waiting_facts(1-6), of MSuccess "pipe_proc 40"]
    listen_side_refines [OF demo_waiting_facts(1-6), of MFailure "pipe_proc 40"]
  by (simp add: demo_waiting_facts(7) ListenSide_new_def)

text \<open>C6: \<open>ConnectSide::processMessage\<close> of the remote side implements the connecting end: the request to
  connect is answered by whether the system made the connection, any other expected message moves the
  link as the specification says, and nothing but the report of a failed attempt is sent besides. A
  message for a link that is not there changes nothing, and its payload is left unread.\<close>

theorem connect_side_refines:
  assumes "m_connections s c = Some t" "m_kind t = ConnectSide" "link_ok s c x" "m_writer_attached s" "unsent_message s = []"
    "incoming s = link_bytes x m @ rest" "fits m" "connected = connect_works os (m_spec t) (world s)"
  shows "(connect_expects m (view s c x) \<longrightarrow>
      (\<exists>err. answers s c x (tc_id t) rest err (connect_recv connected m (view s c x))
           (ConnectSide_processMessage os StdioTunnelRemote_reportError c s) \<and>
         (if m = MCreate \<and> \<not> connected then \<exists>e \<in> set (connect_messages (m_spec t)). err = frame (error_message e) else err = []))) \<and>
    (view s c x = Gone \<and> (plain m \<or> m = MClose) \<longrightarrow>
      ConnectSide_processMessage os StdioTunnelRemote_reportError c s = Inr (with_incoming (msg_body m @ rest) s))"
proof (intro conjI impI)
  assume "connect_expects m (view s c x)"
  then show "\<exists>err. answers s c x (tc_id t) rest err (connect_recv connected m (view s c x))
      (ConnectSide_processMessage os StdioTunnelRemote_reportError c s) \<and>
    (if m = MCreate \<and> \<not> connected then \<exists>e \<in> set (connect_messages (m_spec t)). err = frame (error_message e) else err = [])"
    using remote_side [OF assms(1-3) _ assms(4-7), of os] assms(8) by simp
next
  assume *: "view s c x = Gone \<and> (plain m \<or> m = MClose)"
  then show "ConnectSide_processMessage os StdioTunnelRemote_reportError c s = Inr (with_incoming (msg_body m @ rest) s)"
    using Gone_unlinked(1) [OF assms(1,3)] get_link_bytes [OF assms(6)] assms(1) msg_code_create [of m]
    by (simp add: ConnectSide_processMessage_def deref_connection_def)
qed

text \<open>The remote side is asked for a link.\<close>

definition demo_asked :: "msg \<Rightarrow> pipe_world remote_tunnel" where
  "demo_asked m = with_incoming (link_bytes 501 m) (demo_r\<lparr>m_connections := [0 \<mapsto> ConnectSide_new demo_spec 0]\<rparr>)"

lemma demo_asked_facts:
  "m_connections (demo_asked m) 0 = Some (ConnectSide_new demo_spec 0)" "m_kind (ConnectSide_new demo_spec 0) = ConnectSide"
  "link_ok (demo_asked m) 0 501" "m_writer_attached (demo_asked m)" "unsent_message (demo_asked m) = []"
  "incoming (demo_asked m) = link_bytes 501 m @ []" "view (demo_asked m) 0 501 = Gone"
proof -
  have "unsent_message (demo_asked m) = unsent_message demo_r" "m_writer_attached (demo_asked m) = m_writer_attached demo_r"
    by (simp_all add: demo_asked_def unsent_message_def with_incoming_def)
  then show "m_writer_attached (demo_asked m)" "unsent_message (demo_asked m) = []"
    using demo_r_facts by simp_all
  show "link_ok (demo_asked m) 0 501" "view (demo_asked m) 0 501 = Gone"
    by (simp_all add: demo_asked_def view_def link_ok_def ConnectSide_new_def)
qed (simp_all add: demo_asked_def ConnectSide_new_def)

theorem connect_side_refines_witness:
  "connect_works (pipe_proc 40) demo_spec (world (demo_asked MCreate)) \<and>
   (\<exists>s'. ConnectSide_processMessage (pipe_proc 40) StdioTunnelRemote_reportError 0 (demo_asked MCreate) = Inr s' \<and>
      view s' 0 501 = Open True \<and> outgoing s' = outgoing (demo_asked MCreate) @ frames_of 0 501 [MSuccess])"
proof -
  have works: "connect_works (pipe_proc 40) demo_spec w" for w
    by (simp add: connect_works_def pipe_proc_def pipe_net_def net_posix.extend_def posix.extend_def)
  then show ?thesis
    using connect_side_refines [OF demo_asked_facts(1-6) _ refl, of MCreate "pipe_proc 40"]
    by (auto simp: demo_asked_facts(7) answers_def ConnectSide_new_def)
qed

text \<open>C14: When the socket of an open link with nothing unacknowledged is readable, the link takes the step the
  protocol has for it: what is read goes out as one data message, with the flag of the connection, after
  which the link waits for the acknowledgement if it asked for one; at the end of the stream, or when the
  read fails, the link is closing and the other side is told. What it holds for its socket stays.\<close>

theorem link_read_refines:
  assumes "m_connections s c = Some t" "m_link_map t x = Some a" "m_links s a = Some l" "m_connection l = c"
    "link_ok s c x" "m_writer_attached s" "unsent_message s = []" "view s c x = Open True"
  shows "\<exists>returned u. ConnectionLink_readable os a s = Inr (returned, u) \<and> (returned \<longleftrightarrow> view u c x = Closing) \<and>
    moves s c x (tc_id t) (link_read (fst (sys_read os (m_socket l) TunnelConnection_BUFFER_SIZE (world s)))
      (has_flag ACK_PACKETS (m_spec t))) u"
proof -
  have l: "\<not> m_closing l" "m_acknowledged l" "lk_id l = x" "sb_inv (m_buffer l)"
    using assms(5,8) view_Some [OF assms(1-3)] by (auto split: if_splits)
  then have "one_link s c a t l x"
    using assms by (simp add: one_link_def)
  then obtain u where "ConnectionLink_readable os a s = Inr (fst (link_read (fst (sys_read os (m_socket l)
      TunnelConnection_BUFFER_SIZE (world s))) (has_flag ACK_PACKETS (m_spec t))) = Closing, u)"
    "moves s c x (tc_id t) (link_read (fst (sys_read os (m_socket l) TunnelConnection_BUFFER_SIZE (world s)))
      (has_flag ACK_PACKETS (m_spec t))) u"
    using read_moves [OF _ l(1) assms(4) l(2) refl] by blast
  then show ?thesis
    by (auto simp: moves_def)
qed

text \<open>An open link of the remote side, with some data from its socket and some for it.\<close>

definition demo_open :: "bytes \<Rightarrow> bytes \<Rightarrow> pipe_world remote_tunnel" where
  "demo_open ins bs = (demo_asked MClose)\<lparr>m_connections := [0 \<mapsto> (ConnectSide_new demo_spec 0)\<lparr>m_link_map := [501 \<mapsto> 1]\<rparr>],
     m_links := [1 \<mapsto> (ConnectionLink_new 0 501 7)\<lparr>m_buffer := SockBuffer_pushOnBuffer bs SockBuffer_new\<rparr>], world := demo_world ins\<rparr>"

lemma demo_open_facts:
  "m_connections (demo_open ins bs) 0 = Some ((ConnectSide_new demo_spec 0)\<lparr>m_link_map := [501 \<mapsto> 1]\<rparr>)"
  "m_link_map ((ConnectSide_new demo_spec 0)\<lparr>m_link_map := [501 \<mapsto> 1]\<rparr>) 501 = Some 1"
  "m_links (demo_open ins bs) 1 = Some ((ConnectionLink_new 0 501 7)\<lparr>m_buffer := SockBuffer_pushOnBuffer bs SockBuffer_new\<rparr>)"
  "m_connection ((ConnectionLink_new 0 501 7)\<lparr>m_buffer := SockBuffer_pushOnBuffer bs SockBuffer_new\<rparr>) = 0"
  "link_ok (demo_open ins bs) 0 501" "m_writer_attached (demo_open ins bs)" "unsent_message (demo_open ins bs) = []"
  "view (demo_open ins bs) 0 501 = Open True" "held (demo_open ins bs) 0 501 = bs" "incoming (demo_open ins bs) = link_bytes 501 MClose @ []"
  "outgoing (demo_open ins bs) = outgoing demo_r"
proof -
  note f = demo_asked_facts(4-6) [of MClose]
  show "unsent_message (demo_open ins bs) = []" "m_writer_attached (demo_open ins bs)"
    "incoming (demo_open ins bs) = link_bytes 501 MClose @ []" "outgoing (demo_open ins bs) = outgoing demo_r"
    using f by (simp_all add: demo_open_def unsent_message_def incoming_def demo_asked_def outgoing_def with_incoming_def)
  show "view (demo_open ins bs) 0 501 = Open True" "held (demo_open ins bs) 0 501 = bs" "link_ok (demo_open ins bs) 0 501"
    by (simp_all add: demo_open_def view_def view_link_def held_def link_ok_def ConnectSide_new_def ConnectionLink_new_def)
qed (simp_all add: demo_open_def ConnectSide_new_def ConnectionLink_new_def)

lemma demo_read: "fst (sys_read (pipe_os 40) 7 n (world (demo_open ins bs))) = Inr (take (min n 40) ins)"
  by (simp add: pipe_os_def demo_open_def demo_world_def Let_def)

theorem link_read_refines_witness:
  "(\<exists>u. ConnectionLink_readable (pipe_proc 40) 1 (demo_open [] [5]) = Inr (True, u) \<and> view u 0 501 = Closing \<and>
     held u 0 501 = [5] \<and> outgoing u = outgoing demo_r @ frames_of 0 501 [MClose]) \<and>
   (\<exists>u. ConnectionLink_readable (pipe_proc 40) 1 (demo_open [7, 8] []) = Inr (False, u) \<and> view u 0 501 = Open False \<and>
     outgoing u = outgoing demo_r @ frames_of 0 501 [MData True [7, 8]])"
proof -
  have l: "m_socket ((ConnectionLink_new 0 501 7)\<lparr>m_buffer := b\<rparr>) = 7" for b
    by (simp add: ConnectionLink_new_def)
  have k: "has_flag ACK_PACKETS (m_spec ((ConnectSide_new demo_spec 0)\<lparr>m_link_map := [501 \<mapsto> 1]\<rparr>))"
    by (simp add: ConnectSide_new_def demo_spec_def has_flag_def ACK_PACKETS_def)
  show ?thesis
    using link_read_refines [OF demo_open_facts(1-8), of "pipe_proc 40" "[]" "[5]"]
      link_read_refines [OF demo_open_facts(1-8), of "pipe_proc 40" "[7, 8]" "[]"] k
    by (auto simp: l demo_read moves_def sent_def demo_open_facts ConnectSide_new_def TunnelConnection_BUFFER_SIZE_def)
qed

text \<open>C23: A link that is closed by the other side drops the data it has received and not yet written: on
  \<open>LINK_CLOSE\<close> for an open link, whatever it holds, the only thing done to the outside world is to close
  the socket, and the link is destroyed. So the end of a stream can be lost although every message has
  arrived. This is so on either side of the tunnel, whatever its way of reporting errors is.\<close>

theorem closing_discards_data:
  assumes "m_connections s c = Some t" "m_link_map t x = Some a" "m_links s a = Some l" "link_ok s c x"
    "m_writer_attached s" "unsent_message s = []" "incoming s = link_bytes x MClose @ rest" "view s c x = Open k"
    "held s c x = d"
  shows "\<exists>s'. TunnelConnection_processMessage os reportError c s = Inr s' \<and>
    world s' = sys_close os (m_socket l) (world s) \<and> m_links s' a = None \<and> view s' c x = Gone \<and>
    outgoing s' = outgoing s @ frames_of (tc_id t) x [MClose]"
proof -
  let ?s = "with_incoming rest s"
  have L: "one_link ?s c a t l x"
    using assms view_Some(3) [OF assms(1-3)] by (simp add: one_link_def)
  have "\<not> m_closing l"
    using assms(8) view_Some(1) [OF assms(1-3)] by auto
  then obtain u where u: "TunnelConnection_processLinkMessage os c LINK_CLOSE a ?s = Inr u" "view u c x = Gone"
      "sent (tc_id t) x [MClose] ?s u" "world u = sys_close os (m_socket l) (world s)" "m_links u a = None"
    using close_message_eq [OF L, of os] by auto
  moreover have "TunnelConnection_processMessage os reportError c s =
      TunnelConnection_processLinkMessage os c LINK_CLOSE a ?s"
    using get_link_bytes [OF assms(7)] assms(1,2)
    by (cases "m_kind t") (simp_all add: TunnelConnection_processMessage_def ListenSide_processMessage_def
        ConnectSide_processMessage_def deref_connection_def)
  ultimately show ?thesis
    by (auto simp: sent_def)
qed

theorem closing_discards_data_witness:
  "held (demo_open [] [5, 6]) 0 501 = [5, 6] \<and>
   (\<exists>s'. TunnelConnection_processMessage (pipe_proc 40) StdioTunnelRemote_reportError 0 (demo_open [] [5, 6]) = Inr s' \<and>
      pw_out (world s') = [] \<and> pw_closed (world s') = [7] \<and> m_links s' 1 = None)"
proof -
  have l: "m_socket ((ConnectionLink_new 0 501 7)\<lparr>m_buffer := b\<rparr>) = 7" for b
    by (simp add: ConnectionLink_new_def)
  have "sys_close (pipe_proc 40) 7 (world (demo_open [] [5, 6])) = \<lparr>pw_in = [], pw_out = [], pw_closed = [7]\<rparr>"
    by (simp add: pipe_proc_def pipe_net_def net_posix.extend_def posix.extend_def pipe_os_def demo_open_def demo_world_def)
  then show ?thesis
    using closing_discards_data [OF demo_open_facts(1-3,5-7,10,8,9), of "pipe_proc 40" StdioTunnelRemote_reportError "[]" "[5, 6]"] l
    by (auto simp: demo_open_facts)
qed

end
