(* ===== verification/Link_System.thy ===== *)
theory Link_System
  imports Link_Refinement Remote_Safety
begin

text \<open>
  One link as a whole process sees it: a message in the read queue, the events at the socket of the link, and
  the quiet steps. What \<open>Link_Refinement\<close> shows of one handler at a time is carried to the dispatchers of
  the two sides, which are the interface \<open>tunnel_reporter\<close>.
\<close>

section \<open>What stays of a connection\<close>

definition same_kind :: "tunnel_connection \<Rightarrow> tunnel_connection \<Rightarrow> bool" where
  "same_kind t t' \<longleftrightarrow> m_spec t' = m_spec t \<and> tc_id t' = tc_id t \<and> m_kind t' = m_kind t"

definition conn_rel :: "('w, 'a) tunnel_scheme \<Rightarrow> ('w, 'a) tunnel_scheme \<Rightarrow> bool" where
  "conn_rel s s' \<longleftrightarrow> m_connection_map s' = m_connection_map s \<and>
     (\<forall>c t. m_connections s c = Some t \<longrightarrow> (\<exists>t'. m_connections s' c = Some t' \<and> same_kind t t'))"

abbreviation conn_ok :: "('w, 'a) tunnel_scheme \<Rightarrow> ('w, 'a) tunnel_scheme res \<Rightarrow> bool" where
  "conn_ok s \<equiv> res_ok (\<lambda>_. True) (conn_rel s)"

abbreviation conn_pair_ok :: "('w, 'a) tunnel_scheme \<Rightarrow> ('x \<times> ('w, 'a) tunnel_scheme) res \<Rightarrow> bool" where
  "conn_pair_ok s \<equiv> res_ok (\<lambda>_. True) (\<lambda>(_, t). conn_rel s t)"

lemma conn_rel_refl [simp, intro!]: "conn_rel s s"
  by (simp add: conn_rel_def same_kind_def)

lemma conn_rel_trans: "conn_rel s t \<Longrightarrow> conn_rel t u \<Longrightarrow> conn_rel s u"
  unfolding conn_rel_def same_kind_def by metis

lemma conn_rel_same: "m_connections t = m_connections s \<Longrightarrow> m_connection_map t = m_connection_map s \<Longrightarrow> conn_rel s t"
  by (simp add: conn_rel_def same_kind_def)

lemma conn_bind:
  assumes "conn_rel s t" "conn_ok t r" "\<And>u. conn_rel s u \<Longrightarrow> res_ok (\<lambda>_. True) P (k u)"
  shows "res_ok (\<lambda>_. True) P (bindE r k)"
  using assms(2) by (rule res_ok_bind) (use assms conn_rel_trans in blast)

lemma conn_bind_pair:
  fixes s t :: "('w, 'a) tunnel_scheme" and r :: "('x \<times> ('w, 'a) tunnel_scheme) res"
  assumes "conn_rel s t" "conn_pair_ok t r" "\<And>x u. conn_rel s u \<Longrightarrow> res_ok (\<lambda>_. True) P (k (x, u))"
  shows "res_ok (\<lambda>_. True) P (bindE r k)"
  using assms(2)
proof (rule res_ok_bind)
  fix z :: "'x \<times> ('w, 'a) tunnel_scheme"
  assume "case z of (_, u) \<Rightarrow> conn_rel t u"
  then show "res_ok (\<lambda>_. True) P (k z)"
    using assms(3) [of "snd z" "fst z"] conn_rel_trans [OF assms(1), of "snd z"] by (cases z) simp
qed

lemma conn_bind_deref:
  "(\<And>l. deref_link a u = Inr l \<Longrightarrow> res_ok (\<lambda>_. True) P (k l)) \<Longrightarrow> res_ok (\<lambda>_. True) P (bindE (deref_link a u) k)"
  "(\<And>t. deref_connection c u = Inr t \<Longrightarrow> res_ok (\<lambda>_. True) P (g t)) \<Longrightarrow> res_ok (\<lambda>_. True) P (bindE (deref_connection c u) g)"
  by (cases "deref_link a u"; simp) (cases "deref_connection c u"; simp)

text \<open>Primitive operations.\<close>

lemma conn_rel_prims [simp]:
  "conn_rel s (put_link a l u) = conn_rel s u" "conn_rel s (free_link a u) = conn_rel s u"
  "conn_rel s (on_world h u) = conn_rel s u" "conn_rel s (u\<lparr>world := w\<rparr>) = conn_rel s u"
  "conn_rel s (u\<lparr>m_next_obj := n\<rparr>) = conn_rel s u" "conn_rel s (put_bytes bs u) = conn_rel s u"
  "conn_rel s (put_header i cmd x u) = conn_rel s u" "conn_rel s (put_short y u) = conn_rel s u"
  "conn_rel s (writing g u) = conn_rel s u" "conn_rel s (u\<lparr>m_read_stream := r\<rparr>) = conn_rel s u"
  "conn_rel s (Poller_setEvents p f ev u) = conn_rel s u"
  by (simp_all add: conn_rel_def put_link_def free_link_def on_world_def put_bytes_def put_header_def put_short_def writing_def
      Poller_setEvents_def Let_def split: option.splits)

lemma conn_rel_removePolled [simp]: "conn_rel s (Poller_removePolled p f u) = conn_rel s u"
  by (simp add: conn_rel_def Poller_removePolled_def Let_def split: option.splits)

lemma conn_rel_put_connection:
  "conn_rel s u \<Longrightarrow> m_connections u c = Some t \<Longrightarrow> same_kind t t' \<Longrightarrow> conn_rel s (put_connection c t' u)"
  by (rule conn_rel_trans [of s u]) (auto simp: conn_rel_def same_kind_def put_connection_def)

lemma conn_rel_syscall: "syscall g u = (x, v) \<Longrightarrow> conn_rel s u \<Longrightarrow> conn_rel s v"
  by (auto simp: syscall_def split: prod.splits)

lemma send_conn: "conn_ok s (CustomWriteStream_send s)"
  by (simp add: CustomWriteStream_send_def)

lemma reading_conn: "conn_pair_ok s (reading f s)" "conn_pair_ok s (get_short s)"
  by (auto simp: reading_def get_short_def exn_simps bindE_def split: sum.splits prod.splits)

lemma addPolled_conn: "conn_ok s (Poller_addPolled (\<lambda>_. ConnectionLink_setPollfd a) p s)"
  by (auto simp: Poller_addPolled_def ConnectionLink_setPollfd_def deref_link_def conn_rel_def same_kind_def
      split: option.splits)

text \<open>The handlers of a link.\<close>

lemma setAcknowledged_conn: "conn_ok s (ConnectionLink_setAcknowledged ack a s)"
  by (simp add: ConnectionLink_setAcknowledged_def deref_link_def Let_def split: option.splits)

lemma send_after_conn: "conn_rel s u \<Longrightarrow> conn_ok s (CustomWriteStream_send u)"
  by (rule res_ok_mono [OF send_conn]) (auto intro: conn_rel_trans)

lemma closeLink_conn: "conn_ok s (TunnelConnection_closeLink os c a s)"
proof -
  have "conn_ok s (ConnectionLink_setClosing os a s)"
    by (simp add: ConnectionLink_setClosing_def deref_link_def Let_def split: option.splits)
  then show ?thesis
    unfolding TunnelConnection_closeLink_def
    by (intro conn_bind_deref res_ok_if conn_bind [OF conn_rel_refl] send_after_conn) simp_all
qed

lemma receiveData_conn: "conn_ok s (TunnelConnection_receiveData a s)"
  unfolding TunnelConnection_receiveData_def
  by (rule conn_bind_pair [OF conn_rel_refl reading_conn(2)])
    (auto intro!: res_ok_if conn_bind_pair [OF _ reading_conn(1)] conn_bind_deref split: if_splits)

lemma erase_link_conn: "conn_rel s u \<Longrightarrow> conn_ok s (erase_link c x u)"
  by (auto simp: erase_link_def deref_connection_def same_kind_def intro!: conn_rel_put_connection split: option.splits)

lemma link_message_conn: "conn_ok s (TunnelConnection_processLinkMessage os c cmd a s)"
  unfolding TunnelConnection_processLinkMessage_def
  by (auto intro!: res_ok_if receiveData_conn setAcknowledged_conn conn_bind [OF conn_rel_refl closeLink_conn]
      conn_bind [OF conn_rel_refl receiveData_conn] conn_bind_deref erase_link_conn send_after_conn
      res_ok_mono [OF setAcknowledged_conn] intro: conn_rel_trans)

lemma listen_conn: "conn_ok s (ListenSide_processMessage os c s)"
  unfolding ListenSide_processMessage_def
  by (rule conn_bind_pair [OF conn_rel_refl reading_conn(2)], simp, erule conn_bind_pair [OF _ reading_conn(2)], simp)
    (auto intro!: conn_bind_deref res_ok_option res_ok_if conn_bind_pair [OF _ reading_conn(2)] erase_link_conn
      res_ok_mono [OF addPolled_conn] res_ok_mono [OF link_message_conn] intro: conn_rel_trans)

lemma assign_link_conn: "conn_rel s v \<Longrightarrow> conn_ok s (assign_link c x a v)"
  by (auto simp: assign_link_def deref_connection_def Let_def same_kind_def free_link_def intro!: conn_rel_put_connection
      split: option.splits)
    (simp_all add: conn_rel_def)

lemma connect_link_conn:
  assumes "new_link l u = (a, v)" "conn_rel s u"
  shows "conn_pair_ok s (bindE (Poller_addPolled (\<lambda>_. ConnectionLink_setPollfd a) (P_Link a) v) (\<lambda>v.
      bindE (assign_link c x a v) (\<lambda>v. Inr (True, v))))"
proof -
  have "conn_rel s v"
    using assms by (auto simp: new_link_def)
  then show ?thesis
    by (rule conn_bind [OF _ addPolled_conn]) (auto intro: res_ok_bind [OF assign_link_conn])
qed

lemma connect_conn:
  assumes "\<And>m u. conn_ok u (reportError m u)" "conn_rel s u"
  shows "conn_pair_ok s (ConnectSide_connect os reportError c t x u)"
proof -
  have fail: "conn_pair_ok s (bindE (reportError m v) (\<lambda>v. Inr (False, v)))" if "conn_rel s v" for m v
    by (rule conn_bind [OF that assms(1)]) simp
  show ?thesis
    using assms(2) unfolding ConnectSide_connect_def
    by (auto intro!: fail res_ok_bind [where Q = "\<lambda>(_, v). conn_rel s v"] connect_link_conn
        dest: conn_rel_syscall split: prod.splits option.splits sum.splits)
qed

lemma connect_side_conn:
  assumes "\<And>m u. conn_ok u (reportError m u)"
  shows "conn_ok s (ConnectSide_processMessage os reportError c s)"
  unfolding ConnectSide_processMessage_def Let_def
  by (rule conn_bind_pair [OF conn_rel_refl reading_conn(2)], simp, erule conn_bind_pair [OF _ reading_conn(2)], simp)
    (auto intro!: conn_bind_deref res_ok_option res_ok_if send_after_conn res_ok_mono [OF link_message_conn]
      res_ok_bind [OF connect_conn [OF assms]] intro: conn_rel_trans)

lemma readable_conn: "conn_pair_ok s (ConnectionLink_readable os a s)"
proof -
  have close: "conn_pair_ok s (bindE (TunnelConnection_closeLink os c a u) (\<lambda>u. Inr (True, u)))" if "conn_rel s u" for c u
    by (rule conn_bind [OF that closeLink_conn]) simp
  have send: "conn_ok s (TunnelConnection_sendData c a bs u)" if "conn_rel s u" for c bs u
    using that unfolding TunnelConnection_sendData_def Let_def by (auto intro!: conn_bind_deref send_after_conn)
  have ack: "conn_pair_ok s (bindE (ConnectionLink_setAcknowledged False a u) (\<lambda>u. Inr (False, u)))" if "conn_rel s u" for u
    by (rule conn_bind [OF that setAcknowledged_conn]) simp
  show ?thesis
    unfolding ConnectionLink_readable_def
    by (auto intro!: conn_bind_deref close ack res_ok_if res_ok_bind [OF send] dest: conn_rel_syscall
        split: prod.splits sum.splits)
qed

lemma res_ok_any: "res_ok (\<lambda>_. True) (\<lambda>_. True) r"
  by (cases r) simp_all

lemma writable_conn: "conn_ok s (ConnectionLink_writable os a s)"
  unfolding ConnectionLink_writable_def
  by (auto intro!: conn_bind_deref res_ok_bind [OF res_ok_any] simp: Let_def split: prod.splits)

lemma listen_polled_conn: "conn_ok s (ListenSide_polled os c s)"
  unfolding ListenSide_polled_def
  by (auto intro!: conn_bind_deref conn_bind [of s s, OF conn_rel_refl assign_link_conn] send_after_conn conn_rel_put_connection
      simp: deref_connection_def same_kind_def new_link_def Let_def syscall_def split: option.splits prod.splits sum.splits)

text \<open>Together with what the base of the tunnel keeps.\<close>

definition keeps :: "('w, 'a) tunnel_scheme \<Rightarrow> ('w, 'a) tunnel_scheme \<Rightarrow> bool" where
  "keeps s s' \<longleftrightarrow> conn_rel s s' \<and> m_writer_attached s' = m_writer_attached s \<and> tunnel.more s' = tunnel.more s"

lemma keeps_rel: "conn_rel s s' \<Longrightarrow> tun_rel s s' \<Longrightarrow> keeps s s'"
  by (simp add: keeps_def tun_rel_def tun_core_def)

lemma keeps_ok:
  "conn_ok s (Inr s') \<Longrightarrow> frame_ok s (Inr s') \<Longrightarrow> keeps s s'"
  by (simp add: keeps_rel)

section \<open>One side\<close>

text \<open>A side of the pair between two events: its connection \<open>c\<close>, known as \<open>i\<close>, and a heap in order for the link.\<close>

definition side ::
  "connection_kind \<Rightarrow> c_int \<Rightarrow> bool \<Rightarrow> nat \<Rightarrow> short \<Rightarrow> ('w, 'a) tunnel_scheme \<Rightarrow> bool" where
  "side kind i ack c x s \<longleftrightarrow>
     (\<exists>t. m_connections s c = Some t \<and> m_kind t = kind \<and> tc_id t = i \<and> has_flag ACK_PACKETS (m_spec t) = ack \<and>
        length (m_connect_host (m_spec t)) < 2 ^ 31) \<and>
     of_short (to_short i) = i \<and> map_find i (m_connection_map s) = Some c \<and> m_writer_attached s \<and> unsent_message s = [] \<and>
     incoming s = [] \<and> link_ok s c x"

lemma side_keeps:
  assumes "side kind i ack c x s" "keeps s s'" "unsent_message s' = []" "incoming s' = []" "link_ok s' c x"
  shows "side kind i ack c x s'"
  using assms unfolding side_def keeps_def conn_rel_def same_kind_def by metis

lemma keeps_with_incoming [simp]:
  "conn_rel (with_incoming bs s) s' = conn_rel s s'" "keeps (with_incoming bs s) s' = keeps s s'"
  by (simp_all add: keeps_def conn_rel_def)

lemma side_with_incoming:
  "side kind i ack c x s \<Longrightarrow> \<exists>t. m_connections (with_incoming bs s) c = Some t \<and> m_kind t = kind \<and> tc_id t = i \<and>
     has_flag ACK_PACKETS (m_spec t) = ack \<and> length (m_connect_host (m_spec t)) < 2 ^ 31"
  by (simp add: side_def)

text \<open>The two ends of the specification as one function, by the kind of the end.\<close>

fun end_recv :: "connection_kind \<Rightarrow> bool \<Rightarrow> msg \<Rightarrow> endpoint \<Rightarrow> (endpoint \<times> msg list \<times> bytes) option" where
  "end_recv ListenSide ok m e = listen_recv m e"
| "end_recv ConnectSide ok m e = Some (connect_recv ok m e)"

fun end_expects :: "connection_kind \<Rightarrow> msg \<Rightarrow> endpoint \<Rightarrow> bool" where
  "end_expects ListenSide m e = listen_expects m e"
| "end_expects ConnectSide m e = connect_expects m e"

lemma connect_messages_short:
  "e \<in> set (connect_messages sp) \<Longrightarrow> length (m_connect_host sp) < 2 ^ 31 \<Longrightarrow> length e < 2 ^ 31 + 100"
  by (auto simp: connect_messages_def)

text \<open>What the reports of a tunnel leave alone; and a message for a connection, whatever its kind.\<close>

locale tunnel_reporter = error_reporter +
  assumes report_conn: "conn_ok s (reportError m s)" and report_frame: "frame_ok s (reportError m s)"
begin

lemma connect_message_moves:
  assumes "side ConnectSide i ack c x s" "fits m" "connect_expects m (view s c x)"
  shows "\<exists>s' ok out d err. ConnectSide_processMessage os reportError c (with_incoming (link_bytes x m) s) = Inr s' \<and>
    connect_recv ok m (view s c x) = (view s' c x, out, d) \<and> outgoing s' = outgoing s @ err @ frames_of i x out \<and>
    (err = [] \<or> (\<exists>e. length e < 2 ^ 31 + 100 \<and> err = report e)) \<and>
    (view s' c x \<noteq> Gone \<longrightarrow> held s' c x = held s c x @ d) \<and> side ConnectSide i ack c x s' \<and> keeps s s'"
proof -
  let ?s = "with_incoming (link_bytes x m) s"
  obtain t where t: "m_connections ?s c = Some t" "m_kind t = ConnectSide" "tc_id t = i" "length (m_connect_host (m_spec t)) < 2 ^ 31"
    using side_with_incoming [OF assms(1)] by blast
  have h: "link_ok ?s c x" "m_writer_attached ?s" "unsent_message ?s = []" "incoming ?s = link_bytes x m @ []"
    and e: "connect_expects m (view ?s c x)"
    using assms(1,3) by (simp_all add: side_def)
  let ?ok = "connect_works os (m_spec t) (world ?s)"
  obtain err where err: "answers ?s c x i [] err (connect_recv ?ok m (view s c x)) (ConnectSide_processMessage os reportError c ?s)"
      "err \<in> reports_if (m = MCreate \<and> \<not> ?ok) (m_spec t)"
    using connect_side [OF t(1,2) h(1) e h(2-4) assms(2), of os] t(3) by auto
  then obtain s' out d where s': "ConnectSide_processMessage os reportError c ?s = Inr s'"
      "connect_recv ?ok m (view s c x) = (view s' c x, out, d)" "outgoing s' = outgoing s @ err @ frames_of i x out"
      "unsent_message s' = []" "incoming s' = []" "view s' c x \<noteq> Gone \<longrightarrow> held s' c x = held s c x @ d" "link_ok s' c x"
    by (auto simp: answers_def)
  have "conn_rel ?s s'" "tun_rel ?s s'"
    using connect_side_conn [where reportError = reportError and s = ?s and os = os and c = c, OF report_conn]
      ConnectSide_processMessage_ok [where reportError = reportError and s = ?s and os = os and c = c, OF report_frame]
    by (simp_all add: s'(1))
  then have "keeps ?s s'"
    by (rule keeps_rel)
  then have "side ConnectSide i ack c x s'" "keeps s s'"
    using side_keeps [OF assms(1), of s'] s' by simp_all
  moreover have "err = [] \<or> (\<exists>e. length e < 2 ^ 31 + 100 \<and> err = report e)"
    using err(2) connect_messages_short [OF _ t(4)] by (auto simp: reports_if_def split: if_splits)
  ultimately show ?thesis
    using s' by (intro exI [of _ s'] exI [of _ ?ok] exI [of _ out] exI [of _ d] exI [of _ err] conjI) simp_all
qed

lemma listen_message_moves:
  assumes "side ListenSide i ack c x s" "fits m" "listen_expects m (view s c x)"
  shows "\<exists>s' out d. ListenSide_processMessage os c (with_incoming (link_bytes x m) s) = Inr s' \<and>
    listen_recv m (view s c x) = Some (view s' c x, out, d) \<and> outgoing s' = outgoing s @ frames_of i x out \<and>
    (view s' c x \<noteq> Gone \<longrightarrow> held s' c x = held s c x @ d) \<and> side ListenSide i ack c x s' \<and> keeps s s'"
proof -
  let ?s = "with_incoming (link_bytes x m) s"
  obtain t where t: "m_connections ?s c = Some t" "m_kind t = ListenSide" "tc_id t = i"
    using side_with_incoming [OF assms(1)] by blast
  have h: "link_ok ?s c x" "m_writer_attached ?s" "unsent_message ?s = []" "incoming ?s = link_bytes x m @ []"
    using assms(1) by (simp_all add: side_def)
  obtain r where r: "listen_recv m (view s c x) = Some r"
    using assms(3) by (cases "(m, view s c x)" rule: listen_recv.cases) auto
  have "refines ?s c x i [] r (ListenSide_processMessage os c ?s)"
    using listen_refines [OF t(1,2) h assms(2), of os] assms(3) t(3) r by simp
  then obtain s' out d where s': "ListenSide_processMessage os c ?s = Inr s'" "r = (view s' c x, out, d)" "sent i x out s s'"
      "incoming s' = []" "view s' c x \<noteq> Gone \<longrightarrow> held s' c x = held s c x @ d" "link_ok s' c x"
    by (auto simp: refines_def sent_def)
  have "conn_rel ?s s'" "tun_rel ?s s'"
    using listen_conn [of ?s os c] ListenSide_processMessage_ok [of ?s os c] by (simp_all add: s'(1))
  then have "keeps ?s s'"
    by (rule keeps_rel)
  then have "side ListenSide i ack c x s'" "keeps s s'"
    using side_keeps [OF assms(1), of s'] s' by (simp_all add: sent_def)
  then show ?thesis
    using s' r by (auto simp: sent_def)
qed

lemma message_moves:
  assumes "side kind i ack c x s" "fits m" "end_expects kind m (view s c x)"
  shows "\<exists>s' ok out d err. TunnelConnection_processMessage os reportError c (with_incoming (link_bytes x m) s) = Inr s' \<and>
    end_recv kind ok m (view s c x) = Some (view s' c x, out, d) \<and> outgoing s' = outgoing s @ err @ frames_of i x out \<and>
    (err = [] \<or> (\<exists>e. length e < 2 ^ 31 + 100 \<and> err = report e)) \<and>
    (view s' c x \<noteq> Gone \<longrightarrow> held s' c x = held s c x @ d) \<and> side kind i ack c x s' \<and> keeps s s'"
proof -
  obtain t where "m_connections (with_incoming (link_bytes x m) s) c = Some t" "m_kind t = kind"
    using side_with_incoming [OF assms(1)] by blast
  then have p: "TunnelConnection_processMessage os reportError c (with_incoming (link_bytes x m) s) =
      (case kind of
         ListenSide \<Rightarrow> ListenSide_processMessage os c (with_incoming (link_bytes x m) s)
       | ConnectSide \<Rightarrow> ConnectSide_processMessage os reportError c (with_incoming (link_bytes x m) s))"
    by (simp add: TunnelConnection_processMessage_def deref_connection_def)
  show ?thesis
  proof (cases kind)
    case ListenSide
    then show ?thesis
      using listen_message_moves [of i ack c x s m os] assms p by fastforce
  next
    case ConnectSide
    then show ?thesis
      using connect_message_moves [of i ack c x s m os] assms p by simp
  qed
qed

end

lemma remote_report_conn: "conn_ok s (StdioTunnelRemote_reportError m s)"
  by (simp add: StdioTunnelRemote_reportError_def send_after_conn)

interpretation local_end: tunnel_reporter "StdioTunnelLocal_reportError os" "\<lambda>_. []" for os
  by unfold_locales (simp_all add: StdioTunnelLocal_reportError_def tun_rel_put)

interpretation remote_end: tunnel_reporter StdioTunnelRemote_reportError "\<lambda>m. frame (error_message m)"
  by unfold_locales (rule remote_report_conn reportError_ok)+

text \<open>A message of a link, taken apart by the two sides' own handlers.\<close>

lemma side_forward:
  assumes "side kind i ack c x s"
  shows "forward_message os rep i (with_incoming bs s) = TunnelConnection_processMessage os rep c (with_incoming bs s)"
  using assms by (simp add: side_def forward_message_def)

lemma local_dispatch:
  assumes "side kind i ack c x s"
  shows "StdioTunnelLocal_message os (with_incoming (enc_msg i x m) s) =
    TunnelConnection_processMessage os (StdioTunnelLocal_reportError os) c (with_incoming (link_bytes x m) s)"
proof -
  have "of_short (to_short i) = i"
    using assms by (simp add: side_def)
  then show ?thesis
    by (simp add: StdioTunnelLocal_message_def enc_msg_link_bytes get_int_enc side_forward [OF assms])
qed

lemma remote_dispatch:
  assumes "side kind i ack c x s" "r_state s = R_CONNECTED"
  shows "StdioTunnelRemote_message os (with_incoming (enc_msg i x m) s) =
    TunnelConnection_processMessage os StdioTunnelRemote_reportError c (with_incoming (link_bytes x m) s)"
proof -
  have "of_short (to_short i) = i"
    using assms by (simp add: side_def)
  moreover have "r_state (with_incoming bs s) = R_CONNECTED" for bs
    using assms(2) by (simp add: with_incoming_def)
  ultimately show ?thesis
    by (simp add: StdioTunnelRemote_message_def enc_msg_link_bytes get_int_enc side_forward [OF assms(1)])
qed

text \<open>A message for the local side.\<close>

lemma local_message_moves:
  assumes "side kind i ack c x s" "fits m" "end_expects kind m (view s c x)"
  shows "\<exists>s' ok out d. StdioTunnelLocal_message os (with_incoming (enc_msg i x m) s) = Inr s' \<and>
    end_recv kind ok m (view s c x) = Some (view s' c x, out, d) \<and> outgoing s' = outgoing s @ frames_of i x out \<and>
    (view s' c x \<noteq> Gone \<longrightarrow> held s' c x = held s c x @ d) \<and> side kind i ack c x s' \<and> keeps s s'"
  using local_end.message_moves [OF assms, of os] local_dispatch [OF assms(1), of os m] by fastforce

lemma same_r_state: "tunnel.more s' = tunnel.more s \<Longrightarrow> r_state s' = r_state s" for s s' :: "'w remote_tunnel"
  by (cases s; cases s') simp

text \<open>And one for the remote side.\<close>

lemma remote_message_moves:
  assumes "side kind i ack c x s" "r_state s = R_CONNECTED" "fits m" "end_expects kind m (view s c x)"
  shows "\<exists>s' ok out d err. StdioTunnelRemote_message os (with_incoming (enc_msg i x m) s) = Inr s' \<and>
    end_recv kind ok m (view s c x) = Some (view s' c x, out, d) \<and> outgoing s' = outgoing s @ err @ frames_of i x out \<and>
    (err = [] \<or> (\<exists>e. length e < 2 ^ 31 + 100 \<and> err = frame (error_message e))) \<and>
    (view s' c x \<noteq> Gone \<longrightarrow> held s' c x = held s c x @ d) \<and> side kind i ack c x s' \<and> keeps s s' \<and> r_state s' = R_CONNECTED"
proof -
  have "r_state s' = R_CONNECTED" if "keeps s s'" for s'
    using that same_r_state [of s' s] assms(2) by (simp add: keeps_def)
  then show ?thesis
    using remote_end.message_moves [OF assms(1,3,4), of os] unfolding remote_dispatch [OF assms(1,2), of os m] by metis
qed

section \<open>The events at a socket\<close>

definition bounded_io :: "('w, 'o) posix_scheme \<Rightarrow> bool" where
  "bounded_io os \<longleftrightarrow> (\<forall>f n w bs w'. sys_read os f n w = (Inr bs, w') \<longrightarrow> length bs \<le> n) \<and>
     (\<forall>f bs w k w'. sys_write os f bs w = (Inr k, w') \<longrightarrow> k \<le> length bs)"

lemma bounded_ioD:
  assumes "bounded_io os"
  shows bounded_read: "sys_read os f n w = (Inr bs, w') \<Longrightarrow> length bs \<le> n"
    and bounded_write: "sys_write os f cs w = (Inr k, w') \<Longrightarrow> k \<le> length cs"
  using assms unfolding bounded_io_def by blast+

fun read_bytes :: "errno + bytes \<Rightarrow> bytes" where
  "read_bytes (Inl e) = []"
| "read_bytes (Inr bs) = bs"

text \<open>What the socket takes of what a link holds when it is written to.\<close>

definition write_bytes :: "('w, 'o) posix_scheme \<Rightarrow> connection_link \<Rightarrow> 'w \<Rightarrow> bytes" where
  "write_bytes os l w =
     (let b = m_output_buf (SockBuffer_refill (m_buffer l))
      in case fst (sys_write os (m_socket l) b w) of Inl e \<Rightarrow> [] | Inr k \<Rightarrow> take k b)"

definition link_at :: "('w, 'a) tunnel_scheme \<Rightarrow> nat \<Rightarrow> short \<Rightarrow> nat \<Rightarrow> connection_link \<Rightarrow> bool" where
  "link_at s c x a l \<longleftrightarrow> (\<exists>t. m_connections s c = Some t \<and> m_link_map t x = Some a) \<and> m_links s a = Some l"

text \<open>
  An event of the poll entry of an open link, with what is read from its socket and what is written to
  it. The poller reports input only where it was asked for, which is when nothing is unacknowledged.
\<close>

inductive link_event ::
  "('w, 'o) posix_scheme \<Rightarrow> nat \<Rightarrow> short \<Rightarrow> ('w, 'a) tunnel_scheme \<Rightarrow> bytes \<Rightarrow> bytes \<Rightarrow> ('w, 'a) tunnel_scheme \<Rightarrow> bool"
  for os c x s where
  reads: "link_at s c x a l \<Longrightarrow> view s c x = Open True \<Longrightarrow> ConnectionLink_readable os a s = Inr (b, s') \<Longrightarrow>
    link_event os c x s (read_bytes (fst (sys_read os (m_socket l) TunnelConnection_BUFFER_SIZE (world s)))) [] s'"
| writes: "link_at s c x a l \<Longrightarrow> view s c x = Open k \<Longrightarrow> ConnectionLink_writable os a s = Inr s' \<Longrightarrow>
    link_event os c x s [] (write_bytes os l (world s)) s'"
| breaks: "link_at s c x a l \<Longrightarrow> view s c x = Open k \<Longrightarrow> TunnelConnection_closeLink os c a s = Inr s' \<Longrightarrow>
    link_event os c x s [] [] s'"

text \<open>What the event means for the end: nothing, data that goes out, or the closing message.\<close>

fun end_event :: "bool \<Rightarrow> bytes \<Rightarrow> endpoint \<Rightarrow> endpoint \<Rightarrow> msg list \<Rightarrow> bool" where
  "end_event ack i (Open k) (Open k') out =
     (i = [] \<and> out = [] \<and> k' = k \<or> i \<noteq> [] \<and> k \<and> k' = (\<not> ack) \<and> out = [MData ack i])"
| "end_event ack i (Open k) Closing out = (i = [] \<and> out = [MClose])"
| "end_event ack i e e' out = False"

lemma side_one_link:
  assumes "side kind i ack c x s" "link_at s c x a l" "view s c x = Open k"
  obtains t where "one_link s c a t l x" "m_kind t = kind" "tc_id t = i" "has_flag ACK_PACKETS (m_spec t) = ack"
    "\<not> m_closing l" "m_acknowledged l = k" "held s c x = sb_content (m_buffer l)"
proof -
  obtain t where t: "m_connections s c = Some t" "m_kind t = kind" "tc_id t = i" "has_flag ACK_PACKETS (m_spec t) = ack"
      "m_link_map t x = Some a" "m_links s a = Some l"
    using assms(1,2) by (auto simp: side_def link_at_def)
  note v = view_Some [OF t(1,5,6)]
  have "\<not> m_closing l" "m_acknowledged l = k"
    using v(1) assms(3) by (auto split: if_splits)
  moreover have "one_link s c a t l x"
    using assms(1,3) t v(3) by (simp add: one_link_def side_def)
  ultimately show ?thesis
    using that t v(2) by blast
qed

lemma moves_side:
  assumes "side kind i ack c x s" "moves s c x i (e, out) s'" "conn_rel s s'" "tun_rel s s'"
  shows "side kind i ack c x s'" "view s' c x = e" "outgoing s' = outgoing s @ frames_of i x out" "held s' c x = held s c x"
    "tunnel.more s' = tunnel.more s"
proof -
  have m: "unsent_message s' = []" "incoming s' = []" "link_ok s' c x"
    using assms(1,2) by (simp_all add: moves_def sent_def side_def)
  show "side kind i ack c x s'"
    by (rule side_keeps [OF assms(1) keeps_rel [OF assms(3,4)] m])
  show "view s' c x = e" "outgoing s' = outgoing s @ frames_of i x out" "held s' c x = held s c x"
    using assms(2) by (auto simp: moves_def sent_def)
  show "tunnel.more s' = tunnel.more s"
    using assms(4) by (simp add: tun_rel_def)
qed

lemma close_event:
  assumes "side kind i ack c x s" "link_at s c x a l" "view s c x = Open k" "TunnelConnection_closeLink os c a s = Inr s'"
  shows "side kind i ack c x s' \<and> end_event ack [] (view s c x) (view s' c x) [MClose] \<and>
    outgoing s' = outgoing s @ frames_of i x [MClose] \<and> held s c x = held s' c x \<and> tunnel.more s' = tunnel.more s"
proof -
  obtain t where t: "one_link s c a t l x" "tc_id t = i" "\<not> m_closing l"
    using side_one_link [OF assms(1-3)] by metis
  have m: "moves s c x i (Closing, [MClose]) s'"
    using close_moves [OF t(1,3), of os] assms(4) t(2) by auto
  have "conn_rel s s'" "tun_rel s s'"
    using closeLink_conn [of s os c a] closeLink_ok [of s os c a] by (simp_all add: assms(4))
  from moves_side [OF assms(1) m this] show ?thesis
    using assms(3) by simp
qed

lemma read_event:
  assumes "side kind i ack c x s" "link_at s c x a l" "view s c x = Open True" "ConnectionLink_readable os a s = Inr (b, s')"
    "fst (sys_read os (m_socket l) TunnelConnection_BUFFER_SIZE (world s)) = r"
  shows "\<exists>out. side kind i ack c x s' \<and> end_event ack (read_bytes r) (view s c x) (view s' c x) out \<and>
    outgoing s' = outgoing s @ frames_of i x out \<and> held s c x = held s' c x \<and> tunnel.more s' = tunnel.more s"
proof -
  obtain t where t: "one_link s c a t l x" "tc_id t = i" "\<not> m_closing l" "m_acknowledged l" "has_flag ACK_PACKETS (m_spec t) = ack"
    using side_one_link [OF assms(1-3)] by metis
  obtain e out where eo: "link_read r ack = (e, out)"
    by fastforce
  have m: "moves s c x i (e, out) s'"
    using read_moves [OF t(1,3) one_home(1) [OF t(1)] t(4) assms(5)] assms(4) t(2,5) eo by auto
  have "conn_rel s s'" "tun_rel s s'"
    using readable_conn [of s os a] readable_ok [of s os a] by (simp_all add: assms(4))
  note h = moves_side [OF assms(1) m this]
  moreover have "end_event ack (read_bytes r) (Open True) e out"
    using eo by (cases "(r, ack)" rule: link_read.cases) auto
  ultimately show ?thesis
    using assms(3) by auto
qed

lemma poller_map_world: "poller_map (s\<lparr>world := w\<rparr>) = poller_map s" for s :: "('w, 'a) tunnel_scheme"
  by (simp add: poller_map_def fun_eq_iff)

lemma write_event:
  assumes "bounded_io os" "side kind i ack c x s" "link_at s c x a l" "view s c x = Open k" "ConnectionLink_writable os a s = Inr s'"
  shows "side kind i ack c x s' \<and> view s' c x = view s c x \<and> outgoing s' = outgoing s \<and>
    held s c x = write_bytes os l (world s) @ held s' c x \<and> tunnel.more s' = tunnel.more s"
proof -
  obtain t where t: "one_link s c a t l x" "\<not> m_closing l" "m_acknowledged l = k" "held s c x = sb_content (m_buffer l)"
    using side_one_link [OF assms(2-4)] by metis
  note one = one_linkD [OF t(1)]
  let ?r = "SockBuffer_refill (m_buffer l)"
  obtain n b w where w: "SockBuffer_writeData os (m_socket l) (m_buffer l) (world s) = Inr (n, b, w)"
    using assms(5) one(3) by (auto simp: ConnectionLink_writable_def deref_link_def exn_simps)
  then have wr: "sys_write os (m_socket l) (m_output_buf ?r) (world s) = (Inr n, w)"
      and b: "b = ?r\<lparr>m_output_position := m_output_position ?r + n, m_output_buf := drop n (m_output_buf ?r)\<rparr>"
    by (simp_all add: writeData_eq)
  have n: "n \<le> length (m_output_buf ?r)"
    by (rule bounded_write [OF assms(1) wr])
  have r: "sb_inv ?r" "sb_content ?r = sb_content (m_buffer l)"
    by (rule refill_props(2,1) [OF one(9)])+
  have inv: "sb_inv b"
    using r(1) n by (auto simp: b sb_inv_def)
  have content: "sb_content (m_buffer l) = take n (m_output_buf ?r) @ sb_content b"
    unfolding r(2) [symmetric] by (simp add: b sb_content_def flip: append_assoc)
  let ?l = "l\<lparr>m_buffer := b\<rparr>"
  let ?u = "put_link a ?l (s\<lparr>world := w\<rparr>)"
  have s': "s' = (if \<not> SockBuffer_unsentData b then Poller_setEvents (P_Link a) (m_socket l) (if m_acknowledged l then POLLIN else 0) ?u else ?u)"
    using assms(5) one(3) w by (auto simp: ConnectionLink_writable_def deref_link_def Let_def)
  have same: "m_connections s' = m_connections s" "m_links s' a = Some ?l" "unsent_message s' = unsent_message s"
      "outgoing s' = outgoing s" "incoming s' = incoming s"
    unfolding s' by (simp_all add: outgoing_def unsent_message_def incoming_def put_link_def)
  have reg: "\<forall>k. poller_map s' k = None \<longleftrightarrow> poller_map s k = None"
    unfolding s' by (simp add: poller_map_world)
  note after = after_link [OF t(1) same(1,2)]
  have v: "view s' c x = Open k" "held s' c x = sb_content b" "link_ok s' c x"
    using after one(4,8) inv t(2,3) reg by simp_all
  have "conn_rel s s'" "tun_rel s s'"
    using writable_conn [of s os a] writable_ok [of s os a] by (simp_all add: assms(5))
  then have "side kind i ack c x s'" "tunnel.more s' = tunnel.more s"
    using side_keeps [OF assms(2) keeps_rel] v(3) same(3,5) assms(2) by (simp_all add: side_def tun_rel_def)
  then show ?thesis
    using v assms(4) same(4) t(4) content wr by (simp add: write_bytes_def Let_def)
qed

text \<open>All three.\<close>

lemma link_event_moves:
  assumes "link_event os c x s i w s'" "bounded_io os" "side kind n ack c x s"
  shows "\<exists>out. side kind n ack c x s' \<and> end_event ack i (view s c x) (view s' c x) out \<and>
    outgoing s' = outgoing s @ frames_of n x out \<and> held s c x = w @ held s' c x \<and> tunnel.more s' = tunnel.more s"
  using assms(1)
proof cases
  case (reads a l b)
  then show ?thesis
    using read_event [OF assms(3) reads(3-5) refl] by auto
next
  case (writes a l k)
  then show ?thesis
    using write_event [OF assms(2,3) writes(3-5)] by (intro exI [of _ "[]"]) simp
next
  case (breaks a l k)
  then show ?thesis
    using close_event [OF assms(3) breaks(3-5)] by (intro exI [of _ "[MClose]"]) simp
qed

lemma fits_event:
  assumes "link_event os c x s i w s'" "bounded_io os"
  shows "length i \<le> TunnelConnection_BUFFER_SIZE"
  using assms(1)
proof cases
  case (reads a l b)
  then show ?thesis
    using bounded_read [OF assms(2), of "m_socket l" TunnelConnection_BUFFER_SIZE "world s"]
    by (cases "fst (sys_read os (m_socket l) TunnelConnection_BUFFER_SIZE (world s))";
        cases "sys_read os (m_socket l) TunnelConnection_BUFFER_SIZE (world s)") auto
qed simp_all

section \<open>Quiet steps\<close>

text \<open>
  Whatever else a process does: it may write bytes of waiting packets to the other, which is all that
  changes for the link. The writer of packets is such a step (below).
\<close>

definition drains :: "bytes \<Rightarrow> ('w, 'a) tunnel_scheme \<Rightarrow> ('w, 'a) tunnel_scheme \<Rightarrow> bool" where
  "drains d s s' \<longleftrightarrow> m_links s' = m_links s \<and> m_connections s' = m_connections s \<and> m_connection_map s' = m_connection_map s \<and>
     m_writer_attached s' = m_writer_attached s \<and> incoming s' = incoming s \<and> unsent_message s' = unsent_message s \<and>
     m_next_obj s' = m_next_obj s \<and> tunnel.more s' = tunnel.more s \<and> outgoing s = d @ outgoing s' \<and> (\<forall>k. poller_map s' k = None \<longleftrightarrow> poller_map s k = None)"

lemma drains_side:
  assumes "drains d s s'" "side kind i ack c x s"
  shows "side kind i ack c x s'" "view s' c x = view s c x" "held s' c x = held s c x" "tunnel.more s' = tunnel.more s"
    "outgoing s = d @ outgoing s'"
proof -
  have "m_links s' = m_links s" "m_connections s' = m_connections s" "\<forall>k. poller_map s' k = None \<longleftrightarrow> poller_map s k = None"
    using assms(1) by (simp_all add: drains_def)
  note v = same_view [OF this]
  show "view s' c x = view s c x" "held s' c x = held s c x" "tunnel.more s' = tunnel.more s" "outgoing s = d @ outgoing s'"
    using v assms(1) by (simp_all add: drains_def)
  show "side kind i ack c x s'"
    using v(3) [of c x] assms by (simp add: side_def drains_def)
qed

lemma empty_extends:
  assumes "posix_write os (fd ps) out" "WriteStream_empty os ps ws w = Inr (ps', ws', w')"
  shows "\<exists>d. out w' = out w @ d"
proof -
  have "\<exists>d. out v' = out v @ d" if "sys_write os (fd ps) bs v = (Inr k, v')" for bs v k v'
    using posix_write_Inr(2) [OF assms(1) that] by blast
  then show ?thesis
    using assms(2)
    by (auto simp: WriteStream_empty_def WritePacket_sendPacket_def exn_simps Let_def split: if_splits prod.splits sum.splits list.splits)
qed

text \<open>\<open>getWriter().empty(...)\<close> is one.\<close>

lemma empty_writer_drains:
  assumes "empty_writer os pa ps s = Inr s'" "posix_write os (fd ps) out" "ws_inv (m_write_stream s)"
  shows "\<exists>d. drains d s s' \<and> out (world s') = out (world s) @ d"
proof -
  obtain ps' ws w where e: "WriteStream_empty os ps (m_write_stream s) (world s) = Inr (ps', ws, w)"
    using assms(1) by (auto simp: empty_writer_def exn_simps)
  let ?u = "s\<lparr>m_write_stream := ws, world := w\<rparr>"
  have s': "s' = Poller_storeEvents pa (events ps') ?u"
    using assms(1) e by (simp add: empty_writer_def)
  have moves: "out w @ ws_pending ws = out (world s) @ ws_pending (m_write_stream s)" "ws_queue ws = ws_queue (m_write_stream s)"
    using WriteStream_empty_moves [OF assms(2,3) e] by simp_all
  obtain d where d: "out w = out (world s) @ d" "ws_pending (m_write_stream s) = d @ ws_pending ws"
    using empty_extends [OF assms(2) e] moves(1) by auto
  have "keys s' = keys s"
    unfolding s' storeEvents_keys by (simp add: keys_def)
  then have "poller_map s' k = None \<longleftrightarrow> poller_map s k = None" for k
    by (simp add: poller_map_None)
  then show ?thesis
    using d moves(2) by (intro exI [of _ d])
      (simp add: s' drains_def outgoing_def unsent_message_def incoming_def Poller_storeEvents_def)
qed

end
