(* ===== verification/Tunnel_Pair.thy ===== *)
theory Tunnel_Pair
  imports Link_System
begin

text \<open>
  Two connected processes as one system, with the bytes between them, and the properties of a link that
  the protocol gives them: what comes out of a socket at one end is what went into the socket at the other.
\<close>

section \<open>Bytes and messages\<close>

text \<open>
  The bytes on their way to the local side carry the messages of the link and reports of failed attempts.
\<close>

inductive carries :: "c_int \<Rightarrow> short \<Rightarrow> bytes \<Rightarrow> msg list \<Rightarrow> bool" for i x where
  nothing: "carries i x [] []"
| message: "carries i x bs ms \<Longrightarrow> carries i x (frame (enc_msg i x m) @ bs) (m # ms)"
| report: "carries i x bs ms \<Longrightarrow> length e < 2 ^ 31 + 100 \<Longrightarrow> carries i x (frame (error_message e) @ bs) ms"

lemma carries_append: "carries i x bs ms \<Longrightarrow> carries i x cs ns \<Longrightarrow> carries i x (bs @ cs) (ms @ ns)"
  by (induction rule: carries.induct) (auto intro: carries.intros)

lemma carries_frames: "carries i x (frames_of i x ms) ms"
  by (induction ms) (auto intro: carries.intros)

lemma enc_msg_short: "fits m \<Longrightarrow> length (enc_msg i x m) < 2 ^ 32"
  by (cases m) (simp_all add: enc_msg_def enc_header_def enc_int_def enc_short_def TunnelConnection_BUFFER_SIZE_def)

lemma error_message_short: "length e < 2 ^ 31 + 100 \<Longrightarrow> length (error_message e) < 2 ^ 32"
  by (simp add: error_message_def enc_int_def enc_short_def enc_string_def length_enc)

lemma frames_of_append [simp]: "frames_of i x (ms @ ns) = frames_of i x ms @ frames_of i x ns"
  by (simp add: frames_of_def)

lemma frame_not_Nil [simp]: "frame bs \<noteq> []"
  by (metis length_frame add_is_0 list.size(3) zero_neq_numeral)

text \<open>A whole packet at the front is the first message.\<close>

lemma frames_of_split:
  assumes "frame bs @ rest = frames_of i x ms" "length bs < 2 ^ 32" "list_all fits ms"
  shows "\<exists>m ms'. ms = m # ms' \<and> bs = enc_msg i x m \<and> rest = frames_of i x ms'"
proof (cases ms)
  case (Cons m ms')
  then show ?thesis
    using assms frame_inj [OF assms(2) enc_msg_short [of m i x], of rest "frames_of i x ms'"] by auto
qed (use assms(1) in simp)

lemma carries_split:
  assumes "carries i x cs ms" "cs = frame bs @ rest" "length bs < 2 ^ 32" "list_all fits ms"
  shows "(\<exists>m ms'. ms = m # ms' \<and> bs = enc_msg i x m \<and> carries i x rest ms') \<or>
    (\<exists>e. length e < 2 ^ 31 + 100 \<and> bs = error_message e \<and> carries i x rest ms)"
  using assms(1)
proof cases
  case nothing
  then show ?thesis using assms(2) by simp
next
  case (message bs' ms' m)
  then show ?thesis
    using assms frame_inj [OF assms(3) enc_msg_short [of m i x], of rest bs'] by auto
next
  case (report bs' e)
  then show ?thesis
    using assms frame_inj [OF assms(3) error_message_short [of e], of rest bs'] by auto
qed

lemma recv_fits:
  "listen_recv m e = Some (e', out, d) \<Longrightarrow> list_all fits out"
  "connect_recv ok m e = (e', out, d) \<Longrightarrow> list_all fits out"
proof -
  have *: "list_all fits out" if "link_recv m e = (e', out, d)" for e' out d
    using that by (cases "(m, e)" rule: link_recv.cases) (auto split: if_splits)
  show "listen_recv m e = Some (e', out, d) \<Longrightarrow> list_all fits out"
    by (cases "(m, e)" rule: listen_recv.cases) (auto dest: *)
  show "connect_recv ok m e = (e', out, d) \<Longrightarrow> list_all fits out"
    by (cases "m = MCreate") (auto simp: connect_recv_link dest: * split: if_splits)
qed

text \<open>A report is printed, and nothing else.\<close>

lemma local_report:
  assumes "length e < 2 ^ 31 + 100"
  shows "StdioTunnelLocal_message os (with_incoming (error_message e) s) = Inr (on_world (sys_cerr os e) (with_incoming [] s))"
proof -
  have "reading ReadStream_readString (with_incoming (enc_string e) s) = Inr (e, with_incoming [] s)"
    using readString_enc [of e "(m_read_stream s)\<lparr>rs_queue := enc_string e\<rparr>" "[]"] assms
    by (simp add: reading_def with_incoming_def)
  then show ?thesis
    by (simp add: StdioTunnelLocal_message_def error_message_def get_int_enc StdioTunnelLocal_reportError_def)
qed

section \<open>The system\<close>

text \<open>
  The two processes, the bytes on their way from one to the other, and for each end of the link what has
  been read from its socket and what has been written to it.
\<close>

record ('v, 'w) tunnel_pair =
  lt :: "'v local_tunnel"
  rt :: "'w remote_tunnel"
  lr :: bytes
  rl :: bytes
  l_in :: bytes
  l_out :: bytes
  r_in :: bytes
  r_out :: bytes

inductive pair_step ::
  "('v, 'o) proc_posix_scheme \<Rightarrow> ('w, 'u) proc_posix_scheme \<Rightarrow> nat \<Rightarrow> nat \<Rightarrow> short \<Rightarrow>
     ('v, 'w) tunnel_pair \<Rightarrow> ('v, 'w) tunnel_pair \<Rightarrow> bool" for osl osr ca cb x where
  l_quiet: "drains d (lt p) s \<Longrightarrow> pair_step osl osr ca cb x p (p\<lparr>lt := s, lr := lr p @ d\<rparr>)"
| r_quiet: "drains d (rt p) s \<Longrightarrow> pair_step osl osr ca cb x p (p\<lparr>rt := s, rl := rl p @ d\<rparr>)"
| l_event: "link_event osl ca x (lt p) i w s \<Longrightarrow>
    pair_step osl osr ca cb x p (p\<lparr>lt := s, l_in := l_in p @ i, l_out := l_out p @ w\<rparr>)"
| r_event: "link_event osr cb x (rt p) i w s \<Longrightarrow>
    pair_step osl osr ca cb x p (p\<lparr>rt := s, r_in := r_in p @ i, r_out := r_out p @ w\<rparr>)"
| l_message: "rl p = frame bs @ rest \<Longrightarrow> length bs < 2 ^ 32 \<Longrightarrow> StdioTunnelLocal_message osl (with_incoming bs (lt p)) = Inr s \<Longrightarrow>
    pair_step osl osr ca cb x p (p\<lparr>lt := s, rl := rest\<rparr>)"
| r_message: "lr p = frame bs @ rest \<Longrightarrow> length bs < 2 ^ 32 \<Longrightarrow> StdioTunnelRemote_message osr (with_incoming bs (rt p)) = Inr s \<Longrightarrow>
    pair_step osl osr ca cb x p (p\<lparr>rt := s, lr := rest\<rparr>)"

section \<open>The simulation\<close>

text \<open>What an end has taken has been written to its socket, or is held for it.\<close>

definition took :: "bytes \<Rightarrow> bytes \<Rightarrow> endpoint \<Rightarrow> bytes \<Rightarrow> bool" where
  "took got w e h \<longleftrightarrow> (\<exists>q. got = w @ q \<and> (e \<noteq> Gone \<longrightarrow> q = h))"

definition pair_sim :: "c_int \<Rightarrow> bool \<Rightarrow> nat \<Rightarrow> nat \<Rightarrow> short \<Rightarrow> link_sys \<Rightarrow> ('v, 'w) tunnel_pair \<Rightarrow> bool" where
  "pair_sim i ack ca cb x s p \<longleftrightarrow>
     side ListenSide i ack ca x (lt p) \<and> side ConnectSide i ack cb x (rt p) \<and> r_state (rt p) = R_CONNECTED \<and>
     le s = view (lt p) ca x \<and> ce s = view (rt p) cb x \<and>
     lr p @ outgoing (lt p) = frames_of i x (lc s) \<and> carries i x (rl p @ outgoing (rt p)) (cl s) \<and>
     list_all fits (lc s) \<and> list_all fits (cl s) \<and> l_sent s = l_in p \<and> c_sent s = r_in p \<and>
     took (l_got s) (l_out p) (view (lt p) ca x) (held (lt p) ca x) \<and>
     took (c_got s) (r_out p) (view (rt p) cb x) (held (rt p) cb x)"

lemma took_event: "took got w e h \<Longrightarrow> h = v @ h' \<Longrightarrow> e \<noteq> Gone \<Longrightarrow> took got (w @ v) e' h'"
  by (auto simp: took_def)

lemma took_message: "took got w e h \<Longrightarrow> e \<noteq> Gone \<Longrightarrow> (e' \<noteq> Gone \<Longrightarrow> h' = h @ d) \<Longrightarrow> took (got @ d) w e' h'"
  by (auto simp: took_def)

lemma sim_took:
  assumes "pair_sim i ack ca cb x s p"
  shows "took (l_got s) (l_out p) (le s) (held (lt p) ca x)" "took (c_got s) (r_out p) (ce s) (held (rt p) cb x)"
  using assms by (simp_all add: pair_sim_def)

text \<open>The abstract step of an event.\<close>

lemma listen_event:
  assumes "end_event ack i (le s) e out"
  shows "\<exists>t. (t = s \<or> link_step ack s t) \<and> le t = e \<and> ce t = ce s \<and> lc t = lc s @ out \<and> cl t = cl s \<and>
    l_sent t = l_sent s @ i \<and> c_sent t = c_sent s \<and> l_got t = l_got s \<and> c_got t = c_got s"
proof -
  consider k where "le s = Open k" "e = Open k" "i = []" "out = []"
    | "le s = Open True" "e = Open (\<not> ack)" "out = [MData ack i]"
    | k where "le s = Open k" "e = Closing" "i = []" "out = [MClose]"
    using assms by (cases "(ack, i, le s, e, out)" rule: end_event.cases) auto
  then show ?thesis
  proof cases
    case 1
    then show ?thesis by (intro exI [of _ s]) simp
  next
    case 2
    from link_step.listen_reads [OF 2(1), of ack i] show ?thesis
      by (intro exI [of _ "s\<lparr>le := Open (\<not> ack), lc := lc s @ [MData ack i], l_sent := l_sent s @ i\<rparr>"]) (simp add: 2)
  next
    case 3
    from link_step.listen_closes [OF 3(1), of ack] show ?thesis
      by (intro exI [of _ "s\<lparr>le := Closing, lc := lc s @ [MClose]\<rparr>"]) (simp add: 3)
  qed
qed

lemma connect_event:
  assumes "end_event ack i (ce s) e out"
  shows "\<exists>t. (t = s \<or> link_step ack s t) \<and> le t = le s \<and> ce t = e \<and> lc t = lc s \<and> cl t = cl s @ out \<and>
    l_sent t = l_sent s \<and> c_sent t = c_sent s @ i \<and> l_got t = l_got s \<and> c_got t = c_got s"
proof -
  consider k where "ce s = Open k" "e = Open k" "i = []" "out = []"
    | "ce s = Open True" "e = Open (\<not> ack)" "out = [MData ack i]"
    | k where "ce s = Open k" "e = Closing" "i = []" "out = [MClose]"
    using assms by (cases "(ack, i, ce s, e, out)" rule: end_event.cases) auto
  then show ?thesis
  proof cases
    case 1
    then show ?thesis by (intro exI [of _ s]) simp
  next
    case 2
    from link_step.connect_reads [OF 2(1), of ack i] show ?thesis
      by (intro exI [of _ "s\<lparr>ce := Open (\<not> ack), cl := cl s @ [MData ack i], c_sent := c_sent s @ i\<rparr>"]) (simp add: 2)
  next
    case 3
    from link_step.connect_closes [OF 3(1), of ack] show ?thesis
      by (intro exI [of _ "s\<lparr>ce := Closing, cl := cl s @ [MClose]\<rparr>"]) (simp add: 3)
  qed
qed

lemma end_event_out:
  assumes "end_event ack i e e' out" "length i \<le> TunnelConnection_BUFFER_SIZE"
  shows "list_all fits out" "e \<noteq> Gone"
  using assms by (cases "(ack, i, e, e', out)" rule: end_event.cases; auto)+

lemma sim_l_event:
  assumes "link_event osl ca x (lt p) i w u" "bounded_io osl" "pair_sim n ack ca cb x s p"
  shows "\<exists>t. (t = s \<or> link_step ack s t) \<and> pair_sim n ack ca cb x t (p\<lparr>lt := u, l_in := l_in p @ i, l_out := l_out p @ w\<rparr>)"
proof -
  have side: "side ListenSide n ack ca x (lt p)" and le: "le s = view (lt p) ca x"
    using assms(3) by (simp_all add: pair_sim_def)
  obtain out where u: "side ListenSide n ack ca x u" "end_event ack i (le s) (view u ca x) out"
      "outgoing u = outgoing (lt p) @ frames_of n x out" "held (lt p) ca x = w @ held u ca x"
    using link_event_moves [OF assms(1,2) side] le by auto
  note out = end_event_out [OF u(2) fits_event [OF assms(1,2)]]
  obtain t where t: "t = s \<or> link_step ack s t" "le t = view u ca x" "ce t = ce s" "lc t = lc s @ out" "cl t = cl s"
      "l_sent t = l_sent s @ i" "c_sent t = c_sent s" "l_got t = l_got s" "c_got t = c_got s"
    using listen_event [OF u(2)] by blast
  note took_event [OF sim_took(1) [OF assms(3)] u(4) out(2), of "view u ca x"]
  then have "pair_sim n ack ca cb x t (p\<lparr>lt := u, l_in := l_in p @ i, l_out := l_out p @ w\<rparr>)"
    using assms(3) t(2-9) u(1,3) out(1) by (simp add: pair_sim_def flip: append_assoc)
  with t(1) show ?thesis by blast
qed

lemma sim_r_event:
  assumes "link_event osr cb x (rt p) i w u" "bounded_io osr" "pair_sim n ack ca cb x s p"
  shows "\<exists>t. (t = s \<or> link_step ack s t) \<and> pair_sim n ack ca cb x t (p\<lparr>rt := u, r_in := r_in p @ i, r_out := r_out p @ w\<rparr>)"
proof -
  have side: "side ConnectSide n ack cb x (rt p)" and ce: "ce s = view (rt p) cb x"
    using assms(3) by (simp_all add: pair_sim_def)
  obtain out where u: "side ConnectSide n ack cb x u" "end_event ack i (ce s) (view u cb x) out"
      "outgoing u = outgoing (rt p) @ frames_of n x out" "held (rt p) cb x = w @ held u cb x" "r_state u = r_state (rt p)"
    using link_event_moves [OF assms(1,2) side] ce same_r_state by fastforce
  note out = end_event_out [OF u(2) fits_event [OF assms(1,2)]]
  obtain t where t: "t = s \<or> link_step ack s t" "le t = le s" "ce t = view u cb x" "lc t = lc s" "cl t = cl s @ out"
      "l_sent t = l_sent s" "c_sent t = c_sent s @ i" "l_got t = l_got s" "c_got t = c_got s"
    using connect_event [OF u(2)] by blast
  note took_event [OF sim_took(2) [OF assms(3)] u(4) out(2), of "view u cb x"]
  moreover have "carries n x ((rl p @ outgoing (rt p)) @ frames_of n x out) (cl s @ out)"
    using assms(3) by (intro carries_append carries_frames) (simp add: pair_sim_def)
  ultimately have "pair_sim n ack ca cb x t (p\<lparr>rt := u, r_in := r_in p @ i, r_out := r_out p @ w\<rparr>)"
    using assms(3) t(2-9) u(1,3,5) out(1) by (simp add: pair_sim_def)
  with t(1) show ?thesis by blast
qed

text \<open>A message for the local side: what arrives is a message it expects, or a report, and it does not throw.\<close>

lemma sim_l_message:
  assumes "rl p = frame bs @ rest" "length bs < 2 ^ 32" "pair_sim n ack ca cb x s p" "shape s"
  shows "\<exists>u t. StdioTunnelLocal_message osl (with_incoming bs (lt p)) = Inr u \<and> (t = s \<or> link_step ack s t) \<and>
    pair_sim n ack ca cb x t (p\<lparr>lt := u, rl := rest\<rparr>)"
proof -
  have side: "side ListenSide n ack ca x (lt p)" and le: "le s = view (lt p) ca x"
    and chan: "carries n x (frame bs @ rest @ outgoing (rt p)) (cl s)" and fit: "list_all fits (cl s)"
    using assms(1,3) by (simp_all add: pair_sim_def)
  from carries_split [OF chan refl assms(2) fit] show ?thesis
  proof (elim disjE exE conjE)
    fix m ms
    assume m: "cl s = m # ms" "bs = enc_msg n x m" "carries n x (rest @ outgoing (rt p)) ms"
    then have "listen_expects m (view (lt p) ca x)" "fits m"
      using shape_expects [OF assms(4)] le fit by simp_all
    then obtain u out d where u: "StdioTunnelLocal_message osl (with_incoming bs (lt p)) = Inr u"
        "listen_recv m (le s) = Some (view u ca x, out, d)" "outgoing u = outgoing (lt p) @ frames_of n x out"
        "view u ca x \<noteq> Gone \<longrightarrow> held u ca x = held (lt p) ca x @ d" "side ListenSide n ack ca x u"
      using local_message_moves [OF side, of m osl] m(2) le by fastforce
    let ?t = "s\<lparr>le := view u ca x, cl := ms, lc := lc s @ out, l_got := l_got s @ d\<rparr>"
    have "link_step ack s ?t"
      by (rule link_step.deliver [OF link_deliver.to_listen [OF m(1) u(2)]])
    moreover have "le s \<noteq> Gone"
      using u(2) by (cases "le s") auto
    then have "took (l_got s @ d) (l_out p) (view u ca x) (held u ca x)"
      using took_message [OF sim_took(1) [OF assms(3)]] u(4) by blast
    then have "pair_sim n ack ca cb x ?t (p\<lparr>lt := u, rl := rest\<rparr>)"
      using assms(3) u(3,5) m(1,3) recv_fits(1) [OF u(2)] by (simp add: pair_sim_def flip: append_assoc)
    ultimately show ?thesis
      using u(1) by blast
  next
    fix e
    assume e: "length e < 2 ^ 31 + 100" "bs = error_message e" "carries n x (rest @ outgoing (rt p)) (cl s)"
    let ?u = "on_world (sys_cerr osl e) (with_incoming [] (lt p))"
    have same: "m_links ?u = m_links (lt p)" "m_connections ?u = m_connections (lt p)" "outgoing ?u = outgoing (lt p)"
        "\<forall>k. poller_map ?u k = None \<longleftrightarrow> poller_map (lt p) k = None"
      by simp_all
    note v = same_view [OF same(1,2,4)]
    have "keeps (lt p) ?u" "unsent_message ?u = unsent_message (lt p)" "incoming ?u = []"
      by (simp_all add: keeps_def conn_rel_def same_kind_def on_world_def with_incoming_def unsent_message_def incoming_def)
    then have "side ListenSide n ack ca x ?u"
      using side_keeps [OF side, of ?u] side v(3) by (simp add: side_def)
    then have "pair_sim n ack ca cb x s (p\<lparr>lt := ?u, rl := rest\<rparr>)"
      using assms(3) e(3) v(1,2) same(3) by (simp add: pair_sim_def)
    then show ?thesis
      using local_report [OF e(1), of osl "lt p"] e(2) by blast
  qed
qed

lemma sim_r_message:
  assumes "lr p = frame bs @ rest" "length bs < 2 ^ 32" "pair_sim n ack ca cb x s p" "shape s" "flowing s"
  shows "\<exists>u t. StdioTunnelRemote_message osr (with_incoming bs (rt p)) = Inr u \<and> (t = s \<or> link_step ack s t) \<and>
    pair_sim n ack ca cb x t (p\<lparr>rt := u, lr := rest\<rparr>)"
proof -
  have side: "side ConnectSide n ack cb x (rt p)" "r_state (rt p) = R_CONNECTED" and ce: "ce s = view (rt p) cb x"
    and chan: "frame bs @ rest @ outgoing (lt p) = frames_of n x (lc s)" and fit: "list_all fits (lc s)"
    using assms(1,3) by (simp_all add: pair_sim_def)
  obtain m ms where m: "lc s = m # ms" "bs = enc_msg n x m" "rest @ outgoing (lt p) = frames_of n x ms"
    using frames_of_split [OF chan assms(2) fit] by blast
  then have ex: "connect_expects m (view (rt p) cb x)" "fits m"
    using shape_expects [OF assms(4)] ce fit by simp_all
  obtain u ok out d err where u: "StdioTunnelRemote_message osr (with_incoming bs (rt p)) = Inr u"
      "connect_recv ok m (ce s) = (view u cb x, out, d)" "outgoing u = outgoing (rt p) @ err @ frames_of n x out"
      "err = [] \<or> (\<exists>e. length e < 2 ^ 31 + 100 \<and> err = frame (error_message e))"
      "view u cb x \<noteq> Gone \<longrightarrow> held u cb x = held (rt p) cb x @ d" "side ConnectSide n ack cb x u" "r_state u = R_CONNECTED"
    using remote_message_moves [OF side ex(2), of osr] ex(1) m(2) ce by fastforce
  let ?t = "s\<lparr>ce := view u cb x, lc := ms, cl := cl s @ out, c_got := c_got s @ d\<rparr>"
  have "link_step ack s ?t"
    by (rule link_step.deliver [OF link_deliver.to_connect [OF m(1) u(2)]])
  moreover note took = sim_took(2) [OF assms(3)]
  have "took (c_got s @ d) (r_out p) (view u cb x) (held u cb x)"
  proof (cases "ce s = Gone")
    case True
    then have "m = MCreate" "held (rt p) cb x = []"
      using ex(1) ce side(1) Gone_unlinked(2) by (auto simp: side_def)
    moreover from this have "c_got s = []" "d = []"
      using assms(4,5) m(1) True u(2) by (auto simp: shape_def established_def half_def flowing_def split: if_splits)
    ultimately show ?thesis
      using took u(5) by (auto simp: took_def)
  next
    case False
    then show ?thesis
      using took_message [OF took False] u(5) by blast
  qed
  moreover have "carries n x (err @ frames_of n x out) out"
    using u(4) carries_frames carries.report by auto
  then have "carries n x ((rl p @ outgoing (rt p)) @ err @ frames_of n x out) (cl s @ out)"
    using assms(3) by (intro carries_append) (simp_all add: pair_sim_def)
  ultimately have "pair_sim n ack ca cb x ?t (p\<lparr>rt := u, lr := rest\<rparr>)"
    using assms(3) u(3,6,7) m(1,3) recv_fits(2) [OF u(2)] by (simp add: pair_sim_def)
  with \<open>link_step ack s ?t\<close> u(1) show ?thesis by blast
qed

text \<open>Every step of the pair is a step of the protocol, or none.\<close>

lemma sim_step:
  assumes "pair_step osl osr ca cb x p q" "bounded_io osl" "bounded_io osr" "pair_sim n ack ca cb x s p" "shape s" "flowing s"
  shows "\<exists>t. (t = s \<or> link_step ack s t) \<and> pair_sim n ack ca cb x t q"
  using assms(1)
proof cases
  case (l_quiet d u)
  have "side ListenSide n ack ca x (lt p)"
    using assms(4) by (simp add: pair_sim_def)
  note drained = drains_side [OF l_quiet(2) this]
  have "pair_sim n ack ca cb x s q"
    using assms(4) drained by (simp add: pair_sim_def l_quiet(1))
  then show ?thesis by blast
next
  case (r_quiet d u)
  have "r_state u = r_state (rt p)"
    using r_quiet(2) by (intro same_r_state) (simp add: drains_def)
  moreover have "side ConnectSide n ack cb x (rt p)"
    using assms(4) by (simp add: pair_sim_def)
  note drained = drains_side [OF r_quiet(2) this]
  ultimately have "pair_sim n ack ca cb x s q"
    using assms(4) drained by (simp add: pair_sim_def r_quiet(1))
  then show ?thesis by blast
next
  case (l_event i w u)
  then show ?thesis
    using sim_l_event [OF l_event(2) assms(2,4)] by simp
next
  case (r_event i w u)
  then show ?thesis
    using sim_r_event [OF r_event(2) assms(3,4)] by simp
next
  case (l_message bs rest u)
  then show ?thesis
    using sim_l_message [OF l_message(2,3) assms(4,5), of osl] by auto
next
  case (r_message bs rest u)
  then show ?thesis
    using sim_r_message [OF r_message(2,3) assms(4,5,6), of osr] by auto
qed

section \<open>What comes out\<close>

text \<open>
  A client has been accepted at the listening end and the request to connect is on its way; nothing has
  been read or written for this link yet.
\<close>

definition link_requested :: "c_int \<Rightarrow> bool \<Rightarrow> nat \<Rightarrow> nat \<Rightarrow> short \<Rightarrow> ('v, 'w) tunnel_pair \<Rightarrow> bool" where
  "link_requested i ack ca cb x p \<longleftrightarrow>
     side ListenSide i ack ca x (lt p) \<and> side ConnectSide i ack cb x (rt p) \<and> r_state (rt p) = R_CONNECTED \<and>
     view (lt p) ca x = Waiting \<and> held (lt p) ca x = [] \<and> view (rt p) cb x = Gone \<and>
     lr p @ outgoing (lt p) = frame (enc_msg i x MCreate) \<and> rl p @ outgoing (rt p) = [] \<and>
     l_in p = [] \<and> l_out p = [] \<and> r_in p = [] \<and> r_out p = []"

text \<open>The listening end gets there when it accepts a client and nothing is on its way.\<close>

lemma accept_requests:
  assumes "side ListenSide i ack ca x (lt p)" "side ConnectSide i ack cb x (rt p)" "r_state (rt p) = R_CONNECTED"
    "view (lt p) ca x = Gone" "view (rt p) cb x = Gone"
    "lr p @ outgoing (lt p) = []" "rl p @ outgoing (rt p) = []" "l_in p = []" "l_out p = []" "r_in p = []" "r_out p = []"
    "m_connections (lt p) ca = Some t" "x = to_short (m_next_id t)"
    "sys_accept os (m_listen_socket t) (world (lt p)) = (Inr sock, w1)" "sys_nonblock os sock w1 = (Inr y, w2)"
    "poller_map (lt p) (P_Link (m_next_obj (lt p)), sock) = None"
  shows "\<exists>u. ListenSide_polled os ca (lt p) = Inr u \<and> link_requested i ack ca cb x (p\<lparr>lt := u\<rparr>)"
proof -
  have t: "m_kind t = ListenSide" "tc_id t = i" "link_ok (lt p) ca x" "m_writer_attached (lt p)" "unsent_message (lt p) = []"
    using assms(1,12) by (simp_all add: side_def)
  obtain u where u: "ListenSide_polled os ca (lt p) = Inr u" "moves (lt p) ca x i (Waiting, [MCreate]) u"
    using accept_moves [OF assms(12) t(1,3) assms(4,13) t(4,5) assms(14-16)] t(2) by auto
  have "conn_rel (lt p) u" "tun_rel (lt p) u"
    using listen_polled_conn [of "lt p" os ca] ListenSide_polled_ok [of "lt p" os ca] by (simp_all add: u(1))
  note m = moves_side [OF assms(1) u(2) this]
  have "held (lt p) ca x = []"
    using Gone_unlinked(2) [OF assms(12) t(3) assms(4)] .
  then show ?thesis
    using assms(2,3,5-11) m u(1) by (simp add: link_requested_def)
qed

lemma requested_sim: "link_requested i ack ca cb x p \<Longrightarrow> pair_sim i ack ca cb x link_init p"
  by (auto simp: link_requested_def pair_sim_def link_init_def took_def frames_of_def intro: carries.nothing)

lemma pair_reachable:
  assumes "(pair_step osl osr ca cb x)\<^sup>*\<^sup>* p q" "link_requested i ack ca cb x p" "bounded_io osl" "bounded_io osr"
  shows "\<exists>s. link_reachable ack s \<and> pair_sim i ack ca cb x s q"
  using assms(1)
proof (induction rule: rtranclp_induct)
  case base
  then show ?case
    using requested_sim [OF assms(2)] link_reachable.init by blast
next
  case (step q q')
  then obtain s where s: "link_reachable ack s" "pair_sim i ack ca cb x s q" by blast
  show ?case
    using sim_step [OF step(2) assms(3,4) s(2) shape_reachable [OF s(1)] flowing_reachable [OF s(1)]] s(1)
      link_reachable.step by blast
qed

lemma took_flows:
  assumes "flows bs ch got e" "took got w e h"
  shows "\<exists>rest. bs = w @ rest" "is_open e \<Longrightarrow> bs = w @ h @ data_of ch"
  using assms by (auto simp: flows_def took_def is_open_def split: if_splits)

text \<open>Two connected processes with a client accepted at the listening end, whatever the order in which
  their sockets are read, written and break, packets are written and messages handled: what has been
  written to the socket at one end is a prefix of what was read from the socket at the other. While an end
  is open nothing is missing but what it holds for its socket and what is on its way to it, in the pipe or
  in the packets that wait to be written. And no handler throws on a message that arrives.\<close>

theorem pair_delivers:
  assumes "link_requested i ack ca cb x p" "bounded_io osl" "bounded_io osr" "(pair_step osl osr ca cb x)\<^sup>*\<^sup>* p q"
  shows "(\<exists>rest. l_in q = r_out q @ rest) \<and> (\<exists>rest. r_in q = l_out q @ rest) \<and>
    (is_open (view (rt q) cb x) \<longrightarrow> (\<exists>ms. lr q @ outgoing (lt q) = frames_of i x ms \<and>
       l_in q = r_out q @ held (rt q) cb x @ data_of ms)) \<and>
    (is_open (view (lt q) ca x) \<longrightarrow> (\<exists>ms. carries i x (rl q @ outgoing (rt q)) ms \<and>
       r_in q = l_out q @ held (lt q) ca x @ data_of ms)) \<and>
    (\<forall>bs rest. length bs < 2 ^ 32 \<longrightarrow>
       (rl q = frame bs @ rest \<longrightarrow> (\<exists>u. StdioTunnelLocal_message osl (with_incoming bs (lt q)) = Inr u)) \<and>
       (lr q = frame bs @ rest \<longrightarrow> (\<exists>u. StdioTunnelRemote_message osr (with_incoming bs (rt q)) = Inr u)))"
proof -
  obtain s where s: "link_reachable ack s" "pair_sim i ack ca cb x s q"
    using pair_reachable [OF assms(4,1-3)] by blast
  note inv = shape_reachable [OF s(1)] flowing_reachable [OF s(1)]
  have f: "flows (l_in q) (lc s) (c_got s) (ce s)" "flows (r_in q) (cl s) (l_got s) (le s)"
    using inv(2) s(2) by (simp_all add: flowing_def pair_sim_def)
  note t = sim_took [OF s(2)]
  have sim: "view (rt q) cb x = ce s" "view (lt q) ca x = le s"
    "lr q @ outgoing (lt q) = frames_of i x (lc s)" "carries i x (rl q @ outgoing (rt q)) (cl s)"
    using s(2) by (simp_all add: pair_sim_def)
  have whole: "\<exists>u. StdioTunnelLocal_message osl (with_incoming bs (lt q)) = Inr u"
    if "rl q = frame bs @ rest" "length bs < 2 ^ 32" for bs rest
    using sim_l_message [OF that s(2) inv(1), of osl] by blast
  have whole': "\<exists>u. StdioTunnelRemote_message osr (with_incoming bs (rt q)) = Inr u"
    if "lr q = frame bs @ rest" "length bs < 2 ^ 32" for bs rest
    using sim_r_message [OF that s(2) inv, of osr] by blast
  show ?thesis
    unfolding sim(1,2) using took_flows [OF f(1) t(2)] took_flows [OF f(2) t(1)] sim(3,4) whole whole' by blast
qed

text \<open>A pair of processes on a system with two pipes, with the request to connect on its way.\<close>

definition demo_pair :: "(pipe_world, pipe_world) tunnel_pair" where
  "demo_pair = \<lparr>lt = with_incoming [] (demo_waiting MSuccess),
     rt = with_incoming [] (demo_asked MCreate)\<lparr>r_state := R_CONNECTED, m_connection_map := [(0, 0)]\<rparr>,
     lr = frame (enc_msg 0 501 MCreate), rl = [], l_in = [], l_out = [], r_in = [], r_out = []\<rparr>"

lemma pipe_bounded: "bounded_io (pipe_proc q)"
  by (auto simp: bounded_io_def pipe_proc_def pipe_net_def pipe_os_def net_posix.extend_def posix.extend_def Let_def
      split: if_splits)

lemma demo_pair_requested: "link_requested 0 True 0 0 501 demo_pair"
proof -
  let ?l = "lt demo_pair" and ?r = "rt demo_pair" and ?wl = "demo_waiting MSuccess" and ?wr = "demo_asked MCreate"
  have l: "view ?l 0 501 = view ?wl 0 501" "held ?l 0 501 = held ?wl 0 501" "link_ok ?l 0 501 = link_ok ?wl 0 501"
    by (rule same_view; simp add: demo_pair_def)+
  have r: "view ?r 0 501 = view ?wr 0 501" "link_ok ?r 0 501 = link_ok ?wr 0 501"
    by (rule same_view; simp add: demo_pair_def poller_map_def)+
  have spec: "has_flag ACK_PACKETS demo_spec" "length (m_connect_host demo_spec) < 2 ^ 31"
    by (simp_all add: demo_spec_def has_flag_def ACK_PACKETS_def)
  have empty: "outgoing ?l = []" "outgoing ?r = []" "held ?wl 0 501 = []"
    by (simp_all add: demo_pair_def demo_waiting_def demo_asked_def demo_sides outgoing_def with_incoming_def ws_pending_def
        WriteStream_new_def held_def ConnectionLink_new_def SockBuffer_new_def sb_content_def ListenSide_new_def)
  have "side ListenSide 0 True 0 501 ?l"
    using demo_waiting_facts(1,3,4,5) [of MSuccess] spec l(3)
    by (simp add: side_def demo_pair_def ListenSide_new_def incoming_def unsent_message_def with_incoming_def of_short_def to_short_def
        demo_waiting_def demo_l_facts(4))
  moreover have "side ConnectSide 0 True 0 501 ?r"
    using demo_asked_facts(1,3,4,5) [of MCreate] spec r(2)
    by (simp add: side_def demo_pair_def ConnectSide_new_def incoming_def unsent_message_def with_incoming_def of_short_def to_short_def)
  ultimately show ?thesis
    using demo_waiting_facts(7) [of MSuccess] demo_asked_facts(7) [of MCreate] l r empty
    by (simp add: link_requested_def) (simp add: demo_pair_def)
qed

theorem pair_delivers_witness:
  "\<exists>u q. StdioTunnelRemote_message (pipe_proc 40) (with_incoming (enc_msg 0 501 MCreate) (rt demo_pair)) = Inr u \<and>
     pair_step (pipe_proc 40) (pipe_proc 40) 0 0 501 demo_pair q \<and> q = demo_pair\<lparr>rt := u, lr := []\<rparr> \<and>
     (\<exists>rest. l_in q = r_out q @ rest) \<and> (\<exists>rest. r_in q = l_out q @ rest)"
proof -
  have short: "length (enc_msg 0 501 MCreate) < 2 ^ 32"
    by (rule enc_msg_short) simp
  have lr: "lr demo_pair = frame (enc_msg 0 501 MCreate) @ []"
    by (simp add: demo_pair_def)
  note d = pair_delivers [OF demo_pair_requested pipe_bounded pipe_bounded, of 40 40]
  obtain u where u: "StdioTunnelRemote_message (pipe_proc 40) (with_incoming (enc_msg 0 501 MCreate) (rt demo_pair)) = Inr u"
    using d [OF rtranclp.rtrancl_refl] lr short by blast
  have st: "pair_step (pipe_proc 40) (pipe_proc 40) 0 0 501 demo_pair (demo_pair\<lparr>rt := u, lr := []\<rparr>)"
    using pair_step.r_message [OF lr short u] .
  then have "(pair_step (pipe_proc 40) (pipe_proc 40) 0 0 501)\<^sup>*\<^sup>* demo_pair (demo_pair\<lparr>rt := u, lr := []\<rparr>)"
    by (rule r_into_rtranclp)
  from d [OF this] show ?thesis
    using u st by blast
qed

end
