(* ===== verification/Link_Apart.thy ===== *)
theory Link_Apart
  imports Link_System
begin

text \<open>
  The links of a process do not disturb each other: what a handler does for one link leaves every other
  link as it is. The handlers are followed with a relation between heaps, \<open>touch\<close>, that names the objects
  and the entry of the link table they may change.
\<close>

section \<open>What a handler may touch\<close>

text \<open>Objects are allocated in order.\<close>

definition alloc_ok :: "('w, 'a) tunnel_scheme \<Rightarrow> bool" where
  "alloc_ok s \<longleftrightarrow> (\<forall>b \<ge> m_next_obj s. m_links s b = None \<and> (\<forall>f. poller_map s (P_Link b, f) = None))"

text \<open>The objects of link \<open>y\<close> of connection \<open>c\<close> are among \<open>A\<close>, and these belong to nothing else.\<close>

definition owned :: "nat \<Rightarrow> short \<Rightarrow> nat set \<Rightarrow> ('w, 'a) tunnel_scheme \<Rightarrow> bool" where
  "owned c y A s \<longleftrightarrow> (\<forall>t b. m_connections s c = Some t \<longrightarrow> m_link_map t y = Some b \<longrightarrow> b \<in> A) \<and>
     (\<forall>b l. b \<in> A \<longrightarrow> m_links s b = Some l \<longrightarrow> lk_id l = y \<and> m_connection l = c)"

definition touch :: "nat \<Rightarrow> short \<Rightarrow> nat set \<Rightarrow> ('w, 'a) tunnel_scheme \<Rightarrow> ('w, 'a) tunnel_scheme \<Rightarrow> bool" where
  "touch c y A s u \<longleftrightarrow>
     (\<forall>b. b \<notin> A \<longrightarrow> m_links u b = m_links s b \<and> (\<forall>f. poller_map u (P_Link b, f) = None \<longleftrightarrow> poller_map s (P_Link b, f) = None)) \<and>
     (\<forall>d t. m_connections s d = Some t \<longrightarrow> (\<exists>t'. m_connections u d = Some t' \<and> m_kind t' = m_kind t \<and>
        (\<forall>x. (d, x) \<noteq> (c, y) \<longrightarrow> m_link_map t' x = m_link_map t x))) \<and>
     m_next_obj s \<le> m_next_obj u \<and> {m_next_obj s..} \<subseteq> A \<and> alloc_ok u \<and> owned c y A u"

abbreviation touch_ok where
  "touch_ok c y A s \<equiv> res_ok (\<lambda>_. True) (touch c y A s)"

abbreviation touch_pair_ok where
  "touch_pair_ok c y A s \<equiv> res_ok (\<lambda>_. True) (\<lambda>(_, u). touch c y A s u)"

lemma touch_refl:
  "alloc_ok s \<Longrightarrow> owned c y A s \<Longrightarrow> {m_next_obj s..} \<subseteq> A \<Longrightarrow> touch c y A s s"
  by (simp add: touch_def)

lemma touch_same:
  assumes "m_links v = m_links u" "m_connections v = m_connections u" "m_next_obj v = m_next_obj u"
    "\<And>k. poller_map v k = None \<longleftrightarrow> poller_map u k = None"
  shows "touch c y A s v = touch c y A s u"
  by (simp add: touch_def alloc_ok_def owned_def assms)

lemma touch_bind:
  "touch_ok c y A s r \<Longrightarrow> (\<And>u. touch c y A s u \<Longrightarrow> res_ok (\<lambda>_. True) P (k u)) \<Longrightarrow> res_ok (\<lambda>_. True) P (bindE r k)"
  by (rule res_ok_bind)

lemma touch_bind_pair:
  "touch_pair_ok c y A s r \<Longrightarrow> (\<And>z u. touch c y A s u \<Longrightarrow> res_ok (\<lambda>_. True) P (k (z, u))) \<Longrightarrow>
     res_ok (\<lambda>_. True) P (bindE r k)"
  by (erule res_ok_bind) auto

lemma touchD:
  assumes "touch c y A s u"
  shows "b \<notin> A \<Longrightarrow> m_links u b = m_links s b" "b \<notin> A \<Longrightarrow> poller_map u (P_Link b, f) = None \<longleftrightarrow> poller_map s (P_Link b, f) = None"
    "m_connections s d = Some t \<Longrightarrow> \<exists>t'. m_connections u d = Some t' \<and> m_kind t' = m_kind t \<and>
       (\<forall>x. (d, x) \<noteq> (c, y) \<longrightarrow> m_link_map t' x = m_link_map t x)"
    "m_next_obj s \<le> m_next_obj u" "{m_next_obj s..} \<subseteq> A" "alloc_ok u" "owned c y A u"
  using assms unfolding touch_def by blast+

lemma touch_step:
  assumes "touch c y A s u" "\<And>b. b \<notin> A \<Longrightarrow> m_links v b = m_links u b"
    "\<And>b f. b \<notin> A \<Longrightarrow> poller_map v (P_Link b, f) = None \<longleftrightarrow> poller_map u (P_Link b, f) = None"
    "\<And>d t. m_connections u d = Some t \<Longrightarrow> \<exists>t'. m_connections v d = Some t' \<and> m_kind t' = m_kind t \<and>
       (\<forall>x. (d, x) \<noteq> (c, y) \<longrightarrow> m_link_map t' x = m_link_map t x)"
    "m_next_obj u \<le> m_next_obj v" "alloc_ok v" "owned c y A v"
  shows "touch c y A s v"
proof -
  have "\<exists>t'. m_connections v d = Some t' \<and> m_kind t' = m_kind t \<and> (\<forall>x. (d, x) \<noteq> (c, y) \<longrightarrow> m_link_map t' x = m_link_map t x)"
    if "m_connections s d = Some t" for d t
    using touchD(3) [OF assms(1) that] assms(4) by (metis (no_types, lifting))
  then show ?thesis
    unfolding touch_def using assms(2,3,5-7) touchD(1,2,4,5) [OF assms(1)] by auto
qed

lemma touch_deref:
  "(\<And>l. m_links u a = Some l \<Longrightarrow> res_ok (\<lambda>_. True) P (k l)) \<Longrightarrow> res_ok (\<lambda>_. True) P (bindE (deref_link a u) k)"
  "(\<And>t. m_connections u d = Some t \<Longrightarrow> res_ok (\<lambda>_. True) P (g t)) \<Longrightarrow> res_ok (\<lambda>_. True) P (bindE (deref_connection d u) g)"
  by (rule res_ok_bind_value; simp add: deref_Inr)+

section \<open>Primitive operations\<close>

lemma touch_setEvents [simp]: "touch c y A s (Poller_setEvents p f ev u) = touch c y A s u"
proof (rule touch_same)
  show "m_next_obj (Poller_setEvents p f ev u) = m_next_obj u"
    by (simp add: Poller_setEvents_def Let_def split: option.splits)
qed simp_all

lemma touch_prims [simp]:
  "touch c y A s (on_world h u) = touch c y A s u" "touch c y A s (u\<lparr>world := w\<rparr>) = touch c y A s u"
  "touch c y A s (put_bytes bs u) = touch c y A s u" "touch c y A s (put_header i cmd x u) = touch c y A s u"
  "touch c y A s (put_short z u) = touch c y A s u" "touch c y A s (writing g u) = touch c y A s u"
  "touch c y A s (u\<lparr>m_read_stream := r\<rparr>) = touch c y A s u" "touch c y A s (with_incoming bs u) = touch c y A s u"
  by (rule touch_same; simp add: put_header_def put_short_def writing_def put_bytes_def on_world_def poller_map_def)+

lemma touch_syscall: "syscall g u = (z, v) \<Longrightarrow> touch c y A s u \<Longrightarrow> touch c y A s v"
  by (auto simp: syscall_def split: prod.splits)

lemma touch_put:
  assumes "touch c y A s u" "m_links u a = Some l" "a \<in> A" "lk_id l' = lk_id l" "m_connection l' = m_connection l"
  shows "touch c y A s (put_link a l' u)"
proof (rule touch_step [OF assms(1)])
  have "a < m_next_obj u"
    using touchD(6) [OF assms(1)] assms(2) by (metis alloc_ok_def leI option.distinct(1))
  then show "alloc_ok (put_link a l' u)"
    using touchD(6) [OF assms(1)] by (auto simp: alloc_ok_def put_link_def poller_map_def)
  show "owned c y A (put_link a l' u)"
    using touchD(7) [OF assms(1)] assms(2-5) by (simp add: owned_def put_link_def)
qed (use assms(3) in \<open>auto simp: put_link_def poller_map_def\<close>)

lemma touch_free:
  assumes "touch c y A s u" "a \<in> A"
  shows "touch c y A s (free_link a u)"
proof (rule touch_step [OF assms(1)])
  show "alloc_ok (free_link a u)" "owned c y A (free_link a u)"
    using touchD(6,7) [OF assms(1)] by (simp_all add: alloc_ok_def owned_def free_link_def poller_map_def)
qed (use assms(2) in \<open>auto simp: free_link_def poller_map_def\<close>)

lemma touch_conn:
  assumes "touch c y A s u" "m_connections u c = Some t" "m_kind t' = m_kind t" "\<And>x. x \<noteq> y \<Longrightarrow> m_link_map t' x = m_link_map t x"
    "\<And>b. m_link_map t' y = Some b \<Longrightarrow> b \<in> A"
  shows "touch c y A s (put_connection c t' u)"
proof (rule touch_step [OF assms(1)])
  show "alloc_ok (put_connection c t' u)" "owned c y A (put_connection c t' u)"
    using touchD(6,7) [OF assms(1)] assms(5) by (simp_all add: alloc_ok_def owned_def put_connection_def poller_map_def)
qed (use assms(2-4) in \<open>auto simp: put_connection_def poller_map_def\<close>)

lemma removePolled_None: "poller_map u k = None \<Longrightarrow> poller_map (Poller_removePolled p f u) k = None"
  using removePolled_map_other [of k p f u] findPolled_None [of p f "m_polled u"]
  by (cases "k = (p, f)") (auto simp: Poller_removePolled_def poller_map_def)

lemma Poller_removePolled_fields [simp]:
  "m_links (Poller_removePolled p f u) = m_links u" "m_connections (Poller_removePolled p f u) = m_connections u"
  for u :: "('w, 'a) tunnel_scheme"
  by (simp_all add: Poller_removePolled_def Let_def split: option.splits)

lemma touch_remove:
  assumes "touch c y A s u" "a \<in> A"
  shows "touch c y A s (Poller_removePolled (P_Link a) f u)"
proof (rule touch_step [OF assms(1)])
  have "m_next_obj (Poller_removePolled (P_Link a) f u) = m_next_obj u"
    by (simp add: Poller_removePolled_def Let_def split: option.splits)
  then show "alloc_ok (Poller_removePolled (P_Link a) f u)" "owned c y A (Poller_removePolled (P_Link a) f u)"
    "m_next_obj u \<le> m_next_obj (Poller_removePolled (P_Link a) f u)"
    using touchD(6,7) [OF assms(1)] by (simp_all add: alloc_ok_def owned_def removePolled_None)
  fix b g
  assume "b \<notin> A"
  with assms(2) have "b \<noteq> a" by blast
  then show "poller_map (Poller_removePolled (P_Link a) f u) (P_Link b, g) = None \<longleftrightarrow> poller_map u (P_Link b, g) = None"
    by (simp add: removePolled_map_other)
qed simp_all

lemma touch_new:
  assumes "touch c y A s u" "new_link (ConnectionLink_new c y sock) u = (a, v)"
  shows "touch c y A s v" "a \<in> A" "m_connections v = m_connections u"
proof -
  have a: "a = m_next_obj u" "v = put_link (m_next_obj u) (ConnectionLink_new c y sock) (u\<lparr>m_next_obj := Suc (m_next_obj u)\<rparr>)"
    using assms(2) by (auto simp: new_link_def)
  show "a \<in> A" "m_connections v = m_connections u"
    using touchD(4,5) [OF assms(1)] by (auto simp: a put_link_def)
  then show "touch c y A s v"
    using touchD(6,7) [OF assms(1)]
    by (intro touch_step [OF assms(1)])
      (auto simp: a put_link_def poller_map_def alloc_ok_def owned_def ConnectionLink_new_def)
qed

lemma unregistered_append: "entry_map (es @ fs) k = None \<longleftrightarrow> entry_map es k = None \<and> entry_map fs k = None"
  by (simp add: entry_map_append split: option.splits)

lemma touch_add:
  assumes "touch c y A s u" "a \<in> A"
  shows "touch_ok c y A s (Poller_addPolled (\<lambda>_. ConnectionLink_setPollfd a) (P_Link a) u)"
proof (cases "m_links u a")
  case None
  then show ?thesis by (simp add: Poller_addPolled_def ConnectionLink_setPollfd_def deref_link_def)
next
  case (Some l)
  define v where "v = u\<lparr>m_polled := m_polled u @ [\<lparr>e_addr = m_next_addr u, e_polled = P_Link a,
      e_pollfd = \<lparr>fd = m_socket l, events = POLLIN, revents = 0\<rparr>\<rparr>], m_next_addr := Suc (m_next_addr u)\<rparr>"
  have "touch c y A s v"
  proof (rule touch_step [OF assms(1)])
    show "alloc_ok v" "owned c y A v"
      using touchD(6,7) [OF assms(1)] Some by (auto simp: v_def alloc_ok_def owned_def poller_map_def unregistered_append)
  qed (use assms(2) in \<open>auto simp: v_def poller_map_def unregistered_append\<close>)
  then show ?thesis
    using Some by (simp add: Poller_addPolled_def ConnectionLink_setPollfd_def deref_link_def v_def)
qed

lemma touch_send: "touch c y A s u \<Longrightarrow> touch_ok c y A s (CustomWriteStream_send u)"
  by (simp add: CustomWriteStream_send_def)

lemma touch_reading:
  assumes "touch c y A s u"
  shows "touch_pair_ok c y A s (reading g u)" "touch_pair_ok c y A s (get_short u)"
  using assms by (auto simp: reading_def get_short_def exn_simps bindE_def split: sum.splits prod.splits)

section \<open>Handlers\<close>

lemma touch_owned:
  assumes "touch c y A s u"
  shows "m_connections u c = Some t \<Longrightarrow> m_link_map t y = Some a \<Longrightarrow> a \<in> A"
    and "m_links u a = Some l \<Longrightarrow> a \<in> A \<Longrightarrow> lk_id l = y"
  using touchD(7) [OF assms] by (simp_all add: owned_def)

lemma setAcknowledged_touch:
  "touch c y A s u \<Longrightarrow> a \<in> A \<Longrightarrow> touch_ok c y A s (ConnectionLink_setAcknowledged k a u)"
  unfolding ConnectionLink_setAcknowledged_def Let_def by (auto intro!: touch_deref touch_put)

lemma closeLink_touch:
  assumes "touch c y A s u" "a \<in> A"
  shows "touch_ok c y A s (TunnelConnection_closeLink os d a u)"
proof -
  have "touch_ok c y A s (ConnectionLink_setClosing os a u)"
    unfolding ConnectionLink_setClosing_def Let_def
  proof (rule touch_deref)
    fix l assume "m_links u a = Some l"
    from touch_put [OF assms(1) this assms(2), of "l\<lparr>m_closing := True\<rparr>"]
    show "touch_ok c y A s (Inr (Poller_removePolled (P_Link a) (m_socket l)
        (on_world (sys_close os (m_socket l)) (put_link a (l\<lparr>m_closing := True\<rparr>) u))))"
      using assms(2) by (simp add: touch_remove)
  qed
  then show ?thesis
    unfolding TunnelConnection_closeLink_def using assms(1)
    by (auto intro!: touch_deref res_ok_if touch_bind [of c y A s "ConnectionLink_setClosing os a u"] touch_send)
qed

lemma receiveData_touch:
  assumes "touch c y A s u" "a \<in> A"
  shows "touch_ok c y A s (TunnelConnection_receiveData a u)"
  unfolding TunnelConnection_receiveData_def
  by (rule touch_bind_pair [OF touch_reading(2) [OF assms(1)]])
    (auto intro!: touch_bind_pair [OF touch_reading(1)] touch_deref touch_put assms(2))

lemma erase_link_touch:
  assumes "touch c y A s u"
  shows "touch_ok c y A s (erase_link c y u)"
  unfolding erase_link_def
  by (auto intro!: touch_deref touch_free touch_conn [OF assms] intro: touch_owned(1) [OF assms] split: option.splits)

lemma link_message_touch:
  assumes "touch c y A s u" "a \<in> A"
  shows "touch_ok c y A s (TunnelConnection_processLinkMessage os c cmd a u)"
proof -
  have close: "touch_ok c y A s (bindE (deref_link a v) (\<lambda>l. erase_link c (lk_id l) v))" if "touch c y A s v" for v
  proof (rule touch_deref)
    fix l assume "m_links v a = Some l"
    from touch_owned(2) [OF that this assms(2)] show "touch_ok c y A s (erase_link c (lk_id l) v)"
      using erase_link_touch [OF that] by simp
  qed
  have ack: "touch_ok c y A s (bindE (deref_link a v) (\<lambda>l. if \<not> m_closing l then bindE (deref_connection c v) (\<lambda>t.
      CustomWriteStream_send (put_header (tc_id t) LINK_ACK (lk_id l) v)) else ConnectionLink_setAcknowledged True a v))"
    if "touch c y A s v" for v
    using that assms(2) by (auto intro!: touch_deref touch_send setAcknowledged_touch)
  show ?thesis
    unfolding TunnelConnection_processLinkMessage_def
    using receiveData_touch [OF assms] setAcknowledged_touch [OF assms] assms(1)
    by (auto intro!: touch_bind [OF closeLink_touch [OF assms]] touch_bind [OF receiveData_touch [OF assms]] close ack)
qed

lemma listen_touch:
  assumes "touch c y A s u" "incoming u = link_bytes y m @ rest"
  shows "touch_ok c y A s (ListenSide_processMessage os c u)"
proof -
  let ?v = "with_incoming (msg_body m @ rest) u"
  have v: "touch c y A s ?v"
    using assms(1) by simp
  note add = touch_add [of c y A s] and link = link_message_touch [OF v]
  have "touch_ok c y A s (case m_link_map t y of
      None \<Rightarrow> Inl e
    | Some a \<Rightarrow>
        if msg_code m = LINK_CREATE then
          bindE (get_short ?v) (\<lambda>(r, s). if of_short r = LINK_SUCCESS
            then Poller_addPolled (\<lambda>_. ConnectionLink_setPollfd a) (P_Link a) s
            else bindE (deref_link a s) (\<lambda>l. erase_link c y (on_world (sys_close os (m_socket l)) s)))
        else TunnelConnection_processLinkMessage os c (msg_code m) a ?v)"
    if t: "m_connections ?v c = Some t" for t e
    using touch_owned(1) [OF v t]
    by (auto intro!: touch_bind_pair [OF touch_reading(2) [OF v]] touch_deref add erase_link_touch link split: option.splits)
  note body = this
  show ?thesis
    using get_link_bytes [OF assms(2)]
    by (simp add: ListenSide_processMessage_def cong: option.case_cong if_cong) (rule touch_deref(2), erule body)
qed

lemma assign_link_touch:
  assumes "touch c y A s u" "a \<in> A"
  shows "touch_ok c y A s (assign_link c y a u)"
proof -
  have "touch c y A s (put_connection c (t\<lparr>m_link_map := (m_link_map t)(y \<mapsto> a)\<rparr>) (case m_link_map t y of None \<Rightarrow> u | Some b \<Rightarrow> free_link b u))"
    if "m_connections u c = Some t" for t
  proof (rule touch_conn)
    show "touch c y A s (case m_link_map t y of None \<Rightarrow> u | Some b \<Rightarrow> free_link b u)"
      using assms(1) touch_owned(1) [OF assms(1) that] by (auto intro: touch_free split: option.splits)
    show "m_connections (case m_link_map t y of None \<Rightarrow> u | Some b \<Rightarrow> free_link b u) c = Some t"
      using that by (auto simp: free_link_def split: option.splits)
  qed (use assms(2) in auto)
  then show ?thesis
    by (auto simp: assign_link_def Let_def intro!: touch_deref)
qed

lemma connect_touch:
  assumes "\<And>m v. touch c y A s v \<Longrightarrow> touch_ok c y A s (reportError m v)" "touch c y A s u"
  shows "touch_pair_ok c y A s (ConnectSide_connect os reportError c t y u)"
proof -
  have fail: "touch_pair_ok c y A s (bindE (reportError m v) (\<lambda>v. Inr (False, v)))" if "touch c y A s v" for m v
    by (rule touch_bind [OF assms(1) [OF that]]) simp
  have link: "touch_pair_ok c y A s (bindE (Poller_addPolled (\<lambda>_. ConnectionLink_setPollfd a) (P_Link a) v) (\<lambda>v.
      bindE (assign_link c y a v) (\<lambda>v. Inr (True, v))))"
    if "new_link (ConnectionLink_new c y sock) w = (a, v)" "touch c y A s w" for sock w a v
    using touch_new(1,2) [OF that(2,1)]
    by (auto intro!: touch_bind [OF touch_add] touch_bind [OF assign_link_touch])
  show ?thesis
    using assms(2) unfolding ConnectSide_connect_def
    by (auto intro!: fail res_ok_bind [where Q = "\<lambda>(_, v). touch c y A s v"] link
        dest: touch_syscall split: prod.splits option.splits sum.splits)
qed

lemma connect_side_touch:
  assumes "\<And>m v. touch c y A s v \<Longrightarrow> touch_ok c y A s (reportError m v)" "touch c y A s u" "incoming u = link_bytes y m @ rest"
  shows "touch_ok c y A s (ConnectSide_processMessage os reportError c u)"
proof -
  let ?v = "with_incoming (msg_body m @ rest) u"
  have v: "touch c y A s ?v"
    using assms(2) by simp
  have "touch_ok c y A s (if msg_code m = LINK_CREATE
      then bindE (ConnectSide_connect os reportError c t y ?v) (\<lambda>(success, s).
        CustomWriteStream_send (put_short (if success then LINK_SUCCESS else LINK_FAILURE) (put_header (tc_id t) LINK_CREATE y s)))
      else case m_link_map t y of None \<Rightarrow> Inr ?v | Some a \<Rightarrow> TunnelConnection_processLinkMessage os c (msg_code m) a ?v)"
    if t: "m_connections ?v c = Some t" for t
    using touch_owned(1) [OF v t] v
    by (auto intro!: touch_bind_pair [OF connect_touch [OF assms(1) v]] touch_send link_message_touch [OF v] split: option.splits)
  note body = this
  show ?thesis
    using get_link_bytes [OF assms(3)]
    by (simp add: ConnectSide_processMessage_def Let_def cong: option.case_cong if_cong) (rule touch_deref(2), erule body)
qed

lemma readable_touch:
  assumes "touch c y A s u" "a \<in> A"
  shows "touch_pair_ok c y A s (ConnectionLink_readable os a u)"
proof -
  have close: "touch_pair_ok c y A s (bindE (TunnelConnection_closeLink os d a v) (\<lambda>v. Inr (True, v)))" if "touch c y A s v" for d v
    by (rule touch_bind [OF closeLink_touch [OF that assms(2)]]) simp
  have send: "touch_ok c y A s (TunnelConnection_sendData d a bs v)" if "touch c y A s v" for d bs v
    using that unfolding TunnelConnection_sendData_def Let_def by (auto intro!: touch_deref touch_send)
  have ack: "touch_pair_ok c y A s (bindE (ConnectionLink_setAcknowledged False a v) (\<lambda>v. Inr (False, v)))" if "touch c y A s v" for v
    by (rule touch_bind [OF setAcknowledged_touch [OF that assms(2)]]) simp
  show ?thesis
    using assms(1) unfolding ConnectionLink_readable_def
    by (auto intro!: touch_deref close ack res_ok_if touch_bind [OF send] dest: touch_syscall split: prod.splits sum.splits)
qed

lemma writable_touch:
  assumes "touch c y A s u" "a \<in> A"
  shows "touch_ok c y A s (ConnectionLink_writable os a u)"
proof -
  have "touch c y A s (put_link a (l\<lparr>m_buffer := b\<rparr>) (u\<lparr>world := w\<rparr>))" if "m_links u a = Some l" for l b w
    by (rule touch_put [where l = l]) (use assms that in simp_all)
  then show ?thesis
    unfolding ConnectionLink_writable_def
    by (intro touch_deref(1) res_ok_bind [OF res_ok_any]) (auto simp: Let_def)
qed

lemma accept_touch:
  assumes "touch c y A s u" "m_connections u c = Some t" "y = to_short (m_next_id t)"
  shows "touch_ok c y A s (ListenSide_polled os c u)"
proof -
  have new: "touch_ok c y A s (bindE (assign_link c y (fst (new_link (ConnectionLink_new c y sock) (put_connection c (t\<lparr>m_next_id := k\<rparr>) v)))
      (snd (new_link (ConnectionLink_new c y sock) (put_connection c (t\<lparr>m_next_id := k\<rparr>) v)))) (\<lambda>s. CustomWriteStream_send (put_header i cmd y s)))"
    if "m_connections v c = Some t" "touch c y A s v" for v sock k i cmd
  proof -
    have "touch c y A s (put_connection c (t\<lparr>m_next_id := k\<rparr>) v)"
      using touch_owned(1) [OF that(2,1)] by (intro touch_conn [OF that(2,1)]) simp_all
    note touch_new(1,2) [OF this surjective_pairing]
    then show ?thesis
      by (auto intro!: touch_bind [OF assign_link_touch] touch_send)
  qed
  show ?thesis
    unfolding ListenSide_polled_def
    using assms new by (auto simp: deref_connection_def Let_def case_prod_beta syscall_def split: sum.splits)
qed

section \<open>The other links\<close>

definition objs :: "nat \<Rightarrow> short \<Rightarrow> ('w, 'a) tunnel_scheme \<Rightarrow> nat set" where
  "objs c y s = {b. m_next_obj s \<le> b \<or> (\<exists>t. m_connections s c = Some t \<and> m_link_map t y = Some b)}"

lemma touch_start:
  assumes "link_ok s c y" "alloc_ok s"
  shows "touch c y (objs c y s) s s"
proof (rule touch_refl [OF assms(2)])
  show "owned c y (objs c y s) s"
    using assms by (fastforce simp: owned_def objs_def link_ok_def alloc_ok_def)
qed (simp add: objs_def subset_iff)

lemma touch_apart:
  assumes "touch c y (objs c y s) s u" "link_ok s c y" "alloc_ok s" "link_ok s d x" "(d, x) \<noteq> (c, y)"
  shows "view u d x = view s d x" "held u d x = held s d x" "link_ok u d x"
proof -
  obtain t where t: "m_connections s d = Some t"
    using assms(4) by (auto simp: link_ok_def)
  then obtain t' where t': "m_connections u d = Some t'" "m_kind t' = m_kind t" "m_link_map t' x = m_link_map t x"
    using touchD(3) [OF assms(1) t] assms(5) by blast
  have same: "m_links u a = m_links s a" "poller_map u (P_Link a, f) = None \<longleftrightarrow> poller_map s (P_Link a, f) = None"
    if linked: "m_link_map t x = Some a" for a f
  proof -
    obtain l where "m_links s a = Some l" "lk_id l = x" "m_connection l = d"
      using assms(4) t linked by (auto simp: link_ok_def)
    then have "a \<notin> objs c y s"
      using touchD(7) [OF touch_start [OF assms(2,3)]] assms(5) by (auto simp: owned_def)
    then show "m_links u a = m_links s a" "poller_map u (P_Link a, f) = None \<longleftrightarrow> poller_map s (P_Link a, f) = None"
      using touchD(1,2) [OF assms(1)] by auto
  qed
  then have view: "view_link u k a = view_link s k a" if "m_link_map t x = Some a" for a k
    using that by (simp add: view_link_def cong: option.case_cong if_cong)
  show "view u d x = view s d x" "held u d x = held s d x"
    using t t' same(1) view by (auto simp: view_def held_def split: option.splits)
  show "link_ok u d x"
    using assms(4) t t' same(1) view by (auto simp: link_ok_def)
qed

text \<open>The steps of a process.\<close>

lemma process_message_touch:
  assumes "side kind i ack c x s" "alloc_ok s" "TunnelConnection_processMessage os reportError c (with_incoming (link_bytes x m) s) = Inr s'"
    "\<And>A e v. touch c x A s v \<Longrightarrow> touch_ok c x A s (reportError e v)"
  shows "touch c x (objs c x s) s s'"
proof -
  let ?s = "with_incoming (link_bytes x m) s"
  have t: "touch c x (objs c x s) s ?s"
    using touch_start [of s c x] assms(1,2) by (simp add: side_def)
  have "touch_ok c x (objs c x s) s (TunnelConnection_processMessage os reportError c ?s)"
    unfolding TunnelConnection_processMessage_def
    using listen_touch [OF t, of m "[]" os] connect_side_touch [OF assms(4) t, where m = m and rest = "[]" and os = os]
    by (auto intro!: touch_deref split: connection_kind.split)
  then show ?thesis
    by (simp add: assms(3))
qed

lemma local_message_touch:
  assumes "side kind i ack c x s" "alloc_ok s" "StdioTunnelLocal_message os (with_incoming (enc_msg i x m) s) = Inr s'"
  shows "touch c x (objs c x s) s s'"
proof (rule process_message_touch [OF assms(1,2)])
  show "TunnelConnection_processMessage os (StdioTunnelLocal_reportError os) c (with_incoming (link_bytes x m) s) = Inr s'"
    using assms(3) by (simp add: local_dispatch [OF assms(1)])
qed (simp add: StdioTunnelLocal_reportError_def)

lemma remote_message_touch:
  assumes "side kind i ack c x s" "r_state s = R_CONNECTED" "alloc_ok s"
    "StdioTunnelRemote_message os (with_incoming (enc_msg i x m) s) = Inr s'"
  shows "touch c x (objs c x s) s s'"
proof (rule process_message_touch [OF assms(1,3)])
  show "TunnelConnection_processMessage os StdioTunnelRemote_reportError c (with_incoming (link_bytes x m) s) = Inr s'"
    using assms(4) by (simp add: remote_dispatch [OF assms(1,2)])
qed (simp add: StdioTunnelRemote_reportError_def touch_send)

lemma link_event_touch:
  assumes "link_event os c x s i w s'" "side kind n ack c x s" "alloc_ok s"
  shows "touch c x (objs c x s) s s'"
proof -
  have t: "touch c x (objs c x s) s s"
    using touch_start [of s c x] assms(2,3) by (simp add: side_def)
  have a: "a \<in> objs c x s" if "link_at s c x a l" for a l
    using that by (auto simp: link_at_def objs_def)
  from assms(1) show ?thesis
  proof cases
    case (reads a l b)
    then show ?thesis
      using readable_touch [OF t a, of a l os] by simp
  next
    case (writes a l k)
    then show ?thesis
      using writable_touch [OF t a, of a l os] by simp
  next
    case (breaks a l k)
    then show ?thesis
      using closeLink_touch [OF t a, of a l os c] by simp
  qed
qed

lemma link_event_keeps:
  assumes "link_event os c x s i w s'"
  shows "keeps s s'"
  using assms
proof cases
  case (reads a l b)
  then show ?thesis
    using readable_conn [of s os a] readable_ok [of s os a] by (simp add: keeps_rel)
next
  case (writes a l k)
  then show ?thesis
    using writable_conn [of s os a] writable_ok [of s os a] by (simp add: keeps_rel)
next
  case (breaks a l k)
  then show ?thesis
    using closeLink_conn [of s os c a] closeLink_ok [of s os c a] by (simp add: keeps_rel)
qed

text \<open>A client that is accepted when its number is free.\<close>

lemma accept_side:
  assumes "side ListenSide i ack c x s" "alloc_ok s" "view s c x = Gone" "m_connections s c = Some t" "x = to_short (m_next_id t)"
    "ListenSide_polled os c s = Inr u"
  shows "side ListenSide i ack c x u" "view u c x = Waiting" "outgoing u = outgoing s @ frames_of i x [MCreate]" "held u c x = []"
    "keeps s u" "touch c x (objs c x s) s u"
proof -
  have t: "m_kind t = ListenSide" "tc_id t = i" "link_ok s c x" "m_writer_attached s" "unsent_message s = []"
    using assms(1,4) by (simp_all add: side_def)
  obtain sock w1 y w2 where sys: "sys_accept os (m_listen_socket t) (world s) = (Inr sock, w1)" "sys_nonblock os sock w1 = (Inr y, w2)"
    using assms(4,6) by (auto simp: ListenSide_polled_def deref_connection_def syscall_def split: prod.splits sum.splits)
  have free: "poller_map s (P_Link (m_next_obj s), sock) = None"
    using assms(2) by (simp add: alloc_ok_def)
  have m: "moves s c x i (Waiting, [MCreate]) u"
    using accept_moves [OF assms(4) t(1,3) assms(3,5) t(4,5) sys free] assms(6) t(2) by simp
  have rel: "conn_rel s u" "tun_rel s u"
    using listen_polled_conn [of s os c] ListenSide_polled_ok [of s os c] by (simp_all add: assms(6))
  note side = moves_side [OF assms(1) m rel]
  show "side ListenSide i ack c x u" "view u c x = Waiting" "outgoing u = outgoing s @ frames_of i x [MCreate]" "held u c x = []"
    using side Gone_unlinked(2) [OF assms(4) t(3) assms(3)] by simp_all
  show "keeps s u"
    by (rule keeps_rel [OF rel])
  have "touch_ok c x (objs c x s) s (ListenSide_polled os c s)"
    by (rule accept_touch [OF touch_start [OF t(3) assms(2)] assms(4,5)])
  then show "touch c x (objs c x s) s u"
    by (simp add: assms(6))
qed

end
