(* ===== verification/Tunnel_Net.thy ===== *)
theory Tunnel_Net
  imports Tunnel_Pair Link_Apart
begin

text \<open>
  Two connected processes with all their connections and all the links of these at once: the messages of
  different links share the pipes in any order. Every link behaves as if it were alone.
\<close>

section \<open>An end by its kind\<close>

fun other_kind :: "connection_kind \<Rightarrow> connection_kind" where
  "other_kind ListenSide = ConnectSide"
| "other_kind ConnectSide = ListenSide"

lemma other_other [simp]: "other_kind (other_kind k) = k"
  by (cases k) simp_all

fun end_of :: "connection_kind \<Rightarrow> link_sys \<Rightarrow> endpoint" where
  "end_of ListenSide t = le t"
| "end_of ConnectSide t = ce t"

fun out_ch :: "connection_kind \<Rightarrow> link_sys \<Rightarrow> msg list" where
  "out_ch ListenSide t = lc t"
| "out_ch ConnectSide t = cl t"

fun sent_of :: "connection_kind \<Rightarrow> link_sys \<Rightarrow> bytes" where
  "sent_of ListenSide t = l_sent t"
| "sent_of ConnectSide t = c_sent t"

fun got_of :: "connection_kind \<Rightarrow> link_sys \<Rightarrow> bytes" where
  "got_of ListenSide t = l_got t"
| "got_of ConnectSide t = c_got t"

text \<open>A step that the end of one kind takes is not seen by the other end.\<close>

definition unseen :: "connection_kind \<Rightarrow> link_sys \<Rightarrow> link_sys \<Rightarrow> bool" where
  "unseen k t t' \<longleftrightarrow> end_of (other_kind k) t' = end_of (other_kind k) t \<and>
     sent_of (other_kind k) t' = sent_of (other_kind k) t \<and> got_of (other_kind k) t' = got_of (other_kind k) t"

lemma deliver_role:
  assumes "out_ch (other_kind k) t = m # ms" "end_recv k ok m (end_of k t) = Some (e, out, d)"
  shows "\<exists>t'. link_step ack t t' \<and> unseen k t t' \<and> end_of k t' = e \<and> out_ch (other_kind k) t' = ms \<and>
    out_ch k t' = out_ch k t @ out \<and> got_of k t' = got_of k t @ d \<and> sent_of k t' = sent_of k t"
proof (cases k)
  case ListenSide
  then show ?thesis
    using assms link_step.deliver [OF link_deliver.to_listen [of t m ms e out d], of ack]
    by (intro exI [of _ "t\<lparr>le := e, cl := ms, lc := lc t @ out, l_got := l_got t @ d\<rparr>"]) (simp add: unseen_def)
next
  case ConnectSide
  then show ?thesis
    using assms link_step.deliver [OF link_deliver.to_connect [of t m ms ok e out d], of ack]
    by (intro exI [of _ "t\<lparr>ce := e, lc := ms, cl := cl t @ out, c_got := c_got t @ d\<rparr>"]) (simp add: unseen_def)
qed

lemma event_role:
  assumes "end_event ack i (end_of k t) e out"
  shows "\<exists>t'. (t' = t \<or> link_step ack t t') \<and> unseen k t t' \<and> end_of k t' = e \<and> out_ch (other_kind k) t' = out_ch (other_kind k) t \<and>
    out_ch k t' = out_ch k t @ out \<and> got_of k t' = got_of k t \<and> sent_of k t' = sent_of k t @ i"
proof (cases k)
  case ListenSide
  then show ?thesis
    using assms listen_event [of ack i t e out] by (auto simp: unseen_def)
next
  case ConnectSide
  then show ?thesis
    using assms connect_event [of ack i t e out] by (auto simp: unseen_def)
qed

lemma role_expects:
  assumes "shape t" "out_ch (other_kind k) t = m # ms"
  shows "end_expects k m (end_of k t)"
  using shape_expects [OF assms(1)] assms(2) by (cases k) simp_all

lemma role_took:
  assumes "shape t" "flowing t" "out_ch (other_kind k) t = m # ms" "end_recv k ok m (end_of k t) = Some (e, out, d)"
    "took (got_of k t) w (end_of k t) h" "e \<noteq> Gone \<longrightarrow> h' = h @ d" "end_of k t = Gone \<Longrightarrow> h = []"
  shows "took (got_of k t @ d) w e h'"
proof (cases "end_of k t = Gone")
  case False
  then show ?thesis
    using took_message [OF assms(5) False] assms(6) by blast
next
  case True
  note ex = role_expects [OF assms(1,3)]
  then have k: "k = ConnectSide" "m = MCreate"
    using True by (cases k; cases m; simp)+
  then have "got_of k t = []" "d = []"
    using assms(1-4) True by (auto simp: shape_def established_def half_def flowing_def split: if_splits)
  then show ?thesis
    using assms(5-7) True by (auto simp: took_def)
qed

lemma role_flows: "flowing t \<Longrightarrow> flows (sent_of k t) (out_ch k t) (got_of (other_kind k) t) (end_of (other_kind k) t)"
  by (cases k) (simp_all add: flowing_def)

section \<open>One process\<close>

text \<open>
  The connections \<open>I\<close> of a process: what kind each has, whether it asks for acknowledgements, and where
  its object is.
\<close>

definition sides ::
  "c_int set \<Rightarrow> (c_int \<Rightarrow> connection_kind) \<Rightarrow> (c_int \<Rightarrow> bool) \<Rightarrow> (c_int \<Rightarrow> nat) \<Rightarrow> ('w, 'a) tunnel_scheme \<Rightarrow> bool" where
  "sides I kd ak cs s \<longleftrightarrow> alloc_ok s \<and> incoming s = [] \<and> (\<forall>i \<in> I. \<forall>x. side (kd i) i (ak i) (cs i) x s)"

type_synonym key = "c_int \<times> short"

text \<open>
  What has been read from the socket of each link, and what has been written to it, fit the ends of the
  abstract links \<open>S\<close>.
\<close>

definition tracks ::
  "c_int set \<Rightarrow> (c_int \<Rightarrow> connection_kind) \<Rightarrow> (c_int \<Rightarrow> bool) \<Rightarrow> (c_int \<Rightarrow> nat) \<Rightarrow> (key \<Rightarrow> link_sys) \<Rightarrow>
     (key \<Rightarrow> bytes) \<Rightarrow> (key \<Rightarrow> bytes) \<Rightarrow> ('w, 'a) tunnel_scheme \<Rightarrow> bool" where
  "tracks I kd ak cs S gi go s \<longleftrightarrow> sides I kd ak cs s \<and>
     (\<forall>i \<in> I. \<forall>x. view s (cs i) x = end_of (kd i) (S (i, x)) \<and> sent_of (kd i) (S (i, x)) = gi (i, x) \<and>
        took (got_of (kd i) (S (i, x))) (go (i, x)) (end_of (kd i) (S (i, x))) (held s (cs i) x))"

lemma tracksD:
  assumes "tracks I kd ak cs S gi go s" "i \<in> I"
  shows "alloc_ok s" "side (kd i) i (ak i) (cs i) x s" "view s (cs i) x = end_of (kd i) (S (i, x))"
    "sent_of (kd i) (S (i, x)) = gi (i, x)" "took (got_of (kd i) (S (i, x))) (go (i, x)) (end_of (kd i) (S (i, x))) (held s (cs i) x)"
  using assms by (simp_all add: tracks_def sides_def)

lemma sides_distinct:
  assumes "sides I kd ak cs s" "i \<in> I" "j \<in> I" "(j, y) \<noteq> (i, x)"
  shows "(cs j, y) \<noteq> (cs i, x)"
proof -
  have "\<exists>t. m_connections s (cs i) = Some t \<and> tc_id t = i" if "i \<in> I" for i
    using assms(1) that by (auto simp: sides_def side_def)
  then show ?thesis
    using assms(2-4) by (metis option.inject prod.inject)
qed

text \<open>A step of one link.\<close>

lemma tracks_step:
  assumes "tracks I kd ak cs S gi go s" "i \<in> I" "touch (cs i) x (objs (cs i) x s) s s'" "keeps s s'"
    "side (kd i) i (ak i) (cs i) x s'" "view s' (cs i) x = end_of (kd i) t" "sent_of (kd i) t = gi' (i, x)"
    "took (got_of (kd i) t) (go' (i, x)) (end_of (kd i) t) (held s' (cs i) x)"
    "\<And>k. k \<noteq> (i, x) \<Longrightarrow> gi' k = gi k" "\<And>k. k \<noteq> (i, x) \<Longrightarrow> go' k = go k"
  shows "tracks I kd ak cs (S((i, x) := t)) gi' go' s'"
proof -
  have sides: "sides I kd ak cs s"
    using assms(1) by (simp add: tracks_def)
  have here: "link_ok s (cs i) x" "alloc_ok s" "unsent_message s' = []" "incoming s' = []"
    using tracksD(1,2) [OF assms(1,2)] assms(5) by (simp_all add: side_def)
  have other: "side (kd j) j (ak j) (cs j) y s'" "view s' (cs j) y = view s (cs j) y" "held s' (cs j) y = held s (cs j) y"
    if j: "j \<in> I" "(j, y) \<noteq> (i, x)" for j y
  proof -
    have "link_ok s (cs j) y"
      using tracksD(2) [OF assms(1) j(1), of y] by (simp add: side_def)
    note apart = touch_apart [OF assms(3) here(1,2) this sides_distinct [OF sides assms(2) j]]
    show "view s' (cs j) y = view s (cs j) y" "held s' (cs j) y = held s (cs j) y"
      by (rule apart)+
    show "side (kd j) j (ak j) (cs j) y s'"
      by (rule side_keeps [OF tracksD(2) [OF assms(1) j(1)] assms(4) here(3,4) apart(3)])
  qed
  have "side (kd j) j (ak j) (cs j) y s'" if "j \<in> I" for j y
    using other(1) [OF that, of y] assms(5) by (cases "(j, y) = (i, x)") auto
  then have "sides I kd ak cs s'"
    using touchD(6) [OF assms(3)] here(4) by (simp add: sides_def)
  moreover have "view s' (cs j) y = end_of (kd j) ((S((i, x) := t)) (j, y)) \<and> sent_of (kd j) ((S((i, x) := t)) (j, y)) = gi' (j, y) \<and>
      took (got_of (kd j) ((S((i, x) := t)) (j, y))) (go' (j, y)) (end_of (kd j) ((S((i, x) := t)) (j, y))) (held s' (cs j) y)" if "j \<in> I" for j y
  proof (cases "(j, y) = (i, x)")
    case True
    then show ?thesis using assms(6-8) by simp
  next
    case False
    then show ?thesis
      using tracksD(3-5) [OF assms(1) that, of y] other [OF that False] assms(9,10) by auto
  qed
  ultimately show ?thesis
    unfolding tracks_def by blast
qed

text \<open>And the other process, which does not see it.\<close>

definition moved :: "(c_int \<Rightarrow> connection_kind) \<Rightarrow> (key \<Rightarrow> link_sys) \<Rightarrow> (key \<Rightarrow> link_sys) \<Rightarrow> bool" where
  "moved kd S S' \<longleftrightarrow> (\<exists>k t. S' = S(k := t) \<and> unseen (kd (fst k)) (S k) t)"

lemma moved_refl [simp]: "moved kd S S"
proof -
  have "unseen (kd (fst k)) (S k) (S k)" for k
    by (simp add: unseen_def)
  then show ?thesis
    unfolding moved_def by (metis fun_upd_triv)
qed

lemma moved_upd: "unseen (kd i) (S (i, x)) t \<Longrightarrow> moved kd S (S((i, x) := t))"
  unfolding moved_def by (metis fst_conv)

lemma tracks_moved:
  "tracks I (\<lambda>i. other_kind (kd i)) ak cs S gi go s \<Longrightarrow> moved kd S S' \<Longrightarrow> tracks I (\<lambda>i. other_kind (kd i)) ak cs S' gi go s"
  unfolding tracks_def moved_def unseen_def by auto

definition all_reachable :: "c_int set \<Rightarrow> (c_int \<Rightarrow> bool) \<Rightarrow> (key \<Rightarrow> link_sys) \<Rightarrow> bool" where
  "all_reachable I ak S \<longleftrightarrow> (\<forall>i \<in> I. \<forall>x. link_reachable (ak i) (S (i, x)))"

lemma reachable_upd: "all_reachable I ak S \<Longrightarrow> link_reachable (ak i) t \<Longrightarrow> all_reachable I ak (S((i, x) := t))"
  by (simp add: all_reachable_def)

lemma tracks_drains:
  assumes "tracks I kd ak cs S gi go s" "drains d s s'"
  shows "tracks I kd ak cs S gi go s'"
proof -
  have "alloc_ok s'" if "alloc_ok s"
    using that assms(2) by (simp add: alloc_ok_def drains_def)
  moreover have "incoming s' = incoming s"
    using assms(2) by (simp add: drains_def)
  ultimately show ?thesis
    using assms(1) drains_side(1-3) [OF assms(2)] unfolding tracks_def sides_def by metis
qed

section \<open>A pipe shared by all links\<close>

text \<open>
  The bytes of a pipe and of the packets that wait to be written to it: messages of any of the links in any
  order, and, on the way to the local side (\<open>r\<close>), reports of failed attempts.
\<close>

inductive carries_all :: "c_int set \<Rightarrow> bool \<Rightarrow> bytes \<Rightarrow> (key \<times> msg) list \<Rightarrow> bool" for I r where
  nothing: "carries_all I r [] []"
| message: "carries_all I r bs ms \<Longrightarrow> i \<in> I \<Longrightarrow> fits m \<Longrightarrow> carries_all I r (frame (enc_msg i x m) @ bs) (((i, x), m) # ms)"
| report: "carries_all I r bs ms \<Longrightarrow> r \<Longrightarrow> length e < 2 ^ 31 + 100 \<Longrightarrow> carries_all I r (frame (error_message e) @ bs) ms"

definition of_key :: "key \<Rightarrow> (key \<times> msg) list \<Rightarrow> msg list" where
  "of_key k ms = map snd (filter (\<lambda>(k', m). k' = k) ms)"

lemma of_key_simps [simp]:
  "of_key k [] = []" "of_key k ((k', m) # ms) = (if k' = k then m # of_key k ms else of_key k ms)"
  "of_key k (ms @ ns) = of_key k ms @ of_key k ns"
  "of_key k (map (Pair k') out) = (if k' = k then out else [])"
  by (simp_all add: of_key_def) (induction out; simp)

lemma carries_all_append: "carries_all I r bs ms \<Longrightarrow> carries_all I r cs ns \<Longrightarrow> carries_all I r (bs @ cs) (ms @ ns)"
  by (induction rule: carries_all.induct) (auto intro: carries_all.intros)

lemma carries_all_frames: "i \<in> I \<Longrightarrow> list_all fits out \<Longrightarrow> carries_all I r (frames_of i x out) (map (Pair (i, x)) out)"
  by (induction out) (auto intro: carries_all.intros)

lemma carries_all_split:
  assumes "carries_all I r cs ms" "cs = frame bs @ rest" "length bs < 2 ^ 32"
  shows "(\<exists>i x m ms'. ms = ((i, x), m) # ms' \<and> bs = enc_msg i x m \<and> i \<in> I \<and> fits m \<and> carries_all I r rest ms') \<or>
    (\<exists>e. r \<and> length e < 2 ^ 31 + 100 \<and> bs = error_message e \<and> carries_all I r rest ms)"
  using assms(1)
proof cases
  case nothing
  then show ?thesis using assms(2) by simp
next
  case (message bs' ms' i m x)
  have "bs = enc_msg i x m" "rest = bs'"
    using assms(2) message(1) frame_inj [OF assms(3) enc_msg_short [OF message(5), of i x], of rest bs'] by auto
  then show ?thesis
    using message by blast
next
  case (report bs' e)
  then have "bs = error_message e" "rest = bs'"
    using assms(2) report(1) frame_inj [OF assms(3) error_message_short [OF report(4)], of rest bs'] by auto
  then show ?thesis
    using report by blast
qed

text \<open>The pipe holds, for each link, what is on its way from the end of the kind \<open>kd\<close>.\<close>

definition channel ::
  "c_int set \<Rightarrow> bool \<Rightarrow> (c_int \<Rightarrow> connection_kind) \<Rightarrow> (key \<Rightarrow> link_sys) \<Rightarrow> bytes \<Rightarrow> bool" where
  "channel I r kd S bs \<longleftrightarrow> (\<exists>ms. carries_all I r bs ms \<and> (\<forall>i \<in> I. \<forall>x. of_key (i, x) ms = out_ch (kd i) (S (i, x))))"

lemma channel_send:
  assumes "channel I r kd S bs" "i \<in> I" "out_ch (kd i) t = out_ch (kd i) (S (i, x)) @ out" "list_all fits out"
    "err = [] \<or> r \<and> (\<exists>e. length e < 2 ^ 31 + 100 \<and> err = frame (error_message e))"
  shows "channel I r kd (S((i, x) := t)) (bs @ err @ frames_of i x out)"
proof -
  obtain ms where ms: "carries_all I r bs ms" "\<forall>i \<in> I. \<forall>x. of_key (i, x) ms = out_ch (kd i) (S (i, x))"
    using assms(1) by (auto simp: channel_def)
  have "carries_all I r (err @ frames_of i x out) (map (Pair (i, x)) out)"
    using assms(5) carries_all_frames [OF assms(2,4)] carries_all.report by auto
  from carries_all_append [OF ms(1) this] show ?thesis
    unfolding channel_def using ms(2) assms(3) by (intro exI [of _ "ms @ map (Pair (i, x)) out"]) auto
qed

lemma channel_still:
  "channel I r kd S bs \<Longrightarrow> out_ch (kd i) t = out_ch (kd i) (S (i, x)) \<Longrightarrow> channel I r kd (S((i, x) := t)) bs"
  by (auto simp: channel_def)

lemma channel_take:
  assumes "channel I r kd S (frame bs @ rest)" "length bs < 2 ^ 32"
  shows "(\<exists>i x m ms. i \<in> I \<and> bs = enc_msg i x m \<and> fits m \<and> out_ch (kd i) (S (i, x)) = m # ms \<and>
      (\<forall>t. out_ch (kd i) t = ms \<longrightarrow> channel I r kd (S((i, x) := t)) rest)) \<or>
    (\<exists>e. r \<and> length e < 2 ^ 31 + 100 \<and> bs = error_message e \<and> channel I r kd S rest)"
proof -
  obtain ms where ms: "carries_all I r (frame bs @ rest) ms" "\<forall>i \<in> I. \<forall>x. of_key (i, x) ms = out_ch (kd i) (S (i, x))"
    using assms(1) by (auto simp: channel_def)
  from carries_all_split [OF ms(1) refl assms(2)] show ?thesis
  proof (elim disjE exE conjE)
    fix i x m ms'
    assume m: "ms = ((i, x), m) # ms'" "bs = enc_msg i x m" "i \<in> I" "fits m" "carries_all I r rest ms'"
    have "out_ch (kd i) (S (i, x)) = m # of_key (i, x) ms'"
      using ms(2) m(1,3) by (metis of_key_simps(2))
    moreover have "channel I r kd (S((i, x) := t)) rest" if "out_ch (kd i) t = of_key (i, x) ms'" for t
      unfolding channel_def using ms(2) m(1,5) that by (intro exI [of _ ms']) (auto split: if_splits)
    ultimately show ?thesis
      using m by blast
  next
    fix e
    assume "r" "length e < 2 ^ 31 + 100" "bs = error_message e" "carries_all I r rest ms"
    then show ?thesis
      using ms(2) unfolding channel_def by blast
  qed
qed

section \<open>Steps of a process\<close>

text \<open>
  What both processes do with a message: the interface that the two dispatchers implement. \<open>rin\<close> and
  \<open>rout\<close> say whether the process gets reports and sends them.
\<close>

locale link_process =
  fixes message :: "('w, 'a) tunnel_op" and ready :: "('w, 'a) tunnel_scheme \<Rightarrow> bool" and rin rout :: bool
  assumes message_moves: "side kind i ack c x s \<Longrightarrow> ready s \<Longrightarrow> fits m \<Longrightarrow> end_expects kind m (view s c x) \<Longrightarrow>
      \<exists>s' ok out d err. message (with_incoming (enc_msg i x m) s) = Inr s' \<and>
        end_recv kind ok m (view s c x) = Some (view s' c x, out, d) \<and> outgoing s' = outgoing s @ err @ frames_of i x out \<and>
        (err = [] \<or> rout \<and> (\<exists>e. length e < 2 ^ 31 + 100 \<and> err = frame (error_message e))) \<and>
        (view s' c x \<noteq> Gone \<longrightarrow> held s' c x = held s c x @ d) \<and> side kind i ack c x s' \<and> keeps s s'"
    and message_touches: "side kind i ack c x s \<Longrightarrow> ready s \<Longrightarrow> alloc_ok s \<Longrightarrow>
      message (with_incoming (enc_msg i x m) s) = Inr s' \<Longrightarrow> touch c x (objs c x s) s s'"
    and report_taken: "rin \<Longrightarrow> length e < 2 ^ 31 + 100 \<Longrightarrow> \<exists>w. message (with_incoming (error_message e) s) = Inr ((with_incoming [] s)\<lparr>world := w\<rparr>)"
    and keeps_ready: "keeps s s' \<Longrightarrow> ready s \<Longrightarrow> ready s'"
begin

lemma end_recv_fits: "end_recv k ok m e = Some (e', out, d) \<Longrightarrow> list_all fits out"
  by (cases k) (auto dest: recv_fits)

text \<open>A message that arrives is taken without an exception, and the link it belongs to takes a step.\<close>

lemma message_step:
  assumes "tracks I kd ak cs S gi go s" "ready s" "all_reachable I ak S"
    "channel I rin (\<lambda>i. other_kind (kd i)) S (frame bs @ rest)" "length bs < 2 ^ 32" "channel I rout kd S (q @ outgoing s)"
  shows "\<exists>s' S'. message (with_incoming bs s) = Inr s' \<and> ready s' \<and> tracks I kd ak cs S' gi go s' \<and>
    channel I rin (\<lambda>i. other_kind (kd i)) S' rest \<and> channel I rout kd S' (q @ outgoing s') \<and> all_reachable I ak S' \<and> moved kd S S'"
  using channel_take [OF assms(4,5)]
proof (elim disjE exE conjE)
  fix i x m ms
  assume m: "i \<in> I" "bs = enc_msg i x m" "fits m" "out_ch (other_kind (kd i)) (S (i, x)) = m # ms"
    "\<forall>t. out_ch (other_kind (kd i)) t = ms \<longrightarrow> channel I rin (\<lambda>i. other_kind (kd i)) (S((i, x) := t)) rest"
  note here = tracksD(1) [OF assms(1) m(1)] tracksD(2-5) [OF assms(1) m(1), of x]
  have reach: "link_reachable (ak i) (S (i, x))"
    using assms(3) m(1) by (simp add: all_reachable_def)
  note inv = shape_reachable [OF reach] flowing_reachable [OF reach]
  have "end_expects (kd i) m (view s (cs i) x)"
    using role_expects [OF inv(1) m(4)] here(3) by simp
  note moves = message_moves [OF here(2) assms(2) m(3) this, unfolded here(3), folded m(2)]
  obtain s' ok out d err where s': "message (with_incoming bs s) = Inr s'"
      "end_recv (kd i) ok m (end_of (kd i) (S (i, x))) = Some (view s' (cs i) x, out, d)"
      "outgoing s' = outgoing s @ err @ frames_of i x out"
      "err = [] \<or> rout \<and> (\<exists>e. length e < 2 ^ 31 + 100 \<and> err = frame (error_message e))"
      "view s' (cs i) x \<noteq> Gone \<longrightarrow> held s' (cs i) x = held s (cs i) x @ d" "side (kd i) i (ak i) (cs i) x s'" "keeps s s'"
    using moves by metis
  obtain t where t: "link_step (ak i) (S (i, x)) t" "unseen (kd i) (S (i, x)) t" "end_of (kd i) t = view s' (cs i) x"
      "out_ch (other_kind (kd i)) t = ms" "out_ch (kd i) t = out_ch (kd i) (S (i, x)) @ out"
      "got_of (kd i) t = got_of (kd i) (S (i, x)) @ d" "sent_of (kd i) t = sent_of (kd i) (S (i, x))"
    using deliver_role [OF m(4) s'(2)] by blast
  have empty: "held s (cs i) x = []" if gone: "end_of (kd i) (S (i, x)) = Gone"
  proof -
    obtain u where "m_connections s (cs i) = Some u" "link_ok s (cs i) x"
      using here(2) by (auto simp: side_def)
    then show ?thesis
      using Gone_unlinked(2) gone here(3) by metis
  qed
  have touch: "touch (cs i) x (objs (cs i) x s) s s'"
    by (rule message_touches [OF here(2) assms(2) here(1)]) (use s'(1) m(2) in simp)
  have took: "took (got_of (kd i) t) (go (i, x)) (end_of (kd i) t) (held s' (cs i) x)"
    unfolding t(3,6) by (rule role_took [OF inv m(4) s'(2) here(5) s'(5) empty])
  have "tracks I kd ak cs (S((i, x) := t)) gi go s'"
    by (rule tracks_step [OF assms(1) m(1) touch s'(7,6)]) (use t(3,7) here(4) took in simp_all)
  moreover have "channel I rout kd (S((i, x) := t)) ((q @ outgoing s) @ err @ frames_of i x out)"
    by (rule channel_send [where kd = kd, OF assms(6) m(1) t(5) end_recv_fits [OF s'(2)] s'(4)])
  moreover have "all_reachable I ak (S((i, x) := t))"
    by (rule reachable_upd [OF assms(3)]) (rule link_reachable.step [OF reach t(1)])
  ultimately show ?thesis
    using s'(1,3) m(5) t(4) moved_upd [of kd i S x t, OF t(2)] keeps_ready [OF s'(7) assms(2)]
    by (intro exI [of _ s'] exI [of _ "S((i, x) := t)"]) simp
next
  fix e
  assume e: "rin" "length e < 2 ^ 31 + 100" "bs = error_message e" "channel I rin (\<lambda>i. other_kind (kd i)) S rest"
  obtain w where w: "message (with_incoming bs s) = Inr (s\<lparr>world := w\<rparr>)"
    using report_taken [OF e(1,2), of s] assms(1) e(3) incoming_simps(3) [of s] by (auto simp: tracks_def sides_def)
  have same: "outgoing (s\<lparr>world := w\<rparr>) = outgoing s" "drains [] s (s\<lparr>world := w\<rparr>)"
    by (simp_all add: drains_def outgoing_def incoming_def unsent_message_def poller_map_def)
  have "keeps s (s\<lparr>world := w\<rparr>)"
    by (simp add: keeps_def)
  then show ?thesis
    using w assms tracks_drains [OF assms(1) same(2)] same(1) e(4) keeps_ready [of s "s\<lparr>world := w\<rparr>"]
    by (intro exI [of _ "s\<lparr>world := w\<rparr>"] exI [of _ S]) simp
qed

end

interpretation local_process: link_process "StdioTunnelLocal_message os" "\<lambda>_. True" True False for os
proof unfold_locales
  show "\<exists>w. StdioTunnelLocal_message os (with_incoming (error_message e) s) = Inr ((with_incoming [] s)\<lparr>world := w\<rparr>)"
    if "length e < 2 ^ 31 + 100" for e s
    using local_report [OF that, of os s] by (auto simp: on_world_def)
qed (use local_message_moves local_message_touch in \<open>fastforce+\<close>)

interpretation remote_process: link_process "StdioTunnelRemote_message os" "\<lambda>s. r_state s = R_CONNECTED" False True for os
proof unfold_locales
  show "r_state s' = R_CONNECTED" if "keeps s s'" "r_state s = R_CONNECTED" for s s' :: "'a remote_tunnel"
    using that same_r_state [of s' s] by (simp add: keeps_def)
next
  fix kind i ack c x m
  fix s :: "'a remote_tunnel"
  assume "side kind i ack c x s" "r_state s = R_CONNECTED" "fits m" "end_expects kind m (view s c x)"
  from remote_message_moves [OF this, of os]
  show "\<exists>s' ok out d err. StdioTunnelRemote_message os (with_incoming (enc_msg i x m) s) = Inr s' \<and>
      end_recv kind ok m (view s c x) = Some (view s' c x, out, d) \<and> outgoing s' = outgoing s @ err @ frames_of i x out \<and>
      (err = [] \<or> True \<and> (\<exists>e. length e < 2 ^ 31 + 100 \<and> err = frame (error_message e))) \<and>
      (view s' c x \<noteq> Gone \<longrightarrow> held s' c x = held s c x @ d) \<and> side kind i ack c x s' \<and> keeps s s'"
    by simp metis
qed (use remote_message_touch in blast)+

text \<open>An event at a socket.\<close>

lemma event_step:
  assumes "tracks I kd ak cs S gi go s" "all_reachable I ak S" "i \<in> I" "bounded_io os" "link_event os (cs i) x s inp w s'"
    "channel I r kd S (q @ outgoing s)" "channel I r' (\<lambda>i. other_kind (kd i)) S bs"
  shows "\<exists>S'. tracks I kd ak cs S' (gi((i, x) := gi (i, x) @ inp)) (go((i, x) := go (i, x) @ w)) s' \<and>
    channel I r kd S' (q @ outgoing s') \<and> channel I r' (\<lambda>i. other_kind (kd i)) S' bs \<and> all_reachable I ak S' \<and> moved kd S S'"
proof -
  note here = tracksD(1) [OF assms(1,3)] tracksD(2-5) [OF assms(1,3), of x]
  obtain out where u: "side (kd i) i (ak i) (cs i) x s'" "end_event (ak i) inp (end_of (kd i) (S (i, x))) (view s' (cs i) x) out"
      "outgoing s' = outgoing s @ frames_of i x out" "held s (cs i) x = w @ held s' (cs i) x"
    using link_event_moves [OF assms(5,4) here(2)] here(3) by auto
  note out = end_event_out [OF u(2) fits_event [OF assms(5,4)]]
  obtain t where t: "t = S (i, x) \<or> link_step (ak i) (S (i, x)) t" "unseen (kd i) (S (i, x)) t" "end_of (kd i) t = view s' (cs i) x"
      "out_ch (other_kind (kd i)) t = out_ch (other_kind (kd i)) (S (i, x))" "out_ch (kd i) t = out_ch (kd i) (S (i, x)) @ out"
      "got_of (kd i) t = got_of (kd i) (S (i, x))" "sent_of (kd i) t = sent_of (kd i) (S (i, x)) @ inp"
    using event_role [OF u(2)] by blast
  have "tracks I kd ak cs (S((i, x) := t)) (gi((i, x) := gi (i, x) @ inp)) (go((i, x) := go (i, x) @ w)) s'"
    by (rule tracks_step [OF assms(1,3) link_event_touch [OF assms(5) here(2,1)] link_event_keeps [OF assms(5)] u(1)])
      (use t(3,6,7) here(4) took_event [OF here(5) u(4) out(2)] in simp_all)
  moreover have "channel I r kd (S((i, x) := t)) ((q @ outgoing s) @ [] @ frames_of i x out)"
    by (rule channel_send [where kd = kd, OF assms(6,3) t(5) out(1)]) simp
  moreover have "channel I r' (\<lambda>i. other_kind (kd i)) (S((i, x) := t)) bs"
    by (rule channel_still [OF assms(7)]) (rule t(4))
  moreover have "link_reachable (ak i) (S (i, x))"
    using assms(2,3) by (simp add: all_reachable_def)
  then have "all_reachable I ak (S((i, x) := t))"
    using t(1) link_reachable.step by (intro reachable_upd [OF assms(2)]) blast
  ultimately show ?thesis
    using u(3) moved_upd [of kd i S x t, OF t(2)] by (intro exI [of _ "S((i, x) := t)"]) simp
qed

text \<open>
  A client is accepted, and its number is free: the link that had it before, if any, is over at both ends.
\<close>

lemma shape_over: "shape t \<Longrightarrow> le t = Gone \<Longrightarrow> ce t = Gone \<Longrightarrow> lc t = [] \<and> cl t = []"
  by (auto simp: shape_def established_def half_def)

lemma accept_step:
  assumes "tracks I kd ak cs S gi go s" "all_reachable I ak S" "i \<in> I" "kd i = ListenSide"
    "m_connections s (cs i) = Some t" "x = to_short (m_next_id t)" "ListenSide_polled os (cs i) s = Inr s'"
    "view s (cs i) x = Gone" "end_of ConnectSide (S (i, x)) = Gone"
    "channel I r kd S (q @ outgoing s)" "channel I r' (\<lambda>i. other_kind (kd i)) S bs"
  shows "tracks I kd ak cs (S((i, x) := link_init)) (gi((i, x) := [])) (go((i, x) := [])) s'"
    "channel I r kd (S((i, x) := link_init)) (q @ outgoing s')" "channel I r' (\<lambda>i. other_kind (kd i)) (S((i, x) := link_init)) bs"
    "all_reachable I ak (S((i, x) := link_init))" "keeps s s'"
proof -
  note here = tracksD(1) [OF assms(1,3)] tracksD(2-5) [OF assms(1,3), of x]
  have "link_reachable (ak i) (S (i, x))"
    using assms(2,3) by (simp add: all_reachable_def)
  from shape_over [OF shape_reachable [OF this]] have over: "lc (S (i, x)) = []" "cl (S (i, x)) = []"
    using here(3) assms(4,8,9) by simp_all
  have "side ListenSide i (ak i) (cs i) x s"
    using here(2) assms(4) by simp
  note u = accept_side [OF this here(1) assms(8,5-7)]
  show "keeps s s'"
    by (rule u(5))
  show "tracks I kd ak cs (S((i, x) := link_init)) (gi((i, x) := [])) (go((i, x) := [])) s'"
    by (rule tracks_step [OF assms(1,3) u(6,5)]) (use u(1,2,4) assms(4) in \<open>simp_all add: link_init_def took_def\<close>)
  have "channel I r kd (S((i, x) := link_init)) ((q @ outgoing s) @ [] @ frames_of i x [MCreate])"
    by (rule channel_send [where kd = kd, OF assms(10,3)]) (use over assms(4) in \<open>simp_all add: link_init_def\<close>)
  then show "channel I r kd (S((i, x) := link_init)) (q @ outgoing s')"
    using u(3) by simp
  show "channel I r' (\<lambda>i. other_kind (kd i)) (S((i, x) := link_init)) bs"
    by (rule channel_still [OF assms(11)]) (use over assms(4) in \<open>simp add: link_init_def\<close>)
  show "all_reachable I ak (S((i, x) := link_init))"
    by (rule reachable_upd [OF assms(2) link_reachable.init])
qed

lemma accept_other:
  assumes "tracks I kd ak cs S gi go s" "kd i = ConnectSide" "view s (cs i) x = Gone"
  shows "tracks I kd ak cs (S((i, x) := link_init)) (gi((i, x) := [])) (go((i, x) := [])) s"
  using assms by (auto simp: tracks_def link_init_def took_def)

section \<open>The system\<close>

text \<open>
  The two processes, the bytes in the two pipes, and for every link and each of its ends what has been read
  from the socket and what has been written to it, since the link was made.
\<close>

record ('v, 'w) tunnel_net =
  nl :: "'v local_tunnel"
  nr :: "'w remote_tunnel"
  to_r :: bytes
  to_l :: bytes
  nl_in :: "key \<Rightarrow> bytes"
  nl_out :: "key \<Rightarrow> bytes"
  nr_in :: "key \<Rightarrow> bytes"
  nr_out :: "key \<Rightarrow> bytes"

definition fresh_key :: "key \<Rightarrow> ('v, 'w) tunnel_net \<Rightarrow> ('v, 'w) tunnel_net" where
  "fresh_key k p = p\<lparr>nl_in := (nl_in p)(k := []), nl_out := (nl_out p)(k := []),
     nr_in := (nr_in p)(k := []), nr_out := (nr_out p)(k := [])\<rparr>"

text \<open>\<open>s\<close> accepts a client for link \<open>x\<close>, whose number is free at both ends.\<close>

definition accepts ::
  "('w, 'o) net_posix_scheme \<Rightarrow> nat \<Rightarrow> short \<Rightarrow> ('w, 'a) tunnel_scheme \<Rightarrow> ('w, 'a) tunnel_scheme \<Rightarrow> bool" where
  "accepts os c x s s' \<longleftrightarrow> (\<exists>t. m_connections s c = Some t \<and> m_kind t = ListenSide \<and> x = to_short (m_next_id t)) \<and>
     view s c x = Gone \<and> ListenSide_polled os c s = Inr s'"

inductive net_step ::
  "('v, 'o) proc_posix_scheme \<Rightarrow> ('w, 'u) proc_posix_scheme \<Rightarrow> c_int set \<Rightarrow> (c_int \<Rightarrow> nat) \<Rightarrow> (c_int \<Rightarrow> nat) \<Rightarrow>
     ('v, 'w) tunnel_net \<Rightarrow> ('v, 'w) tunnel_net \<Rightarrow> bool" for osl osr I ca cb where
  l_quiet: "drains d (nl p) s \<Longrightarrow> net_step osl osr I ca cb p (p\<lparr>nl := s, to_r := to_r p @ d\<rparr>)"
| r_quiet: "drains d (nr p) s \<Longrightarrow> net_step osl osr I ca cb p (p\<lparr>nr := s, to_l := to_l p @ d\<rparr>)"
| l_event: "i \<in> I \<Longrightarrow> link_event osl (ca i) x (nl p) inp w s \<Longrightarrow> net_step osl osr I ca cb p
    (p\<lparr>nl := s, nl_in := (nl_in p)((i, x) := nl_in p (i, x) @ inp), nl_out := (nl_out p)((i, x) := nl_out p (i, x) @ w)\<rparr>)"
| r_event: "i \<in> I \<Longrightarrow> link_event osr (cb i) x (nr p) inp w s \<Longrightarrow> net_step osl osr I ca cb p
    (p\<lparr>nr := s, nr_in := (nr_in p)((i, x) := nr_in p (i, x) @ inp), nr_out := (nr_out p)((i, x) := nr_out p (i, x) @ w)\<rparr>)"
| l_accept: "i \<in> I \<Longrightarrow> accepts osl (ca i) x (nl p) s \<Longrightarrow> view (nr p) (cb i) x = Gone \<Longrightarrow>
    net_step osl osr I ca cb p ((fresh_key (i, x) p)\<lparr>nl := s\<rparr>)"
| r_accept: "i \<in> I \<Longrightarrow> accepts osr (cb i) x (nr p) s \<Longrightarrow> view (nl p) (ca i) x = Gone \<Longrightarrow>
    net_step osl osr I ca cb p ((fresh_key (i, x) p)\<lparr>nr := s\<rparr>)"
| l_message: "to_l p = frame bs @ rest \<Longrightarrow> length bs < 2 ^ 32 \<Longrightarrow> StdioTunnelLocal_message osl (with_incoming bs (nl p)) = Inr s \<Longrightarrow>
    net_step osl osr I ca cb p (p\<lparr>nl := s, to_l := rest\<rparr>)"
| r_message: "to_r p = frame bs @ rest \<Longrightarrow> length bs < 2 ^ 32 \<Longrightarrow> StdioTunnelRemote_message osr (with_incoming bs (nr p)) = Inr s \<Longrightarrow>
    net_step osl osr I ca cb p (p\<lparr>nr := s, to_r := rest\<rparr>)"

definition net_sim ::
  "c_int set \<Rightarrow> (c_int \<Rightarrow> connection_kind) \<Rightarrow> (c_int \<Rightarrow> bool) \<Rightarrow> (c_int \<Rightarrow> nat) \<Rightarrow> (c_int \<Rightarrow> nat) \<Rightarrow> (key \<Rightarrow> link_sys) \<Rightarrow>
     ('v, 'w) tunnel_net \<Rightarrow> bool" where
  "net_sim I kd ak ca cb S p \<longleftrightarrow> all_reachable I ak S \<and>
     tracks I kd ak ca S (nl_in p) (nl_out p) (nl p) \<and> tracks I (\<lambda>i. other_kind (kd i)) ak cb S (nr_in p) (nr_out p) (nr p) \<and>
     r_state (nr p) = R_CONNECTED \<and>
     channel I False kd S (to_r p @ outgoing (nl p)) \<and> channel I True (\<lambda>i. other_kind (kd i)) S (to_l p @ outgoing (nr p))"

lemma tracks_kind:
  assumes "tracks I kd ak cs S gi go s" "i \<in> I" "accepts os (cs i) x s s'"
  shows "kd i = ListenSide"
  using tracksD(2) [OF assms(1,2), of x] assms(3) by (auto simp: side_def accepts_def)

lemma net_sim_step:
  assumes "net_step osl osr I ca cb p q" "bounded_io osl" "bounded_io osr" "net_sim I kd ak ca cb S p"
  shows "\<exists>S'. net_sim I kd ak ca cb S' q"
proof -
  let ?kr = "\<lambda>i. other_kind (kd i)"
  have sim: "all_reachable I ak S" "tracks I kd ak ca S (nl_in p) (nl_out p) (nl p)" "tracks I ?kr ak cb S (nr_in p) (nr_out p) (nr p)"
    "r_state (nr p) = R_CONNECTED" "channel I False kd S (to_r p @ outgoing (nl p))" "channel I True ?kr S (to_l p @ outgoing (nr p))"
    using assms(4) by (simp_all add: net_sim_def)
  have twice: "(\<lambda>i. other_kind (other_kind (kd i))) = kd"
    by simp
  from assms(1) show ?thesis
  proof cases
    case (l_quiet d s)
    have "outgoing (nl p) = d @ outgoing s"
      using l_quiet(2) by (simp add: drains_def)
    then have "net_sim I kd ak ca cb S q"
      using sim tracks_drains [OF sim(2) l_quiet(2)] by (simp add: net_sim_def l_quiet(1))
    then show ?thesis by blast
  next
    case (r_quiet d s)
    have "outgoing (nr p) = d @ outgoing s" "r_state s = r_state (nr p)"
      using r_quiet(2) same_r_state [of s "nr p"] by (simp_all add: drains_def)
    then have "net_sim I kd ak ca cb S q"
      using sim tracks_drains [OF sim(3) r_quiet(2)] by (simp add: net_sim_def r_quiet(1))
    then show ?thesis by blast
  next
    case (l_event i x inp w s)
    show ?thesis
      using event_step [OF sim(2,1) l_event(2) assms(2) l_event(3) sim(5,6)] tracks_moved [OF sim(3)] sim(4)
      by (auto simp: net_sim_def l_event(1))
  next
    case (r_event i x inp w s)
    have "r_state s = R_CONNECTED"
      using link_event_keeps [OF r_event(3)] remote_process.keeps_ready sim(4) by blast
    then show ?thesis
      using event_step [where kd = ?kr, OF sim(3,1) r_event(2) assms(3) r_event(3) sim(6), unfolded twice, OF sim(5)]
        tracks_moved [where kd = ?kr, unfolded twice, OF sim(2)]
      by (auto simp: net_sim_def r_event(1))
  next
    case (l_accept i x s)
    then obtain t where t: "m_connections (nl p) (ca i) = Some t" "x = to_short (m_next_id t)" "ListenSide_polled osl (ca i) (nl p) = Inr s"
        "view (nl p) (ca i) x = Gone"
      by (auto simp: accepts_def)
    have k: "kd i = ListenSide" "?kr i = ConnectSide"
      using tracks_kind [OF sim(2) l_accept(2,3)] by simp_all
    have gone: "end_of ConnectSide (S (i, x)) = Gone"
      using tracksD(3) [OF sim(3) l_accept(2), of x] l_accept(4) k(2) by simp
    note a = accept_step [OF sim(2,1) l_accept(2) k(1) t gone sim(5,6)]
    have "net_sim I kd ak ca cb (S((i, x) := link_init)) q"
      using a accept_other [OF sim(3) k(2) l_accept(4)] sim(4) by (simp add: net_sim_def l_accept(1) fresh_key_def)
    then show ?thesis by blast
  next
    case (r_accept i x s)
    then obtain t where t: "m_connections (nr p) (cb i) = Some t" "x = to_short (m_next_id t)" "ListenSide_polled osr (cb i) (nr p) = Inr s"
        "view (nr p) (cb i) x = Gone"
      by (auto simp: accepts_def)
    have k: "?kr i = ListenSide" "kd i = ConnectSide"
      using tracks_kind [OF sim(3) r_accept(2,3)] by (cases "kd i"; simp)+
    have gone: "end_of ConnectSide (S (i, x)) = Gone"
      using tracksD(3) [OF sim(2) r_accept(2), of x] r_accept(4) k(2) by simp
    note a = accept_step [where kd = ?kr, OF sim(3,1) r_accept(2) k(1) t gone sim(6), unfolded twice, OF sim(5)]
    have "r_state s = R_CONNECTED"
      using a(5) remote_process.keeps_ready sim(4) by blast
    then have "net_sim I kd ak ca cb (S((i, x) := link_init)) q"
      using a accept_other [OF sim(2) k(2) r_accept(4)] by (simp add: net_sim_def r_accept(1) fresh_key_def)
    then show ?thesis by blast
  next
    case (l_message bs rest s)
    have "channel I True ?kr S (frame bs @ rest @ outgoing (nr p))"
      using sim(6) l_message(2) by simp
    from local_process.message_step [OF sim(2) TrueI sim(1) this l_message(3) sim(5), of osl]
    show ?thesis
      using l_message(4) tracks_moved [OF sim(3)] sim(4) by (auto simp: net_sim_def l_message(1))
  next
    case (r_message bs rest s)
    have "channel I False (\<lambda>i. other_kind (?kr i)) S (frame bs @ rest @ outgoing (nl p))"
      using sim(5) r_message(2) by simp
    from remote_process.message_step [OF sim(3,4,1) this r_message(3) sim(6), of osr]
    show ?thesis
      using r_message(4) tracks_moved [where kd = ?kr, unfolded twice, OF sim(2)] unfolding twice by (auto simp: net_sim_def r_message(1))
  qed
qed

section \<open>What comes out\<close>

text \<open>
  Two connected processes before the first client: every connection of \<open>I\<close> is there at both ends, with
  the ends of opposite kinds, no link is, and nothing is on its way.
\<close>

definition net_start ::
  "c_int set \<Rightarrow> (c_int \<Rightarrow> connection_kind) \<Rightarrow> (c_int \<Rightarrow> bool) \<Rightarrow> (c_int \<Rightarrow> nat) \<Rightarrow> (c_int \<Rightarrow> nat) \<Rightarrow> ('v, 'w) tunnel_net \<Rightarrow> bool" where
  "net_start I kd ak ca cb p \<longleftrightarrow> sides I kd ak ca (nl p) \<and> sides I (\<lambda>i. other_kind (kd i)) ak cb (nr p) \<and> r_state (nr p) = R_CONNECTED \<and>
     (\<forall>i \<in> I. \<forall>x. view (nl p) (ca i) x = Gone \<and> view (nr p) (cb i) x = Gone) \<and>
     to_r p @ outgoing (nl p) = [] \<and> to_l p @ outgoing (nr p) = [] \<and>
     (\<forall>k. nl_in p k = [] \<and> nl_out p k = [] \<and> nr_in p k = [] \<and> nr_out p k = [])"

text \<open>A link that is over is a reachable one: its request has failed.\<close>

definition link_over :: link_sys where
  "link_over = link_init\<lparr>le := Gone, lc := []\<rparr>"

lemma link_over_reachable: "link_reachable ack link_over"
proof -
  let ?t = "link_init\<lparr>lc := [], cl := [MFailure]\<rparr>"
  have "link_step ack link_init ?t"
    using link_step.deliver [OF link_deliver.to_connect [of link_init MCreate "[]" False Gone "[MFailure]" "[]"], of ack]
    by (simp add: link_init_def)
  moreover have "link_step ack ?t link_over"
    using link_step.deliver [OF link_deliver.to_listen [of ?t MFailure "[]" Gone "[]" "[]"], of ack]
    by (simp add: link_init_def link_over_def)
  ultimately show ?thesis
    by (meson link_reachable.intros)
qed

lemma start_sim: "net_start I kd ak ca cb p \<Longrightarrow> net_sim I kd ak ca cb (\<lambda>_. link_over) p"
proof -
  assume p: "net_start I kd ak ca cb p"
  have ends: "end_of k link_over = Gone" "sent_of k link_over = []" "got_of k link_over = []" "out_ch k link_over = []" for k
    by (cases k; simp add: link_over_def link_init_def)+
  show ?thesis
    using p link_over_reachable
    by (auto simp: net_start_def net_sim_def all_reachable_def tracks_def channel_def took_def ends
        intro!: exI [of _ "[]"] carries_all.nothing)
qed

lemma net_reachable:
  assumes "(net_step osl osr I ca cb)\<^sup>*\<^sup>* p q" "net_start I kd ak ca cb p" "bounded_io osl" "bounded_io osr"
  shows "\<exists>S. net_sim I kd ak ca cb S q"
  using assms(1)
proof (induction rule: rtranclp_induct)
  case base
  then show ?case
    using start_sim [OF assms(2)] by blast
next
  case (step q q')
  then show ?case
    using net_sim_step [OF step(2) assms(3,4)] by blast
qed

text \<open>What an end has written to its socket, and what is still to come while it is open.\<close>

lemma channel_delivers:
  assumes "all_reachable I ak S" "i \<in> I" "tracks I kd ak ca S gi go s" "tracks I (\<lambda>i. other_kind (kd i)) ak cb S hi ho u"
    "channel I r kd S bs"
  shows "\<exists>rest. gi (i, x) = ho (i, x) @ rest"
    "is_open (view u (cb i) x) \<Longrightarrow> \<exists>ms. carries_all I r bs ms \<and> gi (i, x) = ho (i, x) @ held u (cb i) x @ data_of (of_key (i, x) ms)"
proof -
  have "link_reachable (ak i) (S (i, x))"
    using assms(1,2) by (simp add: all_reachable_def)
  note f = role_flows [OF flowing_reachable [OF this], of "kd i"]
  note here = tracksD(3-5) [OF assms(4,2), of x] and there = tracksD(4) [OF assms(3,2), of x]
  obtain ms where ms: "carries_all I r bs ms" "of_key (i, x) ms = out_ch (kd i) (S (i, x))"
    using assms(2,5) by (auto simp: channel_def)
  note d = took_flows [OF f here(3)]
  show "\<exists>rest. gi (i, x) = ho (i, x) @ rest"
    using d(1) there by simp
  show "\<exists>ms. carries_all I r bs ms \<and> gi (i, x) = ho (i, x) @ held u (cb i) x @ data_of (of_key (i, x) ms)"
    if "is_open (view u (cb i) x)"
    using d(2) that here(1) there ms by auto
qed

lemma net_sound:
  assumes "net_start I kd ak ca cb p" "bounded_io osl" "bounded_io osr" "(net_step osl osr I ca cb)\<^sup>*\<^sup>* p q" "i \<in> I"
  shows "(\<exists>rest. nl_in q (i, x) = nr_out q (i, x) @ rest) \<and> (\<exists>rest. nr_in q (i, x) = nl_out q (i, x) @ rest) \<and>
    (is_open (view (nr q) (cb i) x) \<longrightarrow> (\<exists>ms. carries_all I False (to_r q @ outgoing (nl q)) ms \<and>
       nl_in q (i, x) = nr_out q (i, x) @ held (nr q) (cb i) x @ data_of (of_key (i, x) ms))) \<and>
    (is_open (view (nl q) (ca i) x) \<longrightarrow> (\<exists>ms. carries_all I True (to_l q @ outgoing (nr q)) ms \<and>
       nr_in q (i, x) = nl_out q (i, x) @ held (nl q) (ca i) x @ data_of (of_key (i, x) ms))) \<and>
    (\<forall>bs rest. length bs < 2 ^ 32 \<longrightarrow>
       (to_l q = frame bs @ rest \<longrightarrow> (\<exists>u. StdioTunnelLocal_message osl (with_incoming bs (nl q)) = Inr u)) \<and>
       (to_r q = frame bs @ rest \<longrightarrow> (\<exists>u. StdioTunnelRemote_message osr (with_incoming bs (nr q)) = Inr u)))"
proof -
  let ?kr = "\<lambda>i. other_kind (kd i)"
  obtain S where S: "net_sim I kd ak ca cb S q"
    using net_reachable [OF assms(4,1-3)] by blast
  then have sim: "all_reachable I ak S" "tracks I kd ak ca S (nl_in q) (nl_out q) (nl q)"
    "tracks I ?kr ak cb S (nr_in q) (nr_out q) (nr q)" "r_state (nr q) = R_CONNECTED"
    "channel I False kd S (to_r q @ outgoing (nl q))" "channel I True ?kr S (to_l q @ outgoing (nr q))"
    by (simp_all add: net_sim_def)
  have sym: "tracks I (\<lambda>i. other_kind (?kr i)) ak ca S (nl_in q) (nl_out q) (nl q)" "channel I False (\<lambda>i. other_kind (?kr i)) S (to_r q @ outgoing (nl q))"
    using sim(2,5) by simp_all
  have l: "\<exists>u. StdioTunnelLocal_message osl (with_incoming bs (nl q)) = Inr u" if "to_l q = frame bs @ rest" "length bs < 2 ^ 32" for bs rest
    using local_process.message_step [OF sim(2) TrueI sim(1) _ that(2) sim(5), of "rest @ outgoing (nr q)" osl] sim(6) that(1) by auto
  have r: "\<exists>u. StdioTunnelRemote_message osr (with_incoming bs (nr q)) = Inr u" if "to_r q = frame bs @ rest" "length bs < 2 ^ 32" for bs rest
    using remote_process.message_step [OF sim(3,4,1) _ that(2) sim(6), of "rest @ outgoing (nl q)" osr] sym(2) that(1) by auto
  show ?thesis
    using channel_delivers [OF sim(1) assms(5) sim(2,3,5), of x] channel_delivers [where kd = ?kr, OF sim(1) assms(5) sim(3) sym(1) sim(6), of x] l r
    by blast
qed

text \<open>C3: Two connected processes and all links of all their connections, whichever side listens, in any order of
  accepting clients, reading, writing and breaking sockets, writing packets and handling messages, with the
  messages of all links in the same two pipes, a client being taken only under a link number that is free at both
  ends and a socket of a link with acknowledgements being read only while the link is acknowledged: what has
  been written to the socket at one end of a link is a prefix of what was read from the socket at its other end, and while an end is open nothing is missing but
  what it holds for its socket and what is on its way. No link gets anything of another. And no message
  that arrives makes its handler throw.\<close>

theorem net_delivers:
  assumes "net_start I kd ak ca cb p" "bounded_io osl" "bounded_io osr" "(net_step osl osr I ca cb)\<^sup>*\<^sup>* p q" "i \<in> I"
  shows "(\<exists>rest. nl_in q (i, x) = nr_out q (i, x) @ rest) \<and> (\<exists>rest. nr_in q (i, x) = nl_out q (i, x) @ rest) \<and>
    (is_open (view (nr q) (cb i) x) \<longrightarrow> (\<exists>ms. carries_all I False (to_r q @ outgoing (nl q)) ms \<and>
       nl_in q (i, x) = nr_out q (i, x) @ held (nr q) (cb i) x @ data_of (of_key (i, x) ms))) \<and>
    (is_open (view (nl q) (ca i) x) \<longrightarrow> (\<exists>ms. carries_all I True (to_l q @ outgoing (nr q)) ms \<and>
       nr_in q (i, x) = nl_out q (i, x) @ held (nl q) (ca i) x @ data_of (of_key (i, x) ms))) \<and>
    (\<forall>bs rest. length bs < 2 ^ 32 \<longrightarrow>
       (to_l q = frame bs @ rest \<longrightarrow> (\<exists>u. StdioTunnelLocal_message osl (with_incoming bs (nl q)) = Inr u)) \<and>
       (to_r q = frame bs @ rest \<longrightarrow> (\<exists>u. StdioTunnelRemote_message osr (with_incoming bs (nr q)) = Inr u)))"
  by (rule net_sound [OF assms])

text \<open>
  A pair of processes on a system with two pipes and two connections between them, one that listens on the
  local side and one that listens on the remote side.
\<close>

definition demo_net :: "(pipe_world, pipe_world) tunnel_net" where
  "demo_net = \<lparr>nl = with_incoming [] demo_l\<lparr>m_connection_map := [(0, 0), (1, 1)],
       m_connections := [0 \<mapsto> ListenSide_new demo_spec 0, 1 \<mapsto> ConnectSide_new demo_spec 1], m_next_obj := 2\<rparr>,
     nr = with_incoming [] demo_r\<lparr>r_state := R_CONNECTED, m_connection_map := [(0, 0), (1, 1)],
       m_connections := [0 \<mapsto> ConnectSide_new demo_spec 0, 1 \<mapsto> ListenSide_new demo_spec 1], m_next_obj := 2\<rparr>,
     to_r = [], to_l = [], nl_in = (\<lambda>_. []), nl_out = (\<lambda>_. []), nr_in = (\<lambda>_. []), nr_out = (\<lambda>_. [])\<rparr>"

definition demo_kind :: "c_int \<Rightarrow> connection_kind" where
  "demo_kind i = (if i = 0 then ListenSide else ConnectSide)"

lemma demo_net_start: "net_start {0, 1} demo_kind (\<lambda>_. True) nat nat demo_net"
proof -
  have spec: "has_flag ACK_PACKETS demo_spec" "length (m_connect_host demo_spec) < 2 ^ 31"
    by (simp_all add: demo_spec_def has_flag_def ACK_PACKETS_def)
  let ?l = "nl demo_net" and ?r = "nr demo_net"
  have heap: "m_links ?l = Map.empty" "m_links ?r = Map.empty" "poller_map ?l = Map.empty" "poller_map ?r = Map.empty"
    "m_connections ?l = [0 \<mapsto> ListenSide_new demo_spec 0, 1 \<mapsto> ConnectSide_new demo_spec 1]"
    "m_connections ?r = [0 \<mapsto> ConnectSide_new demo_spec 0, 1 \<mapsto> ListenSide_new demo_spec 1]"
    "m_connection_map ?l = [(0, 0), (1, 1)]" "m_connection_map ?r = [(0, 0), (1, 1)]"
    "m_writer_attached ?l" "m_writer_attached ?r" "incoming ?l = []" "incoming ?r = []" "r_state ?r = R_CONNECTED"
    by (simp_all add: demo_net_def demo_sides with_incoming_def incoming_def poller_map_def fun_eq_iff)
  have stream: "unsent_message ?l = []" "unsent_message ?r = []" "outgoing ?l = []" "outgoing ?r = []"
    by (simp_all add: demo_net_def demo_sides with_incoming_def unsent_message_def outgoing_def ws_pending_def WriteStream_new_def)
  have gone: "view ?l c x = Gone" "view ?r c x = Gone" "c < 2 \<Longrightarrow> \<forall>x. link_ok ?l c x" "c < 2 \<Longrightarrow> \<forall>x. link_ok ?r c x" for c x
    by (auto simp: view_def link_ok_def heap ListenSide_new_def ConnectSide_new_def less_2_cases_iff)
  have code: "of_short (to_short 0) = 0" "of_short (to_short 1) = 1"
    by (simp_all add: of_to_short_small)
  have "alloc_ok ?l" "alloc_ok ?r"
    by (simp_all add: alloc_ok_def heap)
  then have "sides {0, 1} demo_kind (\<lambda>_. True) nat ?l" "sides {0, 1} (\<lambda>i. other_kind (demo_kind i)) (\<lambda>_. True) nat ?r"
    using spec gone(3,4) [of 0] gone(3,4) [of 1] code
    by (simp_all add: sides_def side_def heap stream demo_kind_def ListenSide_new_def ConnectSide_new_def)
  then show ?thesis
    using gone(1,2) by (simp add: net_start_def heap stream) (simp add: demo_net_def)
qed

text \<open>A client is accepted on the local side, and the packet that asks for its link goes out.\<close>

lemma accept_run:
  fixes p :: "(pipe_world, pipe_world) tunnel_net"
  assumes "net_start I kd ak ca cb p" "i \<in> I" "kd i = ListenSide" "m_connections (nl p) (ca i) = Some t" "x = to_short (m_next_id t)"
  shows "\<exists>s q. ListenSide_polled (pipe_proc 40) (ca i) (nl p) = Inr s \<and>
    (net_step (pipe_proc 40) (pipe_proc 40) I ca cb)\<^sup>*\<^sup>* p q \<and> to_r q = frame (enc_msg i x MCreate)"
proof -
  let ?step = "net_step (pipe_proc 40) (pipe_proc 40) I ca cb" and ?l = "nl p"
  have view: "view ?l (ca i) x = Gone" "view (nr p) (cb i) x = Gone" "outgoing ?l = []" "to_r p = []"
    and side: "side ListenSide i (ak i) (ca i) x ?l" and alloc: "alloc_ok ?l"
    using assms(1-3) by (auto simp: net_start_def sides_def dest!: bspec)
  have k: "m_kind t = ListenSide"
    using side assms(4) by (simp add: side_def)
  have sys: "sys_accept (pipe_proc 40) f w = (Inr 20, w)" "sys_nonblock (pipe_proc 40) f w = (Inr (), w)" for f w
    by (simp_all add: pipe_proc_def pipe_net_def net_posix.extend_def posix.extend_def)
  have ok: "link_ok ?l (ca i) x" "m_writer_attached ?l" "unsent_message ?l = []" "poller_map ?l (P_Link (m_next_obj ?l), 20) = None"
    using side alloc by (simp_all add: side_def alloc_ok_def)
  obtain s where s: "ListenSide_polled (pipe_proc 40) (ca i) ?l = Inr s"
    using accept_moves [OF assms(4) k ok(1) view(1) assms(5) ok(2,3) sys ok(4)] by blast
  note a = accept_side [OF side alloc view(1) assms(4,5) s]
  have "accepts (pipe_proc 40) (ca i) x ?l s"
    using s assms(4,5) k view(1) by (simp add: accepts_def)
  from net_step.l_accept [where ca = ca and cb = cb and i = i and p = p, OF assms(2) this view(2)]
  have 1: "?step p ((fresh_key (i, x) p)\<lparr>nl := s\<rparr>)" .
  let ?q = "(fresh_key (i, x) p)\<lparr>nl := s\<rparr>" and ?s = "s\<lparr>m_write_stream := WriteStream_new\<rparr>"
  have "drains (outgoing s) (nl ?q) ?s"
    using a(1) by (simp add: drains_def side_def outgoing_def unsent_message_def incoming_def poller_map_def ws_pending_def
        WriteStream_new_def)
  from net_step.l_quiet [OF this] have 2: "?step ?q (?q\<lparr>nl := ?s, to_r := to_r ?q @ outgoing s\<rparr>)" .
  have "to_r ?q @ outgoing s = frame (enc_msg i x MCreate)"
    using a(3) view(3,4) by (simp add: fresh_key_def)
  then show ?thesis
    using s 1 2 by (intro exI [of _ s] exI [of _ "?q\<lparr>nl := ?s, to_r := to_r ?q @ outgoing s\<rparr>"] conjI) simp_all
qed

theorem net_delivers_witness:
  "\<exists>s u q. ListenSide_polled (pipe_proc 40) 0 (nl demo_net) = Inr s \<and>
     (net_step (pipe_proc 40) (pipe_proc 40) {0, 1} nat nat)\<^sup>*\<^sup>* demo_net q \<and> to_r q = frame (enc_msg 0 501 MCreate) \<and>
     StdioTunnelRemote_message (pipe_proc 40) (with_incoming (enc_msg 0 501 MCreate) (nr q)) = Inr u \<and>
     (\<exists>rest. nl_in q (0, 501) = nr_out q (0, 501) @ rest)"
proof -
  have t: "m_connections (nl demo_net) (nat 0) = Some (ListenSide_new demo_spec 0)" "501 = to_short (m_next_id (ListenSide_new demo_spec 0))"
    by (simp_all add: demo_net_def ListenSide_new_def to_short_def)
  obtain s q where q: "ListenSide_polled (pipe_proc 40) (nat 0) (nl demo_net) = Inr s"
      "(net_step (pipe_proc 40) (pipe_proc 40) {0, 1} nat nat)\<^sup>*\<^sup>* demo_net q" "to_r q = frame (enc_msg 0 501 MCreate)"
    using accept_run [OF demo_net_start _ _ t] by (auto simp: demo_kind_def)
  have short: "length (enc_msg 0 501 MCreate) < 2 ^ 32" "to_r q = frame (enc_msg 0 501 MCreate) @ []"
    using q(3) enc_msg_short [of MCreate 0 501] by simp_all
  note d = net_delivers [OF demo_net_start pipe_bounded pipe_bounded q(2), of 0 501]
  obtain u where "StdioTunnelRemote_message (pipe_proc 40) (with_incoming (enc_msg 0 501 MCreate) (nr q)) = Inr u"
    using d short by blast
  then show ?thesis
    using q d by (intro exI [of _ s] exI [of _ u] exI [of _ q] conjI) simp_all
qed

end
