(* ===== verification/Tunnel_Session.thy ===== *)
theory Tunnel_Session
  imports Tunnel_Net
begin

text \<open>
  A whole session: the handshake of two processes leaves them in the state from which \<open>Tunnel_Net\<close>
  follows their links, with the connections the command line of the local side asked for.
\<close>

section \<open>No links yet\<close>

definition unlinked :: "('w, 'a) tunnel_scheme \<Rightarrow> bool" where
  "unlinked s \<longleftrightarrow> m_links s = Map.empty \<and> (\<forall>b f. poller_map s (P_Link b, f) = None) \<and>
     (\<forall>c t. m_connections s c = Some t \<longrightarrow> m_link_map t = Map.empty)"

lemma unlinked_same:
  assumes "unlinked s" "m_links u = m_links s" "m_connections u = m_connections s"
    "\<And>b f. poller_map u (P_Link b, f) = None \<longleftrightarrow> poller_map s (P_Link b, f) = None"
  shows "unlinked u"
  using assms by (simp add: unlinked_def)

text \<open>What a connection of a process has to be.\<close>

definition has_connection ::
  "connection_kind \<Rightarrow> c_int \<Rightarrow> bool \<Rightarrow> nat \<Rightarrow> ('w, 'a) tunnel_scheme \<Rightarrow> bool" where
  "has_connection kind i ack c s \<longleftrightarrow> map_find i (m_connection_map s) = Some c \<and>
     (\<exists>t. m_connections s c = Some t \<and> m_kind t = kind \<and> tc_id t = i \<and> has_flag ACK_PACKETS (m_spec t) = ack \<and>
        length (m_connect_host (m_spec t)) < 2 ^ 31)"

lemma unlinked_sides:
  assumes "unlinked s" "m_writer_attached s" "unsent_message s = []" "incoming s = []"
    "\<And>i. i \<in> I \<Longrightarrow> has_connection (kd i) i (ak i) (cs i) s \<and> -32768 \<le> i \<and> i < 32768"
  shows "sides I kd ak cs s" "\<forall>i \<in> I. \<forall>x. view s (cs i) x = Gone"
proof -
  have "alloc_ok s"
    using assms(1) by (simp add: unlinked_def alloc_ok_def)
  moreover have "link_ok s (cs i) x" "view s (cs i) x = Gone" if "i \<in> I" for i x
    using assms(1) assms(5) [OF that] by (auto simp: unlinked_def has_connection_def link_ok_def view_def split: option.splits)
  moreover have "of_short (to_short i) = i" if "i \<in> I" for i
    using assms(5) [OF that] by (simp add: of_to_short_small)
  ultimately show "sides I kd ak cs s" "\<forall>i \<in> I. \<forall>x. view s (cs i) x = Gone"
    using assms by (auto simp: sides_def side_def has_connection_def)
qed

section \<open>The local side\<close>

lemma startHandshaking_heap:
  assumes "StdioTunnelLocal_startHandshaking os s = Inr t" "table_alive s"
  shows "m_links t = m_links s" "m_connections t = m_connections s" "m_connection_map t = m_connection_map s"
    "m_writer_attached t" "incoming t = incoming s"
    "\<And>b f. poller_map t (P_Link b, f) = None \<longleftrightarrow> poller_map s (P_Link b, f) = None"
proof -
  let ?s = "s\<lparr>l_state := L_HAND_SHAKE, m_write_buffer := SockBuffer_clear (m_write_buffer s)\<rparr>"
  let ?h = "\<lambda>u. (m_links u, m_connections u, m_connection_map u, m_writer_attached u, incoming u,
    \<lambda>b f. poller_map u (P_Link b, f) = None)"
  obtain u where u: "CustomWriteStream_send (put_bytes (handshake_message (table_of s (m_connection_map s))) ?s) = Inr u"
      "bindE (Inr u) (\<lambda>s. let s = Poller_removePolled P_Tunnel STDIN_FD s;
          s = (if m_is_terminal s
               then on_world (sys_tcsetattr os STDIN_FD (raw_with_signals (m_termios s))) s else s)
      in if m_daemon s
         then daemon os (on_world (sys_cerr os ''Keep running daemon in background ...'') s)
         else Inr s) = Inr t"
    using assms(1) unfolding startHandshaking_eq [OF assms(2)]
    by (cases "CustomWriteStream_send (put_bytes (handshake_message (table_of s (m_connection_map s))) ?s)") auto
  have s: "?h ?s = ?h s"
    by (simp add: incoming_def poller_map_def)
  have send_same: "?h u = ?h ?s" "m_writer_attached u"
    using u(1) registered_send [OF u(1)]
    by (auto simp: CustomWriteStream_send_def put_bytes_def writing_def incoming_def poller_map_def Poller_setEvents_def Let_def
        split: if_splits option.splits)
  have daemon_same: "?h y = ?h x" if "daemon os x = Inr y" for x y :: "'a local_tunnel"
    using that
    by (auto simp: daemon_def Let_def syscall_def on_world_def incoming_def poller_map_def split: prod.splits sum.splits if_splits)
  have world_same: "?h (on_world g x) = ?h x" for g and x :: "'a local_tunnel"
    by (simp add: on_world_def incoming_def poller_map_def)
  have removed_same: "?h (Poller_removePolled P_Tunnel f x) = ?h x" for f and x :: "'a local_tunnel"
    using removePolled_map_other [of "(P_Link b, g)" P_Tunnel f x for b g]
    by (simp add: Poller_removePolled_def incoming_def Let_def split: option.splits)
  let ?v = "Poller_removePolled P_Tunnel STDIN_FD u"
  let ?w = "if m_is_terminal ?v then on_world (sys_tcsetattr os STDIN_FD (raw_with_signals (m_termios ?v))) ?v else ?v"
  have w: "?h ?w = ?h u"
    using world_same [of _ ?v] removed_same [of STDIN_FD u] by (cases "m_is_terminal ?v") simp_all
  have "?h t = ?h u"
  proof (cases "m_daemon ?w")
    case True
    then have "daemon os (on_world (sys_cerr os ''Keep running daemon in background ...'') ?w) = Inr t"
      using u(2) unfolding Let_def by simp
    from daemon_same [OF this] world_same [of _ ?w] w show ?thesis
      by metis
  next
    case False
    then have "t = ?w"
      using u(2) unfolding Let_def by simp
    then show ?thesis
      using w by simp
  qed
  then have "?h t = ?h s \<and> m_writer_attached t"
    using send_same s by simp
  then show "m_links t = m_links s" "m_connections t = m_connections s" "m_connection_map t = m_connection_map s"
    "m_writer_attached t" "incoming t = incoming s"
    "\<And>b f. poller_map t (P_Link b, f) = None \<longleftrightarrow> poller_map s (P_Link b, f) = None"
    by (auto simp: fun_eq_iff)
qed

section \<open>The remote side\<close>

abbreviation unlinked_ok :: "('w, 'a) tunnel_scheme res \<Rightarrow> bool" where
  "unlinked_ok \<equiv> res_ok (\<lambda>_. True) unlinked"

abbreviation unlinked_pair_ok :: "('x \<times> ('w, 'a) tunnel_scheme) res \<Rightarrow> bool" where
  "unlinked_pair_ok \<equiv> res_ok (\<lambda>_. True) (\<lambda>(_, s). unlinked s)"

lemma unlinked_prims [simp]:
  "unlinked (s\<lparr>world := w\<rparr>) = unlinked s" "unlinked (on_world g s) = unlinked s" "unlinked (s\<lparr>m_next_obj := n\<rparr>) = unlinked s"
  "unlinked (s\<lparr>m_connection_map := m\<rparr>) = unlinked s" "unlinked (s\<lparr>m_read_stream := r\<rparr>) = unlinked s"
  by (simp_all add: unlinked_def on_world_def poller_map_def)

lemma unlinked_poll:
  "unlinked s \<Longrightarrow> (\<And>a. p \<noteq> P_Link a) \<Longrightarrow>
     unlinked (s\<lparr>m_polled := m_polled s @ [\<lparr>e_addr = n, e_polled = p, e_pollfd = ps\<rparr>], m_next_addr := k\<rparr>)"
  by (auto simp: unlinked_def poller_map_def unregistered_append)

lemma reading_unlinked: "unlinked s \<Longrightarrow> unlinked_pair_ok (reading g s)"
  by (auto simp: reading_def exn_simps bindE_def split: sum.splits)

lemma put_connection_unlinked:
  "unlinked s \<Longrightarrow> m_link_map t = Map.empty \<Longrightarrow> unlinked (put_connection c t s)"
  by (simp add: unlinked_def put_connection_def poller_map_def)

lemma initialize_unlinked:
  assumes "ListenSide_initialize os t s = Inr (ok, u, s')"
  shows "m_link_map u = m_link_map t \<and> (\<exists>w. s' = s\<lparr>world := w\<rparr>)"
  using assms by (auto simp: ListenSide_initialize_def syscall_def Let_def split: prod.splits sum.splits)

lemma create_unlinked:
  assumes "unlinked s"
  shows "unlinked_pair_ok (TunnelConnection_CreateConnection os sp loc i s)"
proof -
  have "unlinked_pair_ok (bindE (Poller_addPolled (\<lambda>_. ListenSide_setPollfd c) (P_Listen c)
      (put_connection c t (s\<lparr>world := w, m_next_obj := n\<rparr>))) (\<lambda>s. Inr (Some c, s)))" if "m_link_map t = Map.empty" for c t w n
  proof -
    have "unlinked (put_connection c t (s\<lparr>world := w, m_next_obj := n\<rparr>))"
      using assms that by (simp add: put_connection_unlinked)
    from unlinked_poll [OF this] show ?thesis
      by (simp add: Poller_addPolled_def ListenSide_setPollfd_def deref_connection_def put_connection_def)
  qed
  note listen = this
  show ?thesis
    unfolding TunnelConnection_CreateConnection_def Let_def
  proof (intro res_ok_if res_ok_bind_value)
    fix z
    assume "ListenSide_initialize os (ListenSide_new sp i) s = Inr z"
    then obtain ok u w where "z = (ok, u, s\<lparr>world := w\<rparr>)" "m_link_map u = Map.empty"
      using initialize_unlinked [of os "ListenSide_new sp i" s] by (cases z) (auto simp: ListenSide_new_def)
    then show "unlinked_pair_ok (case z of (ok, listener, s') \<Rightarrow>
        if ok then bindE (Poller_addPolled (\<lambda>_. ListenSide_setPollfd (m_next_obj s)) (P_Listen (m_next_obj s))
               (put_connection (m_next_obj s) listener (s'\<lparr>m_next_obj := Suc (m_next_obj s)\<rparr>))) (\<lambda>s'. Inr (Some (m_next_obj s), s'))
        else Inr (None, s'))"
      using listen assms by simp
  qed (use assms in \<open>auto simp: ConnectSide_new_def intro!: put_connection_unlinked\<close>)
qed

lemma assign_unlinked: "unlinked s \<Longrightarrow> unlinked (assign_connection i c s)"
  by (auto simp: assign_connection_def free_connection_def unlinked_def poller_map_def Let_def split: option.splits)

lemma socks_unlinked:
  assumes "unlinked s"
  shows "unlinked_pair_ok (start_socks5 os sp s)"
proof -
  have m: "unlinked (t\<lparr>m_socks5_server := v\<rparr>) = unlinked t" for t :: "'a remote_tunnel" and v
    by (simp add: unlinked_def poller_map_def)
  have poll: "unlinked_pair_ok (bindE (Poller_addPolled
        (\<lambda>_ ps s. case m_socks5_server s of None \<Rightarrow> Inl (Undefined NullPointer) | Some v \<Rightarrow> Inr (Socks5Server_setPollfd v ps, s))
        P_Socks5 t) (\<lambda>s. Inr (r, s)))" if "unlinked t" for t :: "'a remote_tunnel" and r :: 'x
    using unlinked_poll [OF that] by (auto simp: Poller_addPolled_def split: option.splits)
  show ?thesis
    using assms unfolding start_socks5_def Let_def
    by (auto simp: syscall_def m intro!: poll split: prod.splits sum.splits option.splits)
qed

lemma receive_unlinked: "unlinked s \<Longrightarrow> unlinked_ok (receive_connection os s)"
  unfolding receive_connection_def get_short_def
  by (rule res_ok_bind [OF reading_unlinked], assumption)
    (auto intro!: res_ok_bind [where Q = "\<lambda>(_, s). unlinked s"] reading_unlinked create_unlinked assign_unlinked
      socks_unlinked split: option.splits)

lemma remote_unlinked:
  assumes "StdioTunnelRemote_message os s = Inr t" "r_state s = R_HANDSHAKING" "unlinked s"
  shows "unlinked t"
proof -
  have send: "unlinked_ok (CustomWriteStream_send u)" if "unlinked u" for u :: "'a remote_tunnel"
    using that by (auto simp: CustomWriteStream_send_def writing_def poller_map_def registered_setEvents [unfolded poller_map_def] intro!: unlinked_same [of u])
  have put: "unlinked (put_short z u)" "unlinked (u\<lparr>r_state := q\<rparr>)" if "unlinked u" for z q and u :: "'a remote_tunnel"
    using that by (simp_all add: unlinked_def put_short_def writing_def poller_map_def)
  have "unlinked_ok (StdioTunnelRemote_handshake os cmd u)" if "unlinked u" for cmd u
    using that unfolding StdioTunnelRemote_handshake_def get_short_def
    by (auto intro!: res_ok_bind [where Q = "\<lambda>(_, s). unlinked s"] res_ok_bind [where Q = unlinked] reading_unlinked res_ok_iterE
        receive_unlinked send put)
  then have "unlinked_ok (StdioTunnelRemote_message os s)"
    unfolding StdioTunnelRemote_message_def get_short_def reading_def using assms(2,3)
    by (cases "ReadStream_readShort (m_read_stream s)") auto
  then show ?thesis
    by (simp add: assms(1))
qed

section \<open>The handshake\<close>

lemma wire_kinds:
  assumes "valid_spec sp" "m_connection_type sp \<in> {CONNECT, LISTEN}"
  shows "remote_kind (wire_spec sp) = other_kind (local_kind sp)"
    "mirrored i sp u \<Longrightarrow> has_flag ACK_PACKETS (m_spec u) = has_flag ACK_PACKETS sp"
    "mirrored i sp u \<Longrightarrow> length (m_connect_host sp) < 2 ^ 31 \<Longrightarrow> length (m_connect_host (m_spec u)) < 2 ^ 31"
proof -
  have "of_short (to_short CONNECT) = CONNECT" "of_short (to_short LISTEN) = LISTEN" "CONNECT \<noteq> LISTEN"
    by (simp_all add: of_to_short_small CONNECT_def LISTEN_def)
  then show "remote_kind (wire_spec sp) = other_kind (local_kind sp)"
    using assms(2) by (auto simp: remote_kind_def local_kind_def wire_spec_def)
  have "of_short (to_short (m_flags sp)) = m_flags sp"
    using assms(1) by (intro of_to_short_small) (auto simp: valid_spec_def)
  then show "mirrored i sp u \<Longrightarrow> has_flag ACK_PACKETS (m_spec u) = has_flag ACK_PACKETS sp"
    by (auto simp: has_flag_def wire_spec_def mirrored_def split: if_splits)
  show "mirrored i sp u \<Longrightarrow> length (m_connect_host sp) < 2 ^ 31 \<Longrightarrow> length (m_connect_host (m_spec u)) < 2 ^ 31"
    by (auto simp: wire_spec_def mirrored_def split: if_splits)
qed

text \<open>
  The local side when it sees the announcement: its connections are those of the command line, and no client
  has come yet. The remote side when it has sent the announcement.
\<close>

definition local_fresh :: "'w local_tunnel \<Rightarrow> bool" where
  "local_fresh l \<longleftrightarrow> unlinked l \<and> unsent_message l = [] \<and> incoming l = [] \<and> outgoing l = [] \<and>
     map_ordered (m_connection_map l) \<and> length (m_connection_map l) < 32768 \<and>
     length (filter (\<lambda>(i, sp). socks_line sp) (table_of l (m_connection_map l))) \<le> 1 \<and>
     (\<forall>(i, c) \<in> set (m_connection_map l). \<exists>t. m_connections l c = Some t \<and> tc_id t = i \<and> m_kind t = local_kind (m_spec t) \<and>
        valid_spec (m_spec t) \<and> m_connection_type (m_spec t) \<in> {CONNECT, LISTEN} \<and> length (m_connect_host (m_spec t)) < 2 ^ 31 \<and>
        -32768 \<le> i \<and> i < 32768)"

definition remote_fresh :: "'w remote_tunnel \<Rightarrow> bool" where
  "remote_fresh r \<longleftrightarrow> unlinked r \<and> r_state r = R_HANDSHAKING \<and> m_connection_map r = [] \<and> m_writer_attached r \<and>
     unsent_message r = [] \<and> outgoing r = [] \<and> m_socks5_server r = None"

text \<open>The handshake, packet by packet, and the pair it ends in.\<close>

definition handshakes ::
  "('v, 'o) proc_posix_scheme \<Rightarrow> ('w, 'u) proc_posix_scheme \<Rightarrow> 'v local_tunnel \<Rightarrow> 'w remote_tunnel \<Rightarrow> ('v, 'w) tunnel_net \<Rightarrow> bool" where
  "handshakes osl osr l r p \<longleftrightarrow>
     (\<exists>l1 l2 r1 bs cs. StdioTunnelLocal_startHandshaking osl l = Inr l1 \<and> outgoing l1 = frame bs \<and> length bs < 2 ^ 32 \<and>
        drains (frame bs) l1 l2 \<and> StdioTunnelRemote_message osr (with_incoming bs r) = Inr r1 \<and>
        outgoing r1 = frame cs \<and> length cs < 2 ^ 32 \<and> drains (frame cs) r1 (nr p) \<and>
        StdioTunnelLocal_message osl (with_incoming cs l2) = Inr (nl p)) \<and>
     to_r p = [] \<and> to_l p = [] \<and> (\<forall>k. nl_in p k = [] \<and> nl_out p k = [] \<and> nr_in p k = [] \<and> nr_out p k = [])"

lemma local_line:
  assumes "local_fresh l" "(i, sp) \<in> set (table_of l (m_connection_map l))"
  shows "\<exists>c t. map_find i (m_connection_map l) = Some c \<and> m_connections l c = Some t \<and> tc_id t = i \<and> m_spec t = sp \<and>
    m_kind t = local_kind sp \<and> valid_spec sp \<and> m_connection_type sp \<in> {CONNECT, LISTEN} \<and> length (m_connect_host sp) < 2 ^ 31 \<and>
    -32768 \<le> i \<and> i < 32768"
proof -
  obtain j c where jc: "(j, c) \<in> set (m_connection_map l)" "i = tc_id (the (m_connections l c))" "sp = m_spec (the (m_connections l c))"
    using assms(2) by (auto simp: table_of_def)
  then have "map_find j (m_connection_map l) = Some c"
    using assms(1) map_find_set by (metis local_fresh_def)
  then show ?thesis
    using assms(1) jc by (fastforce simp: local_fresh_def)
qed

lemma local_table:
  assumes "local_fresh l"
  shows "table_alive l" "wire_table (table_of l (m_connection_map l))"
    "map fst (table_of l (m_connection_map l)) = map fst (m_connection_map l)"
proof -
  show "table_alive l"
    using assms by (fastforce simp: table_alive_def local_fresh_def)
  show keys: "map fst (table_of l (m_connection_map l)) = map fst (m_connection_map l)"
    using assms by (fastforce simp: table_of_def local_fresh_def)
  have "distinct (map fst (m_connection_map l))"
    using assms by (simp add: local_fresh_def map_ordered_def strict_sorted_iff)
  moreover have "\<forall>(i, sp) \<in> set (table_of l (m_connection_map l)). -32768 \<le> i \<and> i < 32768 \<and> length (m_connect_host sp) < 2 ^ 32"
    using local_line [OF assms] by fastforce
  moreover have "length (table_of l (m_connection_map l)) < 32768"
    using assms by (simp add: table_of_def local_fresh_def)
  ultimately show "wire_table (table_of l (m_connection_map l))"
    using assms by (simp add: wire_table_def keys local_fresh_def)
qed

lemma frame_eq: "frame p = frame q \<Longrightarrow> p = q"
  by (simp add: frame_def)

lemma drains_unlinked: "drains d s s' \<Longrightarrow> unlinked s \<Longrightarrow> unlinked s'"
  by (rule unlinked_same) (simp_all add: drains_def)

lemma drains_connection: "drains d s s' \<Longrightarrow> has_connection k i a c s' = has_connection k i a c s"
  by (simp add: drains_def has_connection_def)

lemma with_incoming_state [simp]:
  "unlinked (with_incoming bs s) = unlinked s" "r_state (with_incoming bs r) = r_state r"
  by (simp_all add: with_incoming_def)

text \<open>The two sides after the handshake. The local side first.\<close>

abbreviation asked :: "'w local_tunnel \<Rightarrow> c_int \<Rightarrow> connection_spec" where
  "asked l i \<equiv> the (map_of (table_of l (m_connection_map l)) i)"

abbreviation asked_for :: "'w local_tunnel \<Rightarrow> c_int set" where
  "asked_for l \<equiv> fst ` set (table_of l (m_connection_map l))"

definition object_of :: "('w, 'a) tunnel_scheme \<Rightarrow> c_int \<Rightarrow> nat" where
  "object_of s i = the (map_find i (m_connection_map s))"

lemma asked_line:
  assumes "i \<in> asked_for l"
  shows "(i, asked l i) \<in> set (table_of l (m_connection_map l))"
proof -
  have "map_of (table_of l (m_connection_map l)) i \<noteq> None"
    using assms by (simp add: map_of_eq_None_iff)
  then show ?thesis
    by (auto intro: map_of_SomeD)
qed

lemma local_start:
  assumes "local_fresh l" "StdioTunnelLocal_startHandshaking os l = Inr l1" "drains (frame bs) l1 l2" "outgoing l1 = frame bs"
    "StdioTunnelLocal_message os (with_incoming (enc_int CMD_CREATE) l2) = Inr l3"
  shows "bs = handshake_message (table_of l (m_connection_map l))" "unlinked l3" "m_writer_attached l3"
    "unsent_message l3 = []" "incoming l3 = []" "outgoing l3 = []"
    "i \<in> asked_for l \<Longrightarrow> has_connection (local_kind (asked l i)) i (has_flag ACK_PACKETS (asked l i)) (object_of l i) l3"
proof -
  have fresh: "unlinked l" "unsent_message l = []" "incoming l = []" "outgoing l = []"
    using assms(1) by (simp_all add: local_fresh_def)
  note start = startHandshaking_heap [OF assms(2) local_table(1) [OF assms(1)]]
  note sends = startHandshaking_sends [OF assms(2) local_table(1) [OF assms(1)] fresh(2)]
  show "bs = handshake_message (table_of l (m_connection_map l))"
    by (rule frame_eq) (use sends(1) assms(4) fresh(4) in simp)
  have l3: "l3 = (with_incoming [] l2)\<lparr>l_state := L_CONNECTED\<rparr>"
    using assms(5) get_int_enc [of CMD_CREATE "[]" l2]
    by (simp add: StdioTunnelLocal_message_def)
  show "unlinked l3"
  proof -
    have "unlinked l2"
      by (rule drains_unlinked [OF assms(3) unlinked_same [OF fresh(1) start(1,2,6)]])
    then show ?thesis
      by (rule unlinked_same) (simp_all add: l3 poller_map_def)
  qed
  show "m_writer_attached l3" "unsent_message l3 = []" "incoming l3 = []" "outgoing l3 = []"
    using assms(3,4) start(4) sends(2) 
    by (simp_all add: l3 drains_def incoming_def unsent_message_def outgoing_def with_incoming_def)
  assume "i \<in> asked_for l"
  from local_line [OF assms(1) asked_line [OF this]]
  show "has_connection (local_kind (asked l i)) i (has_flag ACK_PACKETS (asked l i)) (object_of l i) l3"
    using start(2,3) assms(3) by (auto simp: has_connection_def object_of_def l3 drains_def)
qed

text \<open>And the remote side.\<close>

lemma remote_start:
  assumes "remote_fresh r" "can_serve os tab r" "wire_table tab"
    "StdioTunnelRemote_message os (with_incoming (handshake_message tab) r) = Inr r1"
    "outgoing r1 = frame cs" "drains (frame cs) r1 r2"
  shows "cs = enc_int CMD_CREATE" "r_state r2 = R_CONNECTED" "unlinked r2" "m_writer_attached r2"
    "unsent_message r2 = []" "incoming r2 = []" "outgoing r2 = []"
    "(i, sp) \<in> set tab \<Longrightarrow> valid_spec sp \<Longrightarrow> m_connection_type sp \<in> {CONNECT, LISTEN} \<Longrightarrow> length (m_connect_host sp) < 2 ^ 31 \<Longrightarrow>
       has_connection (other_kind (local_kind sp)) i (has_flag ACK_PACKETS sp) (object_of r2 i) r2"
proof -
  let ?r = "with_incoming (handshake_message tab) r"
  have fresh: "unlinked ?r" "r_state ?r = R_HANDSHAKING" "m_connection_map ?r = []" "m_writer_attached ?r"
    "unsent_message ?r = []" "outgoing ?r = []"
    using assms(1) by (simp_all add: remote_fresh_def)
  have serve: "can_serve os tab ?r"
    using assms(2) by (simp add: can_serve_def with_incoming_def)
  have r1: "r_state r1 = R_CONNECTED" "mirrors tab r1" "incoming r1 = []" "outgoing r1 = frame (enc_int CMD_CREATE)"
    "unsent_message r1 = []" "m_writer_attached r1"
    using remote_handshake [OF serve fresh(2) _ assms(3) fresh(3-5)] assms(4) fresh(6) by auto
  show "cs = enc_int CMD_CREATE"
    by (rule frame_eq) (use r1(4) assms(5) in simp)
  show "unlinked r2"
    by (rule drains_unlinked [OF assms(6) remote_unlinked [OF assms(4) fresh(2,1)]])
  show "r_state r2 = R_CONNECTED" "m_writer_attached r2" "unsent_message r2 = []" "incoming r2 = []" "outgoing r2 = []"
    using r1 assms(5,6) same_r_state [of r2 r1] by (auto simp: drains_def)
  assume line: "(i, sp) \<in> set tab" "valid_spec sp" "m_connection_type sp \<in> {CONNECT, LISTEN}" "length (m_connect_host sp) < 2 ^ 31"
  obtain u where u: "connection_at r1 i = Some u" "mirrored i sp u"
    using mirrors_lookup [OF r1(2) _ line(1)] assms(3) by (auto simp: wire_table_def)
  then obtain c where "map_find i (m_connection_map r1) = Some c" "m_connections r1 c = Some u"
    by (auto simp: connection_at_def split: option.splits)
  then show "has_connection (other_kind (local_kind sp)) i (has_flag ACK_PACKETS sp) (object_of r2 i) r2"
    using assms(6) wire_kinds(1) [OF line(2,3)] wire_kinds(2,3) [OF line(2,3) u(2)] u(2) line(4)
    by (simp add: has_connection_def object_of_def drains_def mirrored_def)
qed

text \<open>The handshake ends in the state from which the two processes are followed.\<close>

lemma handshake_start:
  assumes "handshakes osl osr l r p" "local_fresh l" "remote_fresh r" "can_serve osr (table_of l (m_connection_map l)) r"
  shows "net_start (asked_for l) (\<lambda>i. local_kind (asked l i)) (\<lambda>i. has_flag ACK_PACKETS (asked l i)) (object_of l) (object_of (nr p)) p"
    "i \<in> asked_for l \<Longrightarrow> has_connection (local_kind (asked l i)) i (has_flag ACK_PACKETS (asked l i)) (object_of l i) (nl p) \<and>
       has_connection (other_kind (local_kind (asked l i))) i (has_flag ACK_PACKETS (asked l i)) (object_of (nr p) i) (nr p)"
proof -
  let ?tab = "table_of l (m_connection_map l)"
  obtain l1 l2 r1 bs cs where h: "StdioTunnelLocal_startHandshaking osl l = Inr l1" "outgoing l1 = frame bs"
      "drains (frame bs) l1 l2" "StdioTunnelRemote_message osr (with_incoming bs r) = Inr r1"
      "outgoing r1 = frame cs" "drains (frame cs) r1 (nr p)"
      "StdioTunnelLocal_message osl (with_incoming cs l2) = Inr (nl p)" "to_r p = []" "to_l p = []"
      "\<forall>k. nl_in p k = [] \<and> nl_out p k = [] \<and> nr_in p k = [] \<and> nr_out p k = []"
    using assms(1) unfolding handshakes_def by blast
  have bs: "bs = handshake_message ?tab"
    by (rule frame_eq) (use startHandshaking_sends(1) [OF h(1) local_table(1) [OF assms(2)]] assms(2) h(2) in \<open>simp add: local_fresh_def\<close>)
  note r = remote_start [OF assms(3,4) local_table(2) [OF assms(2)] h(4) [unfolded bs] h(5,6)]
  note l = local_start [OF assms(2) h(1,3,2) h(7) [unfolded r(1)]]
  have line: "(i, asked l i) \<in> set ?tab" "valid_spec (asked l i)" "m_connection_type (asked l i) \<in> {CONNECT, LISTEN}"
      "length (m_connect_host (asked l i)) < 2 ^ 31" "-32768 \<le> i" "i < 32768" if "i \<in> asked_for l" for i
    using asked_line [OF that] local_line [OF assms(2) asked_line [OF that]] by auto
  have both: "has_connection (local_kind (asked l i)) i (has_flag ACK_PACKETS (asked l i)) (object_of l i) (nl p)"
    "has_connection (other_kind (local_kind (asked l i))) i (has_flag ACK_PACKETS (asked l i)) (object_of (nr p) i) (nr p)"
    if "i \<in> asked_for l" for i
    using l(7) [OF that] r(8) [OF line(1-4) [OF that]] by simp_all
  then show "has_connection (local_kind (asked l i)) i (has_flag ACK_PACKETS (asked l i)) (object_of l i) (nl p) \<and>
       has_connection (other_kind (local_kind (asked l i))) i (has_flag ACK_PACKETS (asked l i)) (object_of (nr p) i) (nr p)"
    if "i \<in> asked_for l"
    using that by blast
  have left: "i \<in> asked_for l \<Longrightarrow> has_connection (local_kind (asked l i)) i (has_flag ACK_PACKETS (asked l i)) (object_of l i) (nl p) \<and>
      -32768 \<le> i \<and> i < 32768" for i
    using both(1) line(5,6) by blast
  have right: "i \<in> asked_for l \<Longrightarrow> has_connection (other_kind (local_kind (asked l i))) i (has_flag ACK_PACKETS (asked l i)) (object_of (nr p) i) (nr p) \<and>
      -32768 \<le> i \<and> i < 32768" for i
    using both(2) line(5,6) by blast
  note sl = unlinked_sides [where I = "asked_for l" and kd = "\<lambda>i. local_kind (asked l i)" and ak = "\<lambda>i. has_flag ACK_PACKETS (asked l i)" and cs = "object_of l",
      OF l(2-5) left]
  note sr = unlinked_sides [where I = "asked_for l" and kd = "\<lambda>i. other_kind (local_kind (asked l i))" and
      ak = "\<lambda>i. has_flag ACK_PACKETS (asked l i)" and cs = "object_of (nr p)", OF r(3-6) right]
  show "net_start (asked_for l) (\<lambda>i. local_kind (asked l i)) (\<lambda>i. has_flag ACK_PACKETS (asked l i)) (object_of l) (object_of (nr p)) p"
    unfolding net_start_def using sl sr l(6) r(2,7) h(8-10) by simp
qed

section \<open>Properties\<close>

text \<open>C2: A session from the announcement on. When the local side has sent its table, a remote side on a system
  that can serve it has answered and the local side has taken the answer, every line of the table is a
  connection at both ends, with the same number and the same choice of acknowledgements, and the end that
  listens faces the end that connects; the line for the socks server is one of them. From then on, in any order of clients,
  socket events, writes and messages on all links of all connections, with reads and writes that take no
  more than they are asked to, a client being taken only under a link number that is free at both ends and a socket
  of a link with acknowledgements being read only while the link is acknowledged: what comes out at one end of a link is a prefix of what went in at its other end,
  while an end is open nothing is missing but what it holds and what is on its way, and no message makes
  its handler throw. Clients that come before the table is sent are C24, numbers that are used again C25.\<close>

theorem session_delivers:
  assumes "handshakes osl osr l r p" "local_fresh l" "remote_fresh r" "can_serve osr (table_of l (m_connection_map l)) r"
    "bounded_io osl" "bounded_io osr"
    "(i, sp) \<in> set (table_of l (m_connection_map l))" "ca = object_of l" "cb = object_of (nr p)"
    "(net_step osl osr (asked_for l) ca cb)\<^sup>*\<^sup>* p q"
  shows "has_connection (local_kind sp) i (has_flag ACK_PACKETS sp) (ca i) (nl p) \<and>
    has_connection (other_kind (local_kind sp)) i (has_flag ACK_PACKETS sp) (cb i) (nr p) \<and>
    (\<exists>rest. nl_in q (i, x) = nr_out q (i, x) @ rest) \<and> (\<exists>rest. nr_in q (i, x) = nl_out q (i, x) @ rest) \<and>
    (is_open (view (nr q) (cb i) x) \<longrightarrow> (\<exists>ms. carries_all (asked_for l) False (to_r q @ outgoing (nl q)) ms \<and>
       nl_in q (i, x) = nr_out q (i, x) @ held (nr q) (cb i) x @ data_of (of_key (i, x) ms))) \<and>
    (is_open (view (nl q) (ca i) x) \<longrightarrow> (\<exists>ms. carries_all (asked_for l) True (to_l q @ outgoing (nr q)) ms \<and>
       nr_in q (i, x) = nl_out q (i, x) @ held (nl q) (ca i) x @ data_of (of_key (i, x) ms))) \<and>
    (\<forall>bs rest. length bs < 2 ^ 32 \<longrightarrow>
       (to_l q = frame bs @ rest \<longrightarrow> (\<exists>u. StdioTunnelLocal_message osl (with_incoming bs (nl q)) = Inr u)) \<and>
       (to_r q = frame bs @ rest \<longrightarrow> (\<exists>u. StdioTunnelRemote_message osr (with_incoming bs (nr q)) = Inr u)))"
proof -
  have i: "i \<in> asked_for l"
    using assms(7) by force
  have "asked l i = sp"
    using assms(7) local_table(2) [OF assms(2)] by (simp add: wire_table_def)
  note both = handshake_start(2) [OF assms(1-4) i, unfolded this, folded assms(8,9)]
  note start = handshake_start(1) [OF assms(1-4), folded assms(8,9)]
  show ?thesis
    using both net_sound [OF start assms(5,6,10) i, of x] by blast
qed

text \<open>The two processes of \<open>Handshake\<close>, each with its own two pipes, go through the handshake and accept a client.\<close>

lemma demo_local_fresh: "local_fresh demo_l"
proof -
  have "unlinked demo_l" "incoming demo_l = []" "map_ordered (m_connection_map demo_l)"
    by (simp_all add: demo_sides unlinked_def incoming_def poller_map_def ReadStream_new_def map_ordered_def ListenSide_new_def)
  moreover have "valid_spec demo_spec" "local_kind demo_spec = ListenSide"
    "m_connection_type demo_spec = CONNECT" "length (m_connect_host demo_spec) < 2 ^ 31"
    using demo_wire_table by (simp_all add: valid_spec_def demo_spec_def ConnectionSpec_isSocks5_def local_kind_def wire_table_def)
  ultimately show ?thesis
    using demo_l_facts demo_wire_table by (auto simp: local_fresh_def ListenSide_new_def wire_table_def)
qed

lemma demo_remote_fresh: "remote_fresh demo_r"
  using demo_r_facts demo_two_facts(6)
  by (simp add: remote_fresh_def unlinked_def) (simp add: demo_sides poller_map_def outgoing_def ws_pending_def WriteStream_new_def)

lemma drained: "unsent_message s = [] \<Longrightarrow> drains (outgoing s) s (s\<lparr>m_write_stream := WriteStream_new\<rparr>)"
  by (simp add: drains_def outgoing_def unsent_message_def incoming_def poller_map_def ws_pending_def WriteStream_new_def)

lemma demo_session: "\<exists>p. handshakes (pipe_proc 40) (pipe_proc 40) demo_l demo_r p"
proof -
  let ?os = "pipe_proc 40" and ?m = "handshake_message [(0, demo_spec)]"
  obtain l1 where l1: "StdioTunnelLocal_startHandshaking ?os demo_l = Inr l1"
    using demo_handshaking by blast
  note sends = startHandshaking_sends [OF l1 demo_l_facts(1,2), unfolded demo_l_facts(3,5)]
  let ?l2 = "l1\<lparr>m_write_stream := WriteStream_new\<rparr>" and ?r = "with_incoming ?m demo_r"
  have "m_socks5_server ?r = None"
    using demo_two_facts(6) by (simp add: with_incoming_def)
  note serve = pipe_can_serve [OF this]
  obtain r1 where r1: "StdioTunnelRemote_message ?os ?r = Inr r1" "outgoing r1 = outgoing ?r @ frame (enc_int CMD_CREATE)"
      "unsent_message r1 = []"
    using remote_handshake [OF serve _ _ demo_wire_table, of 40] demo_r_facts by auto
  obtain l3 where l3: "StdioTunnelLocal_message ?os (with_incoming (enc_int CMD_CREATE) ?l2) = Inr l3"
    using local_gets_reply [of "with_incoming (enc_int CMD_CREATE) ?l2" ?os] by auto
  have out: "outgoing l1 = frame ?m" "outgoing r1 = frame (enc_int CMD_CREATE)"
    using sends(1) r1(2) demo_remote_fresh by (simp_all add: remote_fresh_def)
  have short: "length ?m < 2 ^ 32" "length (enc_int CMD_CREATE) < 2 ^ 32"
    by (simp_all add: handshake_message_def enc_int_def enc_short_def enc_spec_def enc_string_def demo_spec_def)
  let ?p = "\<lparr>nl = l3, nr = r1\<lparr>m_write_stream := WriteStream_new\<rparr>, to_r = [], to_l = [], nl_in = (\<lambda>_. []), nl_out = (\<lambda>_. []),
      nr_in = (\<lambda>_. []), nr_out = (\<lambda>_. [])\<rparr>"
  have "drains (frame ?m) l1 ?l2" "drains (frame (enc_int CMD_CREATE)) r1 (r1\<lparr>m_write_stream := WriteStream_new\<rparr>)"
    using drained [OF sends(2)] drained [OF r1(3)] out by simp_all
  then have "handshakes ?os ?os demo_l demo_r ?p"
    unfolding handshakes_def using l1 out short r1(1) l3
    by (intro conjI exI [of _ l1] exI [of _ ?l2] exI [of _ r1] exI [of _ ?m] exI [of _ "enc_int CMD_CREATE"]) simp_all
  then show ?thesis by blast
qed

theorem session_delivers_witness:
  "\<exists>p q u x. handshakes (pipe_proc 40) (pipe_proc 40) demo_l demo_r p \<and>
     has_connection ListenSide 0 True (object_of demo_l 0) (nl p) \<and> has_connection ConnectSide 0 True (object_of (nr p) 0) (nr p) \<and>
     (net_step (pipe_proc 40) (pipe_proc 40) {0} (object_of demo_l) (object_of (nr p)))\<^sup>*\<^sup>* p q \<and>
     to_r q = frame (enc_msg 0 x MCreate) \<and>
     StdioTunnelRemote_message (pipe_proc 40) (with_incoming (enc_msg 0 x MCreate) (nr q)) = Inr u"
proof -
  obtain p where p: "handshakes (pipe_proc 40) (pipe_proc 40) demo_l demo_r p"
    using demo_session by blast
  note serve = pipe_can_serve [OF demo_two_facts(6)]
  note start = handshake_start [OF p demo_local_fresh demo_remote_fresh serve]
  have asked: "asked demo_l 0 = demo_spec" "asked_for demo_l = {0}" "(0, demo_spec) \<in> set (table_of demo_l (m_connection_map demo_l))"
    by (simp_all add: demo_l_facts(5))
  have kind: "local_kind demo_spec = ListenSide" "has_flag ACK_PACKETS demo_spec"
    by (simp_all add: local_kind_def demo_spec_def has_flag_def ACK_PACKETS_def)
  obtain t where t: "m_connections (nl p) (object_of demo_l 0) = Some t"
    using start(2) [of 0] asked by (auto simp: has_connection_def)
  let ?x = "to_short (m_next_id t)"
  obtain q where q: "(net_step (pipe_proc 40) (pipe_proc 40) (asked_for demo_l) (object_of demo_l) (object_of (nr p)))\<^sup>*\<^sup>* p q"
      "to_r q = frame (enc_msg 0 ?x MCreate) @ []"
    using accept_run [OF start(1) _ _ t refl] asked(1,2) kind(1) by auto
  note d = session_delivers [OF p demo_local_fresh demo_remote_fresh serve pipe_bounded pipe_bounded asked(3) refl refl q(1)]
  obtain u where "StdioTunnelRemote_message (pipe_proc 40) (with_incoming (enc_msg 0 ?x MCreate) (nr q)) = Inr u"
    using d q(2) enc_msg_short [of MCreate 0 ?x] by force
  then show ?thesis
    using p q d [of ?x] kind asked(2)
    by (intro exI [of _ p] exI [of _ q] exI [of _ u] exI [of _ ?x] conjI) simp_all
qed

end
