(* ===== verification/Tunnel_Setup.thy ===== *)
theory Tunnel_Setup
  imports Tunnel_Session "HOL-Library.Sublist"
begin

text \<open>
  The local side before the session: the connections it makes of the specifications of its command line.
\<close>

section \<open>One connection\<close>

lemma initialize_keeps:
  assumes "ListenSide_initialize os t s = Inr (ok, u, s')"
  shows "\<exists>f w. u = t\<lparr>m_listen_socket := f\<rparr> \<and> s' = s\<lparr>world := w\<rparr>"
  using assms
  by (auto simp: ListenSide_initialize_def syscall_def Let_def split: prod.splits sum.splits intro!: exI [of _ "m_listen_socket u"])

lemma create_line:
  assumes "TunnelConnection_CreateConnection os sp True i s = Inr (r, t)"
  shows "stream_same s t \<and> tunnel.more t = tunnel.more s \<and>
    (r = None \<and> m_connections t = m_connections s \<and> m_next_obj t = m_next_obj s \<or>
     r = Some (m_next_obj s) \<and> m_next_obj t = Suc (m_next_obj s) \<and>
       (\<exists>u. m_connections t = (m_connections s)(m_next_obj s \<mapsto> u) \<and> m_spec u = sp \<and> tc_id u = i \<and> m_kind u = local_kind sp))"
proof (cases "m_connection_type sp = CONNECT")
  case True
  then obtain ok l v where init: "ListenSide_initialize os (ListenSide_new sp i) s = Inr (ok, l, v)"
    using assms by (cases "ListenSide_initialize os (ListenSide_new sp i) s") (auto simp: TunnelConnection_CreateConnection_def Let_def)
  moreover from initialize_keeps [OF init] obtain f w where "l = (ListenSide_new sp i)\<lparr>m_listen_socket := f\<rparr>" "v = s\<lparr>world := w\<rparr>"
    by blast
  ultimately show ?thesis
    using assms True
    by (cases ok) (auto simp: TunnelConnection_CreateConnection_def Let_def Poller_addPolled_def ListenSide_setPollfd_def
        deref_connection_def put_connection_def stream_same_def local_kind_def ListenSide_new_def)
next
  case False
  then show ?thesis
    using assms by (auto simp: TunnelConnection_CreateConnection_def Let_def put_connection_def stream_same_def local_kind_def
        ConnectSide_new_def)
qed

section \<open>All of them\<close>

text \<open>The specifications with the numbers they get.\<close>

fun numbered :: "nat \<Rightarrow> connection_spec list \<Rightarrow> (c_int \<times> connection_spec) list" where
  "numbered k [] = []"
| "numbered k (sp # sps) = (int k, sp) # numbered (Suc k) sps"

text \<open>
  Those of them that become connections: a line the local side connects for always does, and one it listens for
  does when \<open>initialize\<close> says so, called in the world the lines before it have left.
\<close>

fun kept_lines ::
  "('w, 'o) net_posix_scheme \<Rightarrow> nat \<Rightarrow> connection_spec list \<Rightarrow> ('w, 'a) tunnel_scheme \<Rightarrow> (c_int \<times> connection_spec) list" where
  "kept_lines os k [] s = []"
| "kept_lines os k (sp # sps) s =
     (if m_connection_type sp = CONNECT
      then (case ListenSide_initialize os (ListenSide_new sp (int k)) s of
              Inl e \<Rightarrow> []
            | Inr (ok, l, s') \<Rightarrow>
                if ok then (int k, sp) # kept_lines os (Suc k) sps s' else kept_lines os (Suc k) sps s')
      else (int k, sp) # kept_lines os (Suc k) sps s)"

lemma initialize_world:
  assumes "world v = world s" "ListenSide_initialize os t s = Inr (ok, u, s')"
  shows "\<exists>v'. ListenSide_initialize os t v = Inr (ok, u, v') \<and> world v' = world s'"
  using assms by (auto simp: ListenSide_initialize_def syscall_def Let_def split: prod.splits sum.splits)

lemma initialize_throws_world:
  assumes "world v = world s" "ListenSide_initialize os t s = Inl e"
  shows "ListenSide_initialize os t v = Inl e"
  using assms by (auto simp: ListenSide_initialize_def syscall_def Let_def split: prod.splits sum.splits)

lemma kept_lines_world: "world v = world s \<Longrightarrow> kept_lines os k sps v = kept_lines os k sps s"
proof (induction sps arbitrary: k v s)
  case (Cons sp sps)
  show ?case
  proof (cases "ListenSide_initialize os (ListenSide_new sp (int k)) s")
    case (Inl e)
    then show ?thesis
      using initialize_throws_world [OF Cons.prems Inl] Cons by simp
  next
    case (Inr r)
    then obtain ok u s' where r: "ListenSide_initialize os (ListenSide_new sp (int k)) s = Inr (ok, u, s')"
      by (cases r) auto
    then show ?thesis
      using initialize_world [OF Cons.prems r] Cons by auto
  qed
qed simp

lemma kept_step:
  assumes "TunnelConnection_CreateConnection os sp True (int k) v = Inr (r, t)" "world v = world s"
  shows "kept_lines os k (sp # sps) s = (case r of None \<Rightarrow> [] | Some _ \<Rightarrow> [(int k, sp)]) @ kept_lines os (Suc k) sps t"
proof (cases "m_connection_type sp = CONNECT")
  case True
  then obtain ok l v' where init: "ListenSide_initialize os (ListenSide_new sp (int k)) v = Inr (ok, l, v')"
    using assms(1) by (cases "ListenSide_initialize os (ListenSide_new sp (int k)) v")
      (auto simp: TunnelConnection_CreateConnection_def Let_def)
  then obtain s' where "ListenSide_initialize os (ListenSide_new sp (int k)) s = Inr (ok, l, s')" "world s' = world v'"
    using initialize_world [of s v] assms(2) by metis
  moreover have "world t = world v'" "r = None \<longleftrightarrow> \<not> ok"
    using assms(1) True init
    by (auto simp: TunnelConnection_CreateConnection_def Let_def Poller_addPolled_def ListenSide_setPollfd_def
        deref_connection_def put_connection_def split: if_splits)
  ultimately show ?thesis
    using True kept_lines_world [of s' t os] by (auto split: option.splits)
next
  case False
  then show ?thesis
    using assms kept_lines_world [of t s os]
    by (auto simp: TunnelConnection_CreateConnection_def Let_def put_connection_def)
qed

text \<open>The lines left out are lines the local side listens for, whose socket could not be made to listen.\<close>

definition cannot_listen :: "('w, 'o) net_posix_scheme \<Rightarrow> c_int \<times> connection_spec \<Rightarrow> ('w, 'a) tunnel_scheme \<Rightarrow> bool" where
  "cannot_listen os line s \<longleftrightarrow> m_connection_type (snd line) = CONNECT \<and>
     (case ListenSide_initialize os (ListenSide_new (snd line) (fst line)) s of Inr (ok, _) \<Rightarrow> \<not> ok | Inl _ \<Rightarrow> False)"

lemma create_left_out:
  assumes "TunnelConnection_CreateConnection os sp True i s = Inr (None, t)"
  shows "cannot_listen os (i, sp) s"
  using assms by (auto simp: cannot_listen_def TunnelConnection_CreateConnection_def Let_def split: if_splits bool.splits
      sum.splits simp: bindE_eq_Inr)

text \<open>The state when \<open>k\<close> numbers have been given and \<open>tab\<close> are the connections made.\<close>

definition built :: "nat \<Rightarrow> (c_int \<times> connection_spec) list \<Rightarrow> 'w local_tunnel \<Rightarrow> bool" where
  "built k tab s \<longleftrightarrow> unlinked s \<and> g_id s = of_nat k \<and> map_ordered (m_connection_map s) \<and>
     (\<forall>(i, c) \<in> set (m_connection_map s). 0 \<le> i \<and> i < int k \<and> c < m_next_obj s \<and>
        (\<exists>t. m_connections s c = Some t \<and> tc_id t = i \<and> m_kind t = local_kind (m_spec t))) \<and>
     table_of s (m_connection_map s) = tab"

definition streams :: "('w, 'a) tunnel_scheme \<Rightarrow> bytes \<times> bytes \<times> bytes" where
  "streams s = (unsent_message s, incoming s, outgoing s)"

lemma built_step:
  assumes "built k tab s" "TunnelConnection_CreateConnection os sp True (int k) (s\<lparr>g_id := g_id s + 1\<rparr>) = Inr (r, t)"
  shows "case r of None \<Rightarrow> built (Suc k) tab t \<and> streams t = streams s
    | Some c \<Rightarrow> \<exists>u. deref_connection c t = Inr u \<and> built (Suc k) (tab @ [(int k, sp)]) (assign_connection (tc_id u) c t) \<and>
        streams (assign_connection (tc_id u) c t) = streams s"
proof -
  let ?s = "s\<lparr>g_id := g_id s + 1\<rparr>" and ?m = "m_connection_map s"
  note c = create_line [OF assms(2)]
  have same: "stream_same ?s t" "g_id t = g_id s + 1"
  proof -
    show "stream_same ?s t"
      using c by simp
    have "tunnel.more t = tunnel.more ?s"
      using c by simp
    then have "g_id t = g_id ?s"
      by (cases t; cases ?s) simp
    then show "g_id t = g_id s + 1"
      by simp
  qed
  have str: "streams t = streams s"
    using same(1) by (simp add: streams_def stream_same_def unsent_message_def incoming_def outgoing_def)
  have "unlinked ?s"
    using assms(1) by (simp add: built_def unlinked_def poller_map_def)
  then have un: "unlinked t"
    using create_unlinked [of ?s os sp True "int k"] assms(2) by simp
  have map: "m_connection_map t = ?m"
    using same(1) by (simp add: stream_same_def)
  have old: "(i, d) \<in> set ?m \<Longrightarrow> 0 \<le> i \<and> i < int k \<and> d < m_next_obj s \<and>
      (\<exists>t. m_connections s d = Some t \<and> tc_id t = i \<and> m_kind t = local_kind (m_spec t))" for i d
    using assms(1) by (auto simp: built_def)
  have kept: "m_connections t d = m_connections s d" if "d < m_next_obj s" for d
    using c that by auto
  then have tab: "table_of t ?m = tab"
    using assms(1) old unfolding built_def table_of_def by (auto intro!: map_cong)
  show ?thesis
  proof (cases r)
    case None
    then have "0 \<le> i \<and> i < int (Suc k) \<and> d < m_next_obj t \<and>
        (\<exists>t'. m_connections t d = Some t' \<and> tc_id t' = i \<and> m_kind t' = local_kind (m_spec t'))" if "(i, d) \<in> set ?m" for i d
      using old [OF that] c by simp
    then have "built (Suc k) tab t"
      using un same(2) assms(1) tab by (auto simp: built_def map add_ac)
    then show ?thesis
      using None str by simp
  next
    case (Some d)
    then obtain u where u: "d = m_next_obj s" "m_next_obj t = Suc d" "m_connections t d = Some u" "m_spec u = sp" "tc_id u = int k"
        "m_kind u = local_kind sp"
      using c by auto
    have none: "map_find (int k) ?m = None"
      using old map_find_set [of ?m "int k"] assms(1) by (cases "map_find (int k) ?m") (auto simp: built_def)
    have "\<forall>i \<in> set (map fst ?m). i < int k"
      using old by auto
    then have t': "assign_connection (tc_id u) d t = t\<lparr>m_connection_map := ?m @ [(int k, d)]\<rparr>"
      using none map_assign_last [of ?m "int k" d] by (simp add: assign_connection_def u(5) map)
    have "map_ordered (?m @ [(int k, d)])"
      using assms(1) old by (force simp: built_def map_ordered_def sorted_wrt_append)
    moreover have "table_of (t\<lparr>m_connection_map := ?m @ [(int k, d)]\<rparr>) (?m @ [(int k, d)]) = tab @ [(int k, sp)]"
      using tab u(3-5) by (simp add: table_of_def)
    moreover have "0 \<le> i \<and> i < int (Suc k) \<and> e < m_next_obj t \<and>
        (\<exists>t'. m_connections t e = Some t' \<and> tc_id t' = i \<and> m_kind t' = local_kind (m_spec t'))"
      if "(i, e) \<in> set (?m @ [(int k, d)])" for i e
      using that old [of i e] kept [of e] u by auto
    ultimately have "built (Suc k) (tab @ [(int k, sp)]) (assign_connection (tc_id u) d t)"
      using un same(2) assms(1) unfolding t' by (auto simp: built_def add_ac)
    moreover have "streams (assign_connection (tc_id u) d t) = streams s"
      using str by (simp add: t' streams_def unsent_message_def incoming_def outgoing_def)
    ultimately show ?thesis
      using Some u(3) by (simp add: deref_connection_def)
  qed
qed

lemma create_all:
  fixes s :: "'a local_tunnel"
  assumes "create_connections os sps s = Inr u" "built k tab s" "k + length sps \<le> 32768"
  shows "built (k + length sps) (tab @ kept_lines os k sps s) u \<and> (listens os \<longrightarrow> kept_lines os k sps s = numbered k sps) \<and>
    (\<forall>line \<in> set (numbered k sps) - set (kept_lines os k sps s). \<exists>v :: 'a local_tunnel. cannot_listen os line v) \<and>
    streams u = streams s"
  using assms
proof (induction sps arbitrary: s k tab)
  case Nil
  then show ?case by simp
next
  case (Cons sp sps)
  let ?s = "s\<lparr>g_id := g_id s + 1\<rparr>"
  have "of_short (g_id s) = int k"
    using Cons.prems(2,3) of_to_short_small [of "int k"] by (simp add: built_def to_short_def)
  then obtain r t where r: "TunnelConnection_CreateConnection os sp True (int k) ?s = Inr (r, t)"
      "(case r of None \<Rightarrow> create_connections os sps t
        | Some c \<Rightarrow> bindE (deref_connection c t) (\<lambda>t'. create_connections os sps (assign_connection (tc_id t') c t))) = Inr u"
    using Cons.prems(1) by (cases "TunnelConnection_CreateConnection os sp True (int k) ?s") auto
  note step = built_step [OF Cons.prems(2) r(1)]
  have kept: "kept_lines os k (sp # sps) s = (case r of None \<Rightarrow> [] | Some _ \<Rightarrow> [(int k, sp)]) @ kept_lines os (Suc k) sps t"
    by (rule kept_step [OF r(1)]) simp
  show ?case
  proof (cases r)
    case None
    have lines: "kept_lines os k (sp # sps) s = kept_lines os (Suc k) sps t"
      using kept None by (simp del: kept_lines.simps)
    have "\<not> listens os"
      using r(1) None create_succeeds [of os sp True "int k" ?s] by auto
    moreover have "cannot_listen os (int k, sp) ?s"
      using create_left_out r(1) None by blast
    moreover have "create_connections os sps t = Inr u" "built (Suc k) tab t" "streams t = streams s"
      using r(2) step None by simp_all
    ultimately show ?thesis
      using Cons.IH [of t "Suc k" tab] Cons.prems(3) unfolding lines by auto
  next
    case (Some c)
    then obtain v where v: "deref_connection c t = Inr v" "built (Suc k) (tab @ [(int k, sp)]) (assign_connection (tc_id v) c t)"
        "streams (assign_connection (tc_id v) c t) = streams s"
      using step by auto
    let ?t = "assign_connection (tc_id v) c t"
    have "world ?t = world t"
      by (simp add: assign_connection_def free_connection_def Let_def split: option.splits)
    then have lines: "kept_lines os k (sp # sps) s = (int k, sp) # kept_lines os (Suc k) sps ?t"
      using kept Some kept_lines_world [of ?t t os] by (simp del: kept_lines.simps)
    have "create_connections os sps ?t = Inr u"
      using r(2) Some v(1) by simp
    then show ?thesis
      using Cons.IH [of ?t "Suc k" "tab @ [(int k, sp)]"] v(2,3) Cons.prems(3) unfolding lines by simp
  qed
qed

lemma create_all_succeeds:
  assumes "listens os"
  shows "\<exists>u. create_connections os sps s = Inr u"
proof (induction sps arbitrary: s)
  case (Cons sp sps)
  obtain v t where "TunnelConnection_CreateConnection os sp True (of_short (g_id s)) (s\<lparr>g_id := g_id s + 1\<rparr>) = Inr (Some (m_next_obj s), t)"
      "m_connections t (m_next_obj s) = Some v"
    using create_succeeds [OF assms, of sp True "of_short (g_id s)" "s\<lparr>g_id := g_id s + 1\<rparr>"] by auto
  then show ?case
    using Cons by (simp add: deref_connection_def)
qed simp

lemma numbered_facts:
  "map snd (numbered k sps) = sps" "length (numbered k sps) = length sps"
  "(i, sp) \<in> set (numbered k sps) \<Longrightarrow> sp \<in> set sps \<and> int k \<le> i \<and> i < int k + int (length sps)"
proof -
  show "map snd (numbered k sps) = sps" "length (numbered k sps) = length sps"
    by (induction sps arbitrary: k) simp_all
  show "(i, sp) \<in> set (numbered k sps) \<Longrightarrow> sp \<in> set sps \<and> int k \<le> i \<and> i < int k + int (length sps)"
    by (induction sps arbitrary: k) (auto, fastforce+)
qed

lemma numbered_filter: "length (filter (\<lambda>(i, sp). P sp) (numbered k sps)) = length (filter P sps)"
  by (induction sps arbitrary: k) simp_all

lemma kept_subseq: "subseq (kept_lines os k sps s) (numbered k sps)"
  by (induction sps arbitrary: k s) (auto split: sum.splits intro: list_emb_Cons)

section \<open>Properties\<close>

text \<open>A local side that has made no connection yet, and what it has to know of its specifications.\<close>

definition blank :: "'w local_tunnel \<Rightarrow> bool" where
  "blank s \<longleftrightarrow> unlinked s \<and> streams s = ([], [], []) \<and> m_connection_map s = [] \<and> g_id s = 0"

definition proper_spec :: "connection_spec \<Rightarrow> bool" where
  "proper_spec sp \<longleftrightarrow> valid_spec sp \<and> m_connection_type sp \<in> {CONNECT, LISTEN} \<and> length (m_connect_host sp) < 2 ^ 31"

lemma built_line:
  assumes "built (length sps) new u" "subseq new (numbered 0 sps)" "(i, c) \<in> set (m_connection_map u)"
  shows "\<exists>t. m_connections u c = Some t \<and> tc_id t = i \<and> m_kind t = local_kind (m_spec t) \<and> m_spec t \<in> set sps \<and> 0 \<le> i \<and>
    i < int (length sps)"
proof -
  obtain t where t: "m_connections u c = Some t" "tc_id t = i" "m_kind t = local_kind (m_spec t)" "0 \<le> i" "i < int (length sps)"
    using assms(1,3) by (auto simp: built_def)
  have "(i, m_spec t) \<in> set new"
    using assms(1,3) t(1,2) by (force simp: built_def table_of_def)
  then have "(i, m_spec t) \<in> set (numbered 0 sps)"
    using list_emb_set [OF assms(2)] by metis
  then show ?thesis
    using t numbered_facts(3) by blast
qed

lemma built_fresh:
  assumes "built (length sps) new u" "subseq new (numbered 0 sps)" "streams u = ([], [], [])"
    "\<forall>sp \<in> set sps. proper_spec sp" "length (filter socks_line sps) \<le> 1" "length sps < 32768"
  shows "local_fresh u"
proof -
  have str: "unsent_message u = []" "incoming u = []" "outgoing u = []"
    using assms(3) by (simp_all add: streams_def)
  have tab: "table_of u (m_connection_map u) = new" "unlinked u" "map_ordered (m_connection_map u)"
    using assms(1) by (simp_all add: built_def)
  have "length (m_connection_map u) = length new"
    unfolding tab(1) [symmetric] by (simp add: table_of_def)
  then have len: "length (m_connection_map u) < 32768"
    using list_emb_length [OF assms(2)] assms(6) by (simp add: numbered_facts)
  have socks: "length (filter (\<lambda>(i, sp). socks_line sp) new) \<le> 1"
    using list_emb_length [OF subseq_filter [OF assms(2)], of "\<lambda>(i, sp). socks_line sp"] numbered_filter [of socks_line 0 sps] assms(5)
    by simp
  have "\<exists>t. m_connections u c = Some t \<and> tc_id t = i \<and> m_kind t = local_kind (m_spec t) \<and>
      valid_spec (m_spec t) \<and> m_connection_type (m_spec t) \<in> {CONNECT, LISTEN} \<and> length (m_connect_host (m_spec t)) < 2 ^ 31 \<and>
      -32768 \<le> i \<and> i < 32768" if "(i, c) \<in> set (m_connection_map u)" for i c
    using built_line [OF assms(1,2) that] assms(4,6) by (auto simp: proper_spec_def)
  then show ?thesis
    unfolding local_fresh_def using str tab len socks by blast
qed

text \<open>C15: The local side makes the connections of its specifications. When \<open>create_connections\<close> returns, its
  table has, in the order of the command line and each with the number of its specification there, all the lines
  except those the local side listens for and whose \<open>initialize\<close> has answered that the socket cannot be made to
  listen, in the world in which it was called; whatever is left out, the lines after it are still made. Every
  connection has the kind the local side has of its line. On a system that lets it listen the call returns
  and no line is left out. What is sent for the handshake is this table, and the local side is ready for
  it.\<close>

theorem connections_created:
  fixes s :: "'w local_tunnel"
  assumes "blank s" "\<forall>sp \<in> set sps. proper_spec sp" "length (filter socks_line sps) \<le> 1" "length sps < 32768"
  shows "(\<forall>u. create_connections os sps s = Inr u \<longrightarrow>
      local_fresh u \<and> table_of u (m_connection_map u) = kept_lines os 0 sps s \<and>
      subseq (table_of u (m_connection_map u)) (numbered 0 sps) \<and>
      (\<forall>line \<in> set (numbered 0 sps) - set (table_of u (m_connection_map u)).
         \<exists>v :: 'w local_tunnel. cannot_listen os line v)) \<and>
    (listens os \<longrightarrow> (\<exists>u. create_connections os sps s = Inr u \<and> table_of u (m_connection_map u) = numbered 0 sps))"
proof -
  have start: "built 0 [] s" "streams s = ([], [], [])"
    using assms(1) by (simp_all add: blank_def built_def table_of_def map_ordered_def)
  let ?kept = "kept_lines os 0 sps s"
  have all: "built (length sps) ?kept u" "listens os \<longrightarrow> ?kept = numbered 0 sps" "streams u = ([], [], [])"
      "\<forall>line \<in> set (numbered 0 sps) - set ?kept. \<exists>v :: 'w local_tunnel. cannot_listen os line v"
      "table_of u (m_connection_map u) = ?kept"
    if "create_connections os sps s = Inr u" for u
    using create_all [OF that start(1)] assms(4) start(2) by (simp_all add: built_def)
  have "local_fresh u" if "create_connections os sps s = Inr u" for u
    using built_fresh [OF all(1) [OF that] kept_subseq all(3) [OF that] assms(2-4)] .
  then show ?thesis
    using all create_all_succeeds [of os sps s] kept_subseq by metis
qed

text \<open>A command line that forwards a port and asks for the socks server.\<close>

definition demo_blank :: "pipe_world local_tunnel" where
  "demo_blank = StdioTunnelLocal_new (StdioTunnel_new (pipe_proc 40) False
     \<lparr>c_iflag = 0, c_oflag = 0, c_lflag = 0, c_cflag = 0\<rparr> 0 0 (demo_world []))"

theorem connections_created_witness:
  "\<exists>u. create_connections (pipe_proc 40) [demo_spec, demo_socks] demo_blank = Inr u \<and> local_fresh u \<and>
     table_of u (m_connection_map u) = [(0, demo_spec), (1, demo_socks)]"
proof -
  have "blank demo_blank"
    by (simp add: blank_def demo_blank_def demo_sides unlinked_def streams_def unsent_message_def incoming_def outgoing_def
        ws_pending_def WriteStream_new_def ReadStream_new_def poller_map_def)
  moreover have "\<forall>sp \<in> set [demo_spec, demo_socks]. proper_spec sp"
    by (simp add: proper_spec_def valid_spec_def demo_spec_def demo_socks_def ConnectionSpec_isSocks5_def)
  moreover have "length (filter socks_line [demo_spec, demo_socks]) \<le> 1"
    using demo_socks_line by simp
  ultimately show ?thesis
    using connections_created [of demo_blank "[demo_spec, demo_socks]" "pipe_proc 40"] pipe_proc_listens [of 40] by auto
qed

end
