(* ===== verification/Link_Reuse.thy ===== *)
theory Link_Reuse
  imports Link_Apart
begin

text \<open>
  The number of a link is a \<open>short\<close>, and the listening side never asks whether it is still in use: what
  happens to a link that is still there when 65536 more clients have come.
\<close>

section \<open>The numbers of the clients\<close>

text \<open>A freed object stays in the table of the poller: its next event is a use of what is not there.\<close>

lemma freed_link_polled:
  assumes "m_links s a = None" "Poller_deref pa s = Inr ps"
    "flag POLLIN (revents ps) \<or> flag POLLOUT (revents ps) \<or> flag (POLLERR OR POLLHUP OR POLLNVAL) (revents ps)"
  shows "ConnectionLink_polled os a pa s = Inl (Undefined UseAfterFree)"
  using assms
  by (auto simp: ConnectionLink_polled_def ConnectionLink_readable_def ConnectionLink_writable_def deref_link_def)

lemma number_wraps: "to_short (n + 65536) = to_short n"
  by (simp add: to_short_def)

text \<open>A client is accepted under a number that is in use.\<close>

lemma accept_frees:
  assumes "m_connections s c = Some t" "m_link_map t (to_short (m_next_id t)) = Some a" "a \<noteq> m_next_obj s"
    "m_writer_attached s" "unsent_message s = []" "sys_accept os (m_listen_socket t) (world s) = (Inr sock, w1)"
    "sys_nonblock os sock w1 = (Inr y, w2)"
  shows "\<exists>u t'. ListenSide_polled os c s = Inr u \<and> m_links u a = None \<and> m_connections u c = Some t' \<and>
    m_link_map t' (to_short (m_next_id t)) = Some (m_next_obj s) \<and> world u = w2 \<and>
    (\<forall>f. poller_map u (P_Link a, f) = None \<longleftrightarrow> poller_map s (P_Link a, f) = None)"
proof -
  let ?b = "m_next_obj s" and ?x = "to_short (m_next_id t)" and ?t = "t\<lparr>m_next_id := m_next_id t + 1\<rparr>"
  let ?t' = "?t\<lparr>m_link_map := (m_link_map t)(?x \<mapsto> ?b)\<rparr>"
  let ?s = "put_link ?b (ConnectionLink_new c ?x sock) ((put_connection c ?t (s\<lparr>world := w2\<rparr>))\<lparr>m_next_obj := Suc ?b\<rparr>)"
  let ?v = "put_connection c ?t' (free_link a ?s)"
  have v: "unsent_message ?v = []" "m_writer_attached ?v" "m_links ?v a = None" "m_connections ?v c = Some ?t'"
    "world ?v = w2" "poller_map ?v = poller_map s"
    using assms(3-5)
    by (simp_all add: unsent_message_def put_link_def put_connection_def free_link_def poller_map_def fun_eq_iff)
  obtain u where u: "CustomWriteStream_send (put_bytes (enc_header (tc_id t) LINK_CREATE ?x) ?v) = Inr u" "same_heap ?v u"
      "world u = world ?v"
    using send_message [OF v(2), of "enc_header (tc_id t) LINK_CREATE ?x"]
    by (auto simp: enc_header_def enc_int_def enc_short_def)
  have "ListenSide_polled os c s = Inr u"
    using assms(1,2,6,7) u(1)
    by (simp add: ListenSide_polled_def deref_connection_def syscall_def new_link_def assign_link_def put_header_enc
        put_connection_def put_link_def free_link_def)
  moreover have "poller_map u k = None \<longleftrightarrow> poller_map s k = None" for k
    using registered_send [OF u(1), of k] v(6) by (simp add: put_bytes_def writing_def poller_map_def)
  ultimately show ?thesis
    using u(2,3) v(3-5) by (auto simp: same_heap_def)
qed

section \<open>Property\<close>

text \<open>C25: The numbers of the links of a connection wrap, and a link in use is not spared. When the 65536th client
  after it comes, a link that is still there is freed, and the new client has its number; its socket
  is not closed and its entry in the poller not removed, so that with the next event on it the event loop
  calls a freed object.\<close>

theorem reused_number_frees_link:
  assumes "m_connections s c = Some t" "m_link_map t x = Some a" "x = to_short n" "m_next_id t = n + 65536" "a \<noteq> m_next_obj s"
    "m_writer_attached s" "unsent_message s = []" "sys_accept os (m_listen_socket t) (world s) = (Inr sock, w1)"
    "sys_nonblock os sock w1 = (Inr y, w2)"
  shows "\<exists>u t'. ListenSide_polled os c s = Inr u \<and> m_connections u c = Some t' \<and> m_link_map t' x = Some (m_next_obj s) \<and>
    m_links u a = None \<and> world u = w2 \<and> (\<forall>f. poller_map u (P_Link a, f) = None \<longleftrightarrow> poller_map s (P_Link a, f) = None) \<and>
    (\<forall>pa ps. Poller_deref pa u = Inr ps \<and>
       (flag POLLIN (revents ps) \<or> flag POLLOUT (revents ps) \<or> flag (POLLERR OR POLLHUP OR POLLNVAL) (revents ps)) \<longrightarrow>
       ConnectionLink_polled os a pa u = Inl (Undefined UseAfterFree))"
proof -
  have x: "to_short (m_next_id t) = x"
    using assms(3,4) by (simp add: number_wraps)
  then have "m_link_map t (to_short (m_next_id t)) = Some a"
    using assms(2) by simp
  from accept_frees [OF assms(1) this assms(5-9), unfolded x] show ?thesis
    using freed_link_polled by metis
qed

text \<open>The first client of a connection, with object 7 and an event on its socket, when 65536 more have come.\<close>

definition demo_wrapped :: "pipe_world local_tunnel" where
  "demo_wrapped = demo_l\<lparr>m_connections := [0 \<mapsto> (ListenSide_new demo_spec 0)\<lparr>m_next_id := 66037, m_link_map := [501 \<mapsto> 7]\<rparr>],
     m_links := [7 \<mapsto> ConnectionLink_new 0 501 9], m_next_obj := 8,
     m_polled := [\<lparr>e_addr = 3, e_polled = P_Link 7, e_pollfd = \<lparr>fd = 9, events = POLLIN, revents = POLLIN\<rparr>\<rparr>], m_next_addr := 4\<rparr>"

lemma demo_wrapped_event:
  "ListenSide_polled (pipe_proc 40) 0 demo_wrapped = Inr u \<Longrightarrow> \<exists>ps. Poller_deref 3 u = Inr ps \<and> flag POLLIN (revents ps)"
proof -
  have x: "to_short 66037 = 501" "flag POLLIN POLLIN"
    by (simp_all add: to_short_def poll_simps)
  show "ListenSide_polled (pipe_proc 40) 0 demo_wrapped = Inr u \<Longrightarrow> \<exists>ps. Poller_deref 3 u = Inr ps \<and> flag POLLIN (revents ps)"
    by (auto simp: ListenSide_polled_def syscall_def new_link_def put_link_def assign_link_def put_connection_def put_header_def
        demo_wrapped_def deref_connection_def demo_sides Let_def free_link_def put_short_def writing_def CustomWriteStream_send_def
        ListenSide_new_def Poller_setEvents_def Poller_deref_def x)
qed

theorem reused_number_frees_link_witness:
  "\<exists>u. ListenSide_polled (pipe_proc 40) 0 demo_wrapped = Inr u \<and> m_links demo_wrapped 7 \<noteq> None \<and> m_links u 7 = None \<and>
     world u = world demo_wrapped \<and> poller_map u (P_Link 7, 9) \<noteq> None \<and>
     ConnectionLink_polled (pipe_proc 40) 7 3 u = Inl (Undefined UseAfterFree)"
proof -
  let ?t = "(ListenSide_new demo_spec 0)\<lparr>m_next_id := 66037, m_link_map := [501 \<mapsto> 7]\<rparr>"
  have s: "m_connections demo_wrapped 0 = Some ?t" "m_link_map ?t 501 = Some 7" "501 = to_short 501" "m_next_id ?t = 501 + 65536"
    "7 \<noteq> m_next_obj demo_wrapped" "m_writer_attached demo_wrapped" "unsent_message demo_wrapped = []"
    "m_links demo_wrapped 7 \<noteq> None" "poller_map demo_wrapped (P_Link 7, 9) \<noteq> None"
    using demo_l_facts(2)
    by (simp_all add: demo_wrapped_def to_short_def unsent_message_def poller_map_def) (simp add: demo_sides)
  have sys: "sys_accept (pipe_proc 40) f w = (Inr 20, w)" "sys_nonblock (pipe_proc 40) f w = (Inr (), w)" for f w
    by (simp_all add: pipe_proc_def pipe_net_def net_posix.extend_def posix.extend_def)
  show ?thesis
    using reused_number_frees_link [OF s(1-7) sys] s(8,9) demo_wrapped_event by metis
qed

end
