(* ===== verification/Socks_Threads.thy ===== *)
theory Socks_Threads
  imports Socks5
begin

text \<open>
  What the socks server promises: the collection of finished threads keeps exactly the running ones, and
  the protocol with a client always ends, with every access to the request inside what was received.
\<close>

section \<open>The list of threads\<close>

definition thread_done :: "socks5_server \<Rightarrow> nat \<Rightarrow> bool" where
  "thread_done v a = (case srv_threads v a of None \<Rightarrow> False | Some t \<Rightarrow> st_done t)"

definition threads_of :: "socks5_server \<Rightarrow> nat list" where
  "threads_of v = sblist_abs (m_threads v)"

text \<open>Every entry of the list is an object of its own.\<close>

definition server_ok :: "socks5_server \<Rightarrow> bool" where
  "server_ok v \<longleftrightarrow> sblist_inv (m_threads v) \<and> distinct (threads_of v) \<and> set (threads_of v) \<subseteq> dom (srv_threads v) \<and>
     (\<forall>a \<in> dom (srv_threads v). a < srv_next v)"

lemma threads_of_nth:
  assumes "sblist_inv (m_threads v)" "i < sblist_getsize (m_threads v)"
  shows "items (m_threads v) ! i = Some (threads_of v ! i)" "i < length (threads_of v)"
  using assms by (auto simp: threads_of_def sblist_abs_def sblist_inv_def sblist_getsize_def)

lemma threads_of_size: "sblist_inv (m_threads v) \<Longrightarrow> sblist_getsize (m_threads v) = length (threads_of v)"
  by (simp add: threads_of_def sbl.size_abs)

definition drop_thread :: "nat \<Rightarrow> socks5_server \<Rightarrow> socks5_server" where
  "drop_thread i v = v\<lparr>m_threads := sblist_delete i (m_threads v), srv_threads := (srv_threads v)(threads_of v ! i := None)\<rparr>"

lemma collect_step:
  assumes "server_ok v" "i < length (threads_of v)"
  shows "Socks5Server_collect_from os i v w =
    (if thread_done v (threads_of v ! i)
     then Socks5Server_collect_from os i (drop_thread i v) (sys_thread_join os (threads_of v ! i) w)
     else Socks5Server_collect_from os (i + 1) v w)"
proof -
  have inv: "sblist_inv (m_threads v)" and i: "i < sblist_getsize (m_threads v)"
    using assms threads_of_size [of v] by (simp_all add: server_ok_def)
  moreover obtain t where "srv_threads v (threads_of v ! i) = Some t"
    using assms(1) nth_mem [OF assms(2)] unfolding server_ok_def by blast
  ultimately show ?thesis
    using threads_of_nth [OF inv i]
    by (subst Socks5Server_collect_from.simps) (simp add: thread_done_def drop_thread_def)
qed

lemma drop_thread_ok:
  assumes "server_ok v" "i < length (threads_of v)"
  shows "server_ok (drop_thread i v)" "threads_of (drop_thread i v) = take i (threads_of v) @ drop (Suc i) (threads_of v)"
    "\<And>a. a \<noteq> threads_of v ! i \<Longrightarrow> thread_done (drop_thread i v) a = thread_done v a"
    "srv_fd (drop_thread i v) = srv_fd v"
proof -
  let ?xs = "threads_of v"
  show t: "threads_of (drop_thread i v) = take i ?xs @ drop (Suc i) ?xs"
    using assms sbl.del_abs [of "m_threads v" i] by (simp add: threads_of_def drop_thread_def server_ok_def)
  have "?xs = take i ?xs @ ?xs ! i # drop (Suc i) ?xs"
    using assms(2) by (rule id_take_nth_drop)
  moreover have "distinct ?xs"
    using assms(1) by (simp add: server_ok_def)
  ultimately have "distinct (take i ?xs @ drop (Suc i) ?xs)" "?xs ! i \<notin> set (take i ?xs @ drop (Suc i) ?xs)"
    "set (take i ?xs @ drop (Suc i) ?xs) \<subseteq> set ?xs"
    by (metis distinct.simps(2) distinct_append not_distinct_conv_prefix Un_iff set_append disjoint_insert(1) list.simps(15),
        metis distinct.simps(2) distinct_append Un_iff set_append disjoint_insert(1) list.simps(15),
        use set_take_subset set_drop_subset in fastforce)
  then show "server_ok (drop_thread i v)"
    using assms(1) unfolding server_ok_def t by (auto simp: drop_thread_def sbl.inv_del)
qed (simp_all add: thread_done_def drop_thread_def)

text \<open>From index \<open>i\<close> on.\<close>

lemma collect_from:
  "server_ok v \<Longrightarrow> i \<le> length (threads_of v) \<Longrightarrow>
     \<exists>v'. Socks5Server_collect_from os i v w =
         Inr (v', fold (sys_thread_join os) (filter (thread_done v) (drop i (threads_of v))) w) \<and>
       server_ok v' \<and> srv_fd v' = srv_fd v \<and>
       threads_of v' = take i (threads_of v) @ filter (\<lambda>a. \<not> thread_done v a) (drop i (threads_of v)) \<and>
       (\<forall>a. srv_threads v' a = (if a \<in> set (drop i (threads_of v)) \<and> thread_done v a then None else srv_threads v a))"
proof (induction "length (threads_of v) - i" arbitrary: i v w)
  case 0
  then show ?case
    using threads_of_size [of v] by (subst Socks5Server_collect_from.simps) (simp add: server_ok_def)
next
  case (Suc n)
  let ?xs = "threads_of v"
  let ?x = "?xs ! i"
  have i: "i < length ?xs"
    using Suc.hyps(2) by simp
  then have d: "drop i ?xs = ?x # drop (Suc i) ?xs"
    by (simp add: Cons_nth_drop_Suc)
  show ?case
  proof (cases "thread_done v ?x")
    case False
    obtain v' where "Socks5Server_collect_from os (Suc i) v w =
        Inr (v', fold (sys_thread_join os) (filter (thread_done v) (drop (Suc i) ?xs)) w)"
      "server_ok v'" "srv_fd v' = srv_fd v" "threads_of v' = take (Suc i) ?xs @ filter (\<lambda>a. \<not> thread_done v a) (drop (Suc i) ?xs)"
      "\<forall>a. srv_threads v' a = (if a \<in> set (drop (Suc i) ?xs) \<and> thread_done v a then None else srv_threads v a)"
      using Suc.hyps(1) [of v "Suc i" w] Suc.hyps(2) Suc.prems Suc_leI [OF i] by (metis Suc_diff_Suc i old.nat.inject)
    then show ?thesis
      using False collect_step [OF Suc.prems(1) i, of os w] i by (auto simp: d take_Suc_conv_app_nth)
  next
    case True
    let ?v = "drop_thread i v"
    note ok = drop_thread_ok [OF Suc.prems(1) i]
    have "distinct (?x # drop (Suc i) ?xs)"
      using Suc.prems(1) unfolding d [symmetric] by (simp add: server_ok_def)
    then have "thread_done ?v a = thread_done v a" if "a \<in> set (drop (Suc i) ?xs)" for a
      using ok(3) [of a] that by auto
    then have same: "filter (thread_done ?v) (drop (Suc i) ?xs) = filter (thread_done v) (drop (Suc i) ?xs)"
        "filter (\<lambda>a. \<not> thread_done ?v a) (drop (Suc i) ?xs) = filter (\<lambda>a. \<not> thread_done v a) (drop (Suc i) ?xs)"
      by (simp_all cong: filter_cong)
    have parts: "drop i (threads_of ?v) = drop (Suc i) ?xs" "take i (threads_of ?v) = take i ?xs"
      and n: "n = length (threads_of ?v) - i" "i \<le> length (threads_of ?v)"
      using Suc.hyps(2) i by (simp_all add: ok(2))
    obtain v' where v': "Socks5Server_collect_from os i ?v (sys_thread_join os ?x w) =
        Inr (v', fold (sys_thread_join os) (filter (thread_done v) (drop (Suc i) ?xs)) (sys_thread_join os ?x w))"
      "server_ok v'" "srv_fd v' = srv_fd v" "threads_of v' = take i ?xs @ filter (\<lambda>a. \<not> thread_done v a) (drop (Suc i) ?xs)"
      "\<forall>a. srv_threads v' a = (if a \<in> set (drop (Suc i) ?xs) \<and> thread_done ?v a then None else srv_threads ?v a)"
      using Suc.hyps(1) [OF n(1) ok(1) n(2), of "sys_thread_join os ?x w", unfolded parts same ok(4)] by blast
    have "srv_threads v' a = (if a \<in> set (drop i ?xs) \<and> thread_done v a then None else srv_threads v a)" for a
      using v'(5) ok(3) [of a] True \<open>distinct (?x # drop (Suc i) ?xs)\<close> unfolding d by (cases "a = ?x") (auto simp: drop_thread_def)
    then show ?thesis
      using v' True collect_step [OF Suc.prems(1) i, of os w] by (simp add: d)
  qed
qed

section \<open>The protocol with a client\<close>

lemma target_defined: "\<exists>r. socks_target os buf = Inr r"
proof -
  have addr: "\<exists>r. socks_target_addr os fam n buf = Inr r \<and> (\<forall>name m. r = Inr (name, m) \<longrightarrow> m = n \<and> n \<le> length buf)"
    if "n = (if fam = AF_INET6 then 22 else 10)" for fam n
    using that by (auto simp: socks_target_addr_def buf_slice_def split: option.splits)
  have port: "\<exists>r. bindE (buf_at buf (n - 2)) (\<lambda>hi. bindE (buf_at buf (n - 1)) (\<lambda>lo. Inr (Inr (name, f hi lo)))) = Inr r"
    if "n \<le> length buf" "2 \<le> n" for n name f
  proof -
    have "n - 2 < length buf" "n - 1 < length buf"
      using that by linarith+
    then show ?thesis by (simp add: buf_at_def)
  qed
  show ?thesis
    unfolding socks_target_def
    using addr [of 22 AF_INET6] addr [of 10 AF_INET] port
    by (auto simp: buf_at_def buf_slice_def Let_def split: sum.splits prod.splits)
qed


text \<open>\<open>getaddrinfo\<close> that succeeds gives at least one address.\<close>

definition resolves :: "('w, 'o) proc_posix_scheme \<Rightarrow> bool" where
  "resolves os \<longleftrightarrow> (\<forall>name service w. fst (sys_getaddrinfo os name service w) \<noteq> Inr [])"

lemma connect_target_returns:
  assumes "resolves os"
  shows "\<exists>r. connect_socks_target os buf w = Inr r"
proof -
  obtain r where r: "socks_target os buf = Inr r"
    using target_defined by blast
  show ?thesis
  proof (cases r)
    case (Inr target)
    obtain name port where target: "target = (name, port)"
      by fastforce
    obtain q w1 where q: "resolve os name port w = (q, w1)"
      by fastforce
    have "q \<noteq> Inr []"
      using assms q unfolding resolves_def resolve_def by (metis fst_conv)
    then show ?thesis
      using r Inr target q by (cases q; cases "projr q") (auto simp: connect_socks_target_def split: prod.splits sum.splits)
  qed (simp add: connect_socks_target_def r)
qed

lemma authed_returns:
  assumes "resolves os"
  shows "\<exists>r w'. socks5_loop (Suc n) os f SS_3_AUTHED w = Inr (r, w') \<and> (r = -1 \<or> 0 \<le> r)"
proof -
  obtain b w1 where b: "sys_read os f 1024 w = (b, w1)"
    by fastforce
  show ?thesis
  proof (cases b)
    case (Inr buf)
    obtain ret w2 where "connect_socks_target os buf w1 = Inr (ret, w2)"
      using connect_target_returns [OF assms, of buf w1] by auto
    then show ?thesis
      using b Inr by (cases buf) (auto split: prod.splits bool.splits)
  qed (simp add: b)
qed

text \<open>The greeting, whatever it says, is answered, or the exchange is over.\<close>

lemma greeting_step:
  "\<exists>w'. socks5_loop (Suc n) os f SS_1_CONNECTED w = Inr (-1, w') \<or>
     socks5_loop (Suc n) os f SS_1_CONNECTED w = socks5_loop n os f SS_3_AUTHED w'"
proof -
  obtain b w1 where b: "sys_read os f 1024 w = (b, w1)"
    by fastforce
  obtain ok w2 where ok: "write_all os f [5, AM_NO_AUTH] w1 = (ok, w2)"
    by fastforce
  show ?thesis
  proof (cases b)
    case (Inr buf)
    show ?thesis
    proof (cases buf)
      case (Cons x xs)
      have "socks5_loop (Suc n) os f SS_1_CONNECTED w = (if ok then socks5_loop n os f SS_3_AUTHED w2 else Inr (-1, w2))"
        unfolding socks5_loop.simps(2) [of n] b Inr Cons by (cases ok) (simp_all only: ok prod.case sum.case list.case
          socksstate.case bool.case if_True if_False)
      then show ?thesis by (cases ok) auto
    qed (rule exI [of _ w1], simp add: b Inr)
  qed (rule exI [of _ w1], simp add: b)
qed

section \<open>Properties\<close>

text \<open>C22: The collection of finished threads is the same as filtering: the threads that are done are joined
  in the order of the list and freed, the others stay in their order, and the bookkeeping of the server
  stays in order. The loop never meets a missing entry or an object that has been freed.\<close>

theorem collect_is_filter:
  assumes "server_ok v"
  shows "\<exists>v'. Socks5Server_collect os v w =
      Inr (v', fold (sys_thread_join os) (filter (thread_done v) (threads_of v)) w) \<and> server_ok v' \<and>
    threads_of v' = filter (\<lambda>a. \<not> thread_done v a) (threads_of v) \<and>
    (\<forall>a. srv_threads v' a = (if a \<in> set (threads_of v) \<and> thread_done v a then None else srv_threads v a))"
  using collect_from [OF assms, of 0 os w] by (auto simp: Socks5Server_collect_def)

text \<open>Three threads, the middle one still running.\<close>

definition demo_server :: socks5_server where
  "demo_server = \<lparr>srv_fd = 3,
     m_threads = \<lparr>itemsize = 8, blockitems = 8, count = 3, capa = 4, items = [Some 0, Some 1, Some 2, None]\<rparr>,
     srv_threads = [0 \<mapsto> \<lparr>st_client = \<lparr>cl_addr = None, cl_fd = 5\<rparr>, st_done = True\<rparr>,
       1 \<mapsto> \<lparr>st_client = \<lparr>cl_addr = None, cl_fd = 6\<rparr>, st_done = False\<rparr>,
       2 \<mapsto> \<lparr>st_client = \<lparr>cl_addr = None, cl_fd = 7\<rparr>, st_done = True\<rparr>],
     srv_next = 3\<rparr>"

theorem collect_is_filter_witness:
  "\<exists>v' w. Socks5Server_collect (pipe_proc 40) demo_server (demo_world []) = Inr (v', w) \<and> threads_of v' = [1] \<and>
     srv_threads v' 0 = None \<and> srv_threads v' 1 \<noteq> None \<and> srv_threads v' 2 = None"
proof -
  have "server_ok demo_server"
    by (auto simp: server_ok_def demo_server_def threads_of_def sblist_abs_def sblist_inv_def less_Suc_eq numeral_3_eq_3)
  from collect_is_filter [OF this, of "pipe_proc 40" "demo_world []"] show ?thesis
    by (auto simp: threads_of_def demo_server_def sblist_abs_def thread_done_def)
qed

text \<open>C40: The exchange with a socks client always returns, after at most two requests, on every input a client
  may send: the length checks keep every access to the request inside the bytes received. The result is the descriptor of the connection or -1.\<close>

theorem socks5_handshake_returns:
  assumes "resolves os"
  shows "\<exists>r w'. socks5_handshake os f w = Inr (r, w') \<and> (r = -1 \<or> 0 \<le> r)"
proof -
  from greeting_step [of "Suc 0" os f w] obtain w' where "socks5_loop (Suc (Suc 0)) os f SS_1_CONNECTED w = Inr (-1, w') \<or>
      socks5_loop (Suc (Suc 0)) os f SS_1_CONNECTED w = socks5_loop (Suc 0) os f SS_3_AUTHED w'"
    by (elim exE) (rule that)
  then show ?thesis
    using authed_returns [OF assms, of 0 f w'] unfolding socks5_handshake_def numeral_2_eq_2 by metis
qed

theorem socks5_handshake_returns_witness:
  "resolves (pipe_proc 10) \<and>
   (\<exists>r w'. socks5_handshake (pipe_proc 10) 5 (demo_world ([5, 8, 0, 0, 0, 0, 0, 0, 0, 0] @ [5, 1, 0, 1, 127, 0, 0, 1, 0, 80])) =
      Inr (r, w') \<and> (r = -1 \<or> 0 \<le> r))"
proof -
  have *: "resolves (pipe_proc 10)"
    by (simp add: resolves_def pipe_proc_def net_posix.extend_def)
  show ?thesis
    by (intro conjI *) (rule socks5_handshake_returns [OF *])
qed

end
