(* ===== verification/Command_Line.thy ===== *)
theory Command_Line
  imports Cmdline
begin

text \<open>
  What the configuration of the local side promises: the specifications and the command it collects, on
  the arguments the manual describes and on any others.
\<close>

section \<open>The configured state\<close>

definition count_socks :: "connection_spec list \<Rightarrow> nat" where
  "count_socks specs = length (filter ConnectionSpec_isSocks5 specs)"

lemma count_socks_simps [simp]:
  "count_socks [] = 0" "count_socks (specs @ [sp]) = (if ConnectionSpec_isSocks5 sp then count_socks specs + 1 else count_socks specs)"
  by (simp_all add: count_socks_def)

text \<open>The invariant of the loop: \<open>n\<close> counts the socks specifications, and all are valid.\<close>

definition collecting :: "nat \<Rightarrow> 'w local_tunnel \<Rightarrow> bool" where
  "collecting n s \<longleftrightarrow> list_all valid_spec (m_connection_specs s) \<and> n = count_socks (m_connection_specs s)"

lemma collecting_more [simp]:
  "collecting n (s\<lparr>world := w\<rparr>) = collecting n s" "collecting n (s\<lparr>m_force_pipe := b\<rparr>) = collecting n s"
  "collecting n (s\<lparr>m_expects_pipe := b\<rparr>) = collecting n s" "collecting n (s\<lparr>m_daemon := b\<rparr>) = collecting n s"
  "collecting n (s\<lparr>m_silent := b\<rparr>) = collecting n s" "collecting n (s\<lparr>m_read_buffer := r\<rparr>) = collecting n s"
  "collecting n (s\<lparr>m_command := c\<rparr>) = collecting n s"
  by (simp_all add: collecting_def)

lemma collecting_spec:
  assumes "collecting n s"
  shows "parseConnection LISTEN arg = Inr sp \<Longrightarrow> collecting n (s\<lparr>m_connection_specs := m_connection_specs s @ [sp]\<rparr>)"
    and "parseConnection CONNECT arg = Inr sp \<Longrightarrow> ConnectionSpec_isSocks5 sp \<Longrightarrow>
      collecting (Suc n) (s\<lparr>m_connection_specs := m_connection_specs s @ [sp]\<rparr>)"
    and "parseConnection CONNECT arg = Inr sp \<Longrightarrow> \<not> ConnectionSpec_isSocks5 sp \<Longrightarrow>
      collecting n (s\<lparr>m_connection_specs := m_connection_specs s @ [sp]\<rparr>)"
  using assms by (auto simp: collecting_def valid_spec_def LISTEN_def CONNECT_def dest!: parse_valid)

definition is_tail :: "'a list \<Rightarrow> 'a list \<Rightarrow> bool" where
  "is_tail xs ys \<longleftrightarrow> (\<exists>used. ys = used @ xs)"

lemma is_tail_simps [simp]: "is_tail xs xs" "is_tail (tl xs) xs"
proof -
  show "is_tail xs xs"
    by (simp add: is_tail_def)
  have "xs = take 1 xs @ tl xs"
    by (cases xs) simp_all
  then show "is_tail (tl xs) xs"
    unfolding is_tail_def by blast
qed

lemma is_tail_Cons [simp]: "is_tail xs ys \<Longrightarrow> is_tail xs (y # ys)"
  unfolding is_tail_def by (metis append_Cons)

lemma is_tail_length: "is_tail xs ys \<Longrightarrow> length xs \<le> length ys"
  by (auto simp: is_tail_def)

lemma is_tail_trans: "is_tail xs ys \<Longrightarrow> is_tail ys zs \<Longrightarrow> is_tail xs zs"
  unfolding is_tail_def by (metis append.assoc)

text \<open>The command is a tail of the arguments.\<close>

definition from_args :: "string list \<Rightarrow> 'w local_tunnel \<Rightarrow> 'w local_tunnel \<Rightarrow> bool" where
  "from_args args s t \<longleftrightarrow> m_command t = m_command s \<or> (\<exists>cmd. m_command t = Some cmd \<and> is_tail cmd args)"

lemma from_args_more: "from_args xs u t \<Longrightarrow> m_command u = m_command s \<Longrightarrow> is_tail xs args \<Longrightarrow> from_args args s t"
  unfolding from_args_def by (metis is_tail_trans)

lemma from_args_simps [simp]:
  "m_command t = m_command s \<Longrightarrow> from_args args s t"
  "m_command t = Some cmd \<Longrightarrow> is_tail cmd args \<Longrightarrow> from_args args s t"
  by (auto simp: from_args_def)

lemma configure_loop_collects:
  "collecting n s \<Longrightarrow>
     res_ok (\<lambda>_. True) (\<lambda>(k, t). collecting k t \<and> from_args args s t) (configure_loop os args n s)"
proof (induction args arbitrary: n s rule: length_induct)
  case (1 args)
  show ?case
  proof (cases args)
    case Nil
    then show ?thesis using 1(2) by simp
  next
    case (Cons arg rest)
    have IH: "res_ok (\<lambda>_. True) (\<lambda>(k, t). collecting k t \<and> from_args (arg # rest) s t) (configure_loop os xs k u)"
      if "is_tail xs rest" "collecting k u" "m_command u = m_command s" for xs k u
    proof -
      have "res_ok (\<lambda>_. True) (\<lambda>(k, t). collecting k t \<and> from_args xs u t) (configure_loop os xs k u)"
        using 1(1) that(1,2) is_tail_length [OF that(1)] Cons by (simp add: less_Suc_eq_le)
      then show ?thesis
        by (rule res_ok_mono) (use that(1,3) in \<open>auto intro: from_args_more\<close>)
    qed
    show ?thesis
      using 1(2) unfolding Cons configure_loop.simps(2) Let_def
      by (intro res_ok_if res_ok_sum res_ok_prod) (auto intro!: IH intro: collecting_spec)
  qed
qed

section \<open>Printed command lines\<close>

text \<open>One option per specification, as the manual gives them, and the command after the double dash.\<close>

definition print_option :: "connection_spec \<Rightarrow> string list" where
  "print_option sp = [if m_connection_type sp = CONNECT then ''-L'' else ''-R'', print_spec sp]"

definition print_args :: "connection_spec list \<Rightarrow> string list \<Rightarrow> string list" where
  "print_args specs cmd = concat (map print_option specs) @ ''--'' # cmd"

definition option_spec :: "connection_spec \<Rightarrow> bool" where
  "option_spec sp \<longleftrightarrow> printable sp \<and> m_connection_type sp \<in> {CONNECT, LISTEN}"

lemma print_args_simps [simp]:
  "print_args [] cmd = ''--'' # cmd" "print_args (sp # specs) cmd = print_option sp @ print_args specs cmd"
  by (simp_all add: print_args_def)

lemma scan_option [simp]: "CreateTunnel_scan (print_option sp @ rest) r = CreateTunnel_scan rest r"
  by (simp add: print_option_def is_option_def string_at_def Let_def)

lemma scan_print_args: "CreateTunnel_scan (print_args specs cmd) r = Inr r"
  by (induction specs) (simp_all add: is_option_def string_at_def Let_def)

lemma loop_option:
  assumes "option_spec sp" "\<not> m_silent s"
  shows "configure_loop os (print_option sp @ rest) n s =
    configure_loop os rest (if ConnectionSpec_isSocks5 sp then n + 1 else n) (s\<lparr>m_connection_specs := m_connection_specs s @ [sp]\<rparr>)"
proof (cases "m_connection_type sp = CONNECT")
  case True
  then show ?thesis
    using assms parse_print [of sp]
    by (simp add: print_option_def configure_loop.simps(2) is_option_def string_at_def Let_def option_spec_def)
next
  case False
  then have "m_connection_type sp = LISTEN" "\<not> ConnectionSpec_isSocks5 sp"
    using assms(1) by (auto simp: option_spec_def printable_def)
  then show ?thesis
    using False assms parse_print [of sp]
    by (simp add: print_option_def configure_loop.simps(2) is_option_def string_at_def Let_def option_spec_def)
qed

lemma loop_print_args:
  "list_all option_spec specs \<Longrightarrow> \<not> m_silent s \<Longrightarrow>
     configure_loop os (print_args specs cmd) n s =
       Inr (n + count_socks specs, s\<lparr>m_connection_specs := m_connection_specs s @ specs, m_command := Some cmd\<rparr>)"
proof (induction specs arbitrary: n s)
  case Nil
  then show ?case
    by (simp add: configure_loop.simps(2) is_option_def string_at_def Let_def)
next
  case (Cons sp specs)
  then show ?case
    by (simp add: loop_option count_socks_def)
qed

lemma configure_print_args:
  assumes "list_all option_spec specs" "specs \<noteq> []" "count_socks specs \<le> 1" "cmd \<noteq> []"
  shows "StdioTunnelLocal_configure os (print_args specs cmd) (StdioTunnelLocal_new base) =
    Inr ((StdioTunnelLocal_new base)\<lparr>m_connection_specs := specs, m_command := Some cmd\<rparr>)"
proof -
  have "\<not> m_silent (StdioTunnelLocal_new base)" "m_connection_specs (StdioTunnelLocal_new base) = []"
    by (simp_all add: StdioTunnelLocal_new_def Let_def tunnel.extend_def)
  then show ?thesis
    using assms(2-4) loop_print_args [OF assms(1), where s = "StdioTunnelLocal_new base" and os = os and cmd = cmd and n = 0]
    by (simp add: StdioTunnelLocal_configure_def)
qed

section \<open>Errors\<close>

text \<open>A command line the program does not understand ends it with exit status 0.\<close>

lemma unknown_option_exit_status:
  "main_program fuel rounds os (''-e'' # args) base = Inr 0"
  by (simp add: main_program_def StdioTunnel_CreateTunnel_def is_option_def string_at_def Let_def usage_catch_def main_catch_def)

text \<open>What is printed does not change the exit status; an unknown option gets the usage and nothing else.\<close>

lemma report_exit_status:
  "snd (main_report endl what fuel rounds os args base) = main_program fuel rounds os args base"
  by (simp add: main_report_def main_program_def split: sum.split)

lemma unknown_option_usage:
  "main_report endl what fuel rounds os (''-e'' # args) base = (usage_text endl, Inr 0)"
  by (simp add: main_report_def StdioTunnel_CreateTunnel_def is_option_def string_at_def Let_def usage_catch_def
      main_catch_def usage_prints_def main_prints_def)

text \<open>\<open>Normal exit\<close> is printed exactly when the tunnel ends without an exception, and then the status is 0.\<close>

lemma normal_exit:
  assumes "StdioTunnel_CreateTunnel os args base = Inr t"
  shows "tunnel_startFinish fuel rounds os t = Inr u \<Longrightarrow>
      main_report endl what fuel rounds os args base = (''Normal exit'' @ endl, Inr 0)"
    and "tunnel_startFinish fuel rounds os t = Inl (MyException m) \<Longrightarrow>
      main_report endl what fuel rounds os args base = (what (MyException m) @ endl, Inr 1)"
  using assms by (simp_all add: main_report_def main_prints_def main_catch_def)

section \<open>Signals\<close>

text \<open>
  When a signal has arrived in a round of the event loop, the callback after that round makes it the last:
  the loop ends and the clean-up follows.
\<close>

lemma signal_ends_loop:
  assumes "sys_signaled os = g_signaled" "\<not> m_finishing s" "Poller_pollOnce os polled s = Inr (r, t)" "r \<noteq> 0"
    "m_callback t" "world t = signalHandler sig w"
  shows "Poller_loop (Suc n) os polled (StdioTunnel_pollCallback os) s = Inr (True, Poller_requestFinish t)"
proof -
  have "StdioTunnel_pollCallback os t = Poller_requestFinish t" "m_finishing (Poller_requestFinish t)"
    using assms(1,6) by (simp_all add: StdioTunnel_pollCallback_def signalHandler_def Poller_requestFinish_def)
  then show ?thesis
    using assms(2-5) by (simp add: Poller_loop.simps [of "Suc n"] Poller_loop.simps [of n])
qed

section \<open>Properties\<close>

text \<open>C39: A configured local side is well formed, whatever the command line: it has at least one
  specification, every one has a positive listen port, a connect port that is not negative, known flags
  and asks for the socks server only on the remote side, at most one does, and there is a command that is
  not empty and ends the command line.\<close>

theorem configured_well_formed:
  assumes "StdioTunnelLocal_configure os args (StdioTunnelLocal_new base) = Inr t"
  shows "m_connection_specs t \<noteq> [] \<and> list_all valid_spec (m_connection_specs t) \<and>
    count_socks (m_connection_specs t) \<le> 1 \<and> (\<exists>cmd used. m_command t = Some cmd \<and> cmd \<noteq> [] \<and> args = used @ cmd)"
proof -
  let ?s = "StdioTunnelLocal_new base"
  have s: "collecting 0 ?s" "m_command ?s = None"
    by (simp_all add: collecting_def StdioTunnelLocal_new_def Let_def tunnel.extend_def)
  obtain n u where u: "configure_loop os args 0 ?s = Inr (n, u)" "t = u" "m_connection_specs u \<noteq> []" "m_command u \<notin> {None, Some []}"
      "n \<le> 1"
    using assms by (auto simp: StdioTunnelLocal_configure_def exn_simps split: if_splits)
  then have "collecting n u" "from_args args ?s u"
    using configure_loop_collects [OF s(1), of args os] by auto
  then show ?thesis
    using u s(2) by (auto simp: collecting_def from_args_def is_tail_def)
qed

text \<open>C20: The command line of the manual's form is understood: from one option for each specification, a
  double dash and a command, \<open>CreateTunnel\<close> makes a local side with exactly these specifications, in
  order, and this command, and nothing else changed.\<close>

theorem command_line_roundtrip:
  assumes "list_all option_spec specs" "specs \<noteq> []" "count_socks specs \<le> 1" "cmd \<noteq> []"
  shows "StdioTunnel_CreateTunnel os (print_args specs cmd) base =
    Inr (AnyLocal ((StdioTunnelLocal_new base)\<lparr>m_connection_specs := specs, m_command := Some cmd\<rparr>))"
  by (simp add: StdioTunnel_CreateTunnel_def scan_print_args configure_print_args [OF assms])

lemma demo_specs:
  "list_all option_spec [demo_spec, demo_spec\<lparr>m_connection_type := LISTEN, m_flags := 0\<rparr>]"
  "count_socks [demo_spec, demo_spec\<lparr>m_connection_type := LISTEN, m_flags := 0\<rparr>] \<le> 1"
  by (simp_all add: option_spec_def printable_def demo_spec_def ConnectionSpec_isSocks5_def count_socks_def)

theorem command_line_roundtrip_witness:
  "StdioTunnel_CreateTunnel (pipe_proc 40)
     (print_args [demo_spec, demo_spec\<lparr>m_connection_type := LISTEN, m_flags := 0\<rparr>] [''ssh'', ''host''])
     (StdioTunnel_new (pipe_proc 40) False \<lparr>c_iflag = 0, c_oflag = 0, c_lflag = 0, c_cflag = 0\<rparr> 0 0 (demo_world [])) =
   Inr (AnyLocal ((StdioTunnelLocal_new (StdioTunnel_new (pipe_proc 40) False
         \<lparr>c_iflag = 0, c_oflag = 0, c_lflag = 0, c_cflag = 0\<rparr> 0 0 (demo_world [])))
       \<lparr>m_connection_specs := [demo_spec, demo_spec\<lparr>m_connection_type := LISTEN, m_flags := 0\<rparr>],
        m_command := Some [''ssh'', ''host'']\<rparr>))"
  by (rule command_line_roundtrip) (use demo_specs in simp_all)

theorem configured_well_formed_witness:
  "\<exists>t. StdioTunnelLocal_configure (pipe_proc 40) (print_args [demo_spec] [''ssh''])
      (StdioTunnelLocal_new (StdioTunnel_new (pipe_proc 40) False
         \<lparr>c_iflag = 0, c_oflag = 0, c_lflag = 0, c_cflag = 0\<rparr> 0 0 (demo_world []))) = Inr t \<and>
     m_connection_specs t \<noteq> [] \<and> list_all valid_spec (m_connection_specs t)"
proof -
  have "list_all option_spec [demo_spec]" "count_socks [demo_spec] \<le> 1"
    using demo_specs by (simp_all add: count_socks_def)
  note conf = configure_print_args [OF this(1) _ this(2)]
  have "StdioTunnelLocal_configure os (print_args [demo_spec] [''ssh'']) (StdioTunnelLocal_new base) =
      Inr ((StdioTunnelLocal_new base)\<lparr>m_connection_specs := [demo_spec], m_command := Some [''ssh'']\<rparr>)"
    for os :: "(pipe_world, unit) proc_posix_scheme" and base
    by (rule conf) simp_all
  from configured_well_formed [OF this] this show ?thesis
    by blast
qed

end
