(* ===== verification/Spec2Isabelle.thy ===== *)
theory Spec2Isabelle
  imports Sub_Poll Remote_Safety Local_Safety Diagnostics Tunnel_Setup Link_Reuse Socks_Threads Command_Line
begin

text \<open>
  A verification development for StdioTunnel, which forwards TCP ports through the standard input and
  output of a command such as \<open>ssh\<close>. The sources are under \<open>src/src/com/antlersoft/\<close>
  (\<open>net/\<close>, \<open>stdio_tunnel/\<close> and the diagnostics beside them) and \<open>src/src/microsocks/\<close>.

  \<^bold>\<open>The program.\<close> The local side (\<open>StdioTunnelLocal\<close>) starts the connection command and
  passes bytes between it and the terminal until it sees the announcement of the remote side
  (\<open>StdioTunnelRemote\<close>), which runs on the other machine. Then it sends its table of connections,
  gets an answer, and both sides exchange packets. A connection is one forwarded port: a
  \<open>ListenSide\<close> that accepts clients on one side and a \<open>ConnectSide\<close> on the other that opens a
  socket for each client; a client and its socket are the two ends of a link
  (\<open>ConnectionLink\<close>). Each process is one event loop (\<open>Poller\<close>) that calls the objects whose
  descriptors are ready. The remote side can run a socks server of its own, with a thread for each client.

  \<^bold>\<open>Basis.\<close> \<open>Tunnel_Prelude\<close> has the result type of everything that can throw, \<open>exn + 'a\<close>, its
  bind, the integers of the program (\<open>c_int\<close> is an unbounded integer, with the cut to 16 bits written
  out where the code has a \<open>short\<close>; bytes and shorts are words) and the rules \<open>res_ok\<close> by which
  proofs follow the shape of the code. Undefined behaviour (a null pointer, a freed object, an erased poll
  entry, an indeterminate byte) is the exception \<open>Undefined\<close>, so that a theorem that excludes it says that
  the code never gets there. \<open>Posix\<close>, \<open>Net_Posix\<close>, \<open>Proc_Posix\<close> have the system calls as fields of a
  record of functions on a world of any type; theorems assume of them only what their documentation
  promises (\<open>posix_read\<close>: a read takes a prefix of the input; \<open>posix_write\<close>; \<open>posix_poll\<close>), and the witnesses
  run them on a world with two pipes. \<open>Terminal\<close>, \<open>Std_Map\<close> and \<open>Sblist\<close> have the terminal settings,
  \<open>std::map\<close> as an ordered association list, and the array list of microsocks, which implements the
  interface \<open>array_list\<close>.

  \<^bold>\<open>Streams.\<close> \<open>Write_Stream\<close> and \<open>Read_Stream\<close> (\<open>net/WriteStream.cpp\<close>, \<open>net/ReadStream.cpp\<close>) write
  and collect packets of a four byte length and a payload; \<open>Sock_Buffer\<close> (\<open>net/SockBuffer.cpp\<close>) is the
  buffer of a socket. \<open>Wire_Format\<close> joins the two ends: what is sent arrives, whatever pieces the pipe
  carries it in. \<open>Connection_Spec\<close> has the specification of a connection, its parser and its wire format.
  Formats implement the locale \<open>wire_format\<close>.

  \<^bold>\<open>Event loop.\<close> \<open>Event_Poller\<close> (\<open>net/Poller.cpp\<close>) has the table of poll entries with an address for
  each, so that the \<open>pollfd\<close> reference a handler holds can dangle. The properties hold for all handlers
  that only use the operations of the poller. \<open>Sub_Poll\<close> has the replacement of \<open>poll\<close> by \<open>select\<close>.

  \<^bold>\<open>Tunnel.\<close> \<open>Tunnel_State\<close> has the state of one process: the poller's record extended by the streams and a
  heap of connections and links, addressed by numbers, where a freed object is \<open>None\<close>. \<open>Tunnel_Links\<close> has
  \<open>TunnelConnection\<close>, \<open>ListenSide\<close>, \<open>ConnectSide\<close> and \<open>ConnectionLink\<close>; \<open>Magic_Detector\<close> the search for the
  announcement; \<open>Tunnel_Local\<close> and \<open>Tunnel_Remote\<close> the two state machines; \<open>Socks5\<close> the socks server;
  \<open>Cmdline\<close> the command line and \<open>main\<close>. \<open>Diagnostics\<close> has \<open>Trace\<close>, \<open>MyException\<close> and the line end of
  standard error, with the thread's stack of scope names as state.

  \<^bold>\<open>What is shown of a whole process.\<close> \<open>Tunnel_Frame\<close> says of every operation what it leaves alone and
  that it never undoes the request for \<open>POLLOUT\<close> of anything that waits to be written. On top of it and of
  \<open>Tunnel_Streams\<close>, \<open>Remote_Safety\<close> and \<open>Local_Safety\<close> follow a process from its start, through any number
  of rounds: no reference to an erased entry is used, and what waits to be written is asked for (on the local side
  packets only from the handshake on; one that an early client queues may wait without \<open>POLLOUT\<close> until then). Both rest on
  the interface \<open>event_program\<close> of the poller, which each side interprets with its own invariant.

  \<^bold>\<open>What is shown of two processes.\<close> \<open>Tunnel_Messages\<close> sees the operations as byte strings.
  \<open>Handshake\<close> shows that both sides agree on the table of connections, the line for the socks server included,
  and how an early client breaks that.
  \<open>Link_Protocol\<close> is an abstract specification of a link: two ends, two ordered channels, and all
  interleavings; a link gets no unexpected message, delivers in order, has at most one unacknowledged message
  in each direction, and once closed comes to an end. \<open>Link_Refinement\<close> shows that the handlers implement
  the ends of that specification, for the bytes, the heap and the poll entries of the code; what a
  \<open>ConnectSide\<close> needs of \<open>reportError\<close> is the interface \<open>error_reporter\<close>, which both sides provide.
  \<open>Link_System\<close> carries that to a whole process: the message a process gets, the events of a socket, and the
  quiet steps, which write waiting packets to the pipe and touch nothing else of a link; the two dispatchers
  are the interface \<open>tunnel_reporter\<close>. \<open>Tunnel_Pair\<close> joins two such processes and the bytes between them
  (\<open>pair_step\<close>) for one link of one connection, shows that each step is a step of \<open>Link_Protocol\<close> or none, and
  concludes what comes out of the sockets. \<open>Link_Apart\<close> shows that a handler that works for one link touches
  nothing of the others: not their objects, not their entries in the link maps, not their poll entries.
  With that \<open>Tunnel_Net\<close> follows all links of all connections, whichever side listens, over the same two pipes
  (\<open>net_step\<close>); the locale \<open>link_process\<close> has the common part of the two processes. A client is accepted there
  under a number that is free at both ends, which holds up to the 65536th client of a connection;
  \<open>Link_Reuse\<close> shows what the code does when the number is in use. \<open>Tunnel_Session\<close> puts the handshake
  in front: two processes that have gone through it are in the state where \<open>Tunnel_Net\<close> starts; and
  \<open>Tunnel_Setup\<close> what comes before it: the local side makes its connections of the specifications of the command
  line, all but those whose socket cannot be made to listen (\<open>kept_lines\<close>), and is then ready for the handshake (\<open>local_fresh\<close>). What lies between, the bytes passed through until the
  announcement and the client that may come in that time, is the subject of \<open>Magic_Detector\<close>,
  \<open>Local_Safety\<close> and the last part of \<open>Handshake\<close>. Of the
  system all this assumes that a read or write takes no more than it was asked to (\<open>bounded_io\<close>) and
  that the remote side can open its listening sockets and start its socks server (\<open>can_serve\<close>).
  \<open>Socks_Threads\<close> and \<open>Command_Line\<close> have the theorems on the socks server and the command line.

  \<^bold>\<open>Bounds and fuel.\<close> Loops that follow their input are recursive with a measure. The event loop takes the number
  of rounds as an argument and theorems hold for every number; \<open>readData\<close> takes the number of reads that
  may fill whole buffers, and running out is an exception of its own, \<open>OutOfFuel\<close>. One round of the
  poller has enough turns for its table, which is proved. The socks exchange has two turns, which is
  proved to be enough.

  \<^bold>\<open>Where the code is not what it means to be.\<close> Properties with an error as their subject prove it:
  the header store of a short packet, end of file inside a packet, the dead check of the parser, ports above
  16 bits, the announcement after a partial match, the client that comes before the handshake, the
  data that \<open>LINK_CLOSE\<close> drops, and the link that is freed when its number is used again.

  \<^bold>\<open>Not modelled.\<close> The debug output under \<open>COM_OUT\<close> and \<open>CONFIG_LOG\<close> and the text of the version change
  nothing. What \<open>main\<close> prints is in \<open>main_report\<close>; the other components keep of an exception only its message. A thread of the socks server is a function on the world; its interleaving with the main
  thread is not modelled beyond the \<open>done\<close> flag. The flag of the signal handler belongs to the world,
  because a signal can arrive in any system call (\<open>signaled_world\<close> in \<open>Cmdline\<close>). Headers of operations no source file defines (\<open>microsocks/sblist.h\<close>) have nothing
  to model, and the build files and the manual page are not code.
\<close>

end
